(* ===== verification/Prelude.thy ===== *)
theory Prelude
  imports Main "HOL-Library.Word" "HOL-Library.Sublist"
begin

unbundle bit_operations_syntax

section \<open>Shared vocabulary: machine types, outcomes, programs and their triples\<close>

text \<open>
  What every component of the proxy uses.

  \<^item> Machine integers keep their width: \<open>u8\<close>, \<open>u16\<close>, \<open>u32\<close>, \<open>i32\<close>, \<open>u64\<close> are words; an
    \<open>i32\<close> is a 32-bit word read with \<open>sint\<close>, so the source's \<open>as i32\<close> and \<open>as u32\<close> casts are
    the identity. A \<open>usize\<close> is a \<open>nat\<close>.
  \<^item> A Rust \<open>String\<close> is a \<open>string\<close>: the list of its UTF-8 code units, so \<open>length\<close> is
    \<open>str::len\<close>. A byte slice is a \<open>bytes\<close>.
  \<^item> A fallible pure function returns a sum, the error on the left. An operation of a stateful
    component is a \<open>prog\<close>: from the state before to an \<open>outcome\<close> and the state after, because
    Rust keeps the mutations that happened before an early return.
  \<^item> \<open>Panic\<close> is an unwinding panic (a slice index out of range, a refused rental, or a length
    set beyond an allocation); \<open>Pending\<close> is a future that never completes, which is what a
    deadline observes. Neither is a \<open>Result\<close> of the source.
  \<^item> \<open>triple P m Q E W\<close> is the total-correctness statement used for compositional proofs: from a
    state with \<open>P\<close>, \<open>m\<close> does not panic, and its result satisfies \<open>Q\<close>, \<open>E\<close> or \<open>W\<close>
    according to how it ended.
\<close>

named_theorems prog_simps "the defining equations of the program combinators"
named_theorems triple_rules "composition rules for triples"

subsection \<open>Machine types\<close>

type_synonym u8 = "8 word"
type_synonym u16 = "16 word"
type_synonym u32 = "32 word"
type_synonym i32 = "32 word"
type_synonym u64 = "64 word"
type_synonym bytes = "u8 list"

subsection \<open>Outcomes and programs\<close>

datatype ('a, 'e) outcome = Ok 'a | Err 'e | Panic | Pending

type_synonym ('s, 'a, 'e) prog = "'s \<Rightarrow> ('a, 'e) outcome \<times> 's"

definition ret :: "'a \<Rightarrow> ('s, 'a, 'e) prog" where
  [prog_simps]: "ret x s = (Ok x, s)"

definition throw :: "'e \<Rightarrow> ('s, 'a, 'e) prog" where
  [prog_simps]: "throw e s = (Err e, s)"

definition panic :: "('s, 'a, 'e) prog" where
  [prog_simps]: "panic s = (Panic, s)"

definition hang :: "('s, 'a, 'e) prog" where
  [prog_simps]: "hang s = (Pending, s)"

definition gets :: "('s \<Rightarrow> 'a) \<Rightarrow> ('s, 'a, 'e) prog" where
  [prog_simps]: "gets f s = (Ok (f s), s)"

definition modify :: "('s \<Rightarrow> 's) \<Rightarrow> ('s, unit, 'e) prog" where
  [prog_simps]: "modify f s = (Ok (), f s)"

text \<open>Sequencing, the source's \<open>?\<close>: the first outcome that is not \<open>Ok\<close> ends the program.\<close>

definition bnd :: "('s, 'a, 'e) prog \<Rightarrow> ('a \<Rightarrow> ('s, 'b, 'e) prog) \<Rightarrow> ('s, 'b, 'e) prog" where
  "bnd m f s = (case m s of (r, s') \<Rightarrow>
     (case r of Ok x \<Rightarrow> f x s' | Err e \<Rightarrow> (Err e, s') | Panic \<Rightarrow> (Panic, s')
      | Pending \<Rightarrow> (Pending, s')))"

abbreviation andthen :: "('s, 'a, 'e) prog \<Rightarrow> ('s, 'b, 'e) prog \<Rightarrow> ('s, 'b, 'e) prog" where
  "andthen m n \<equiv> bnd m (\<lambda>_. n)"

definition map_err :: "('e \<Rightarrow> 'f) \<Rightarrow> ('s, 'a, 'e) prog \<Rightarrow> ('s, 'a, 'f) prog" where
  "map_err g m s = (case m s of (r, s') \<Rightarrow>
     ((case r of Ok x \<Rightarrow> Ok x | Err e \<Rightarrow> Err (g e) | Panic \<Rightarrow> Panic | Pending \<Rightarrow> Pending), s'))"

definition guard :: "bool \<Rightarrow> 'e \<Rightarrow> ('s, unit, 'e) prog" where
  [prog_simps]: "guard b e s = (if b then (Ok (), s) else (Err e, s))"

definition of_opt :: "'e \<Rightarrow> 'a option \<Rightarrow> ('s, 'a, 'e) prog" where
  [prog_simps]: "of_opt e x s = (case x of None \<Rightarrow> (Err e, s) | Some v \<Rightarrow> (Ok v, s))"

definition of_sum :: "'e + 'a \<Rightarrow> ('s, 'a, 'e) prog" where
  [prog_simps]: "of_sum x s = (case x of Inl e \<Rightarrow> (Err e, s) | Inr v \<Rightarrow> (Ok v, s))"

lemma bnd_simps [simp]:
  "bnd (ret x) f = f x"
  "bnd (throw e) f = throw e"
  "bnd panic f = panic"
  "bnd hang f = hang"
  by (auto simp: fun_eq_iff bnd_def prog_simps)

lemma bnd_assoc: "bnd (bnd m f) g = bnd m (\<lambda>x. bnd (f x) g)"
  by (auto simp: fun_eq_iff bnd_def split: prod.splits outcome.splits)

lemma bnd_ret_right [simp]: "bnd m ret = m"
  by (auto simp: fun_eq_iff bnd_def prog_simps split: prod.splits outcome.splits)

lemma bnd_Ok: "m s = (Ok x, s') \<Longrightarrow> bnd m f s = f x s'"
  by (simp add: bnd_def)

lemma bnd_Err: "m s = (Err e, s') \<Longrightarrow> bnd m f s = (Err e, s')"
  by (simp add: bnd_def)

lemma bnd_Pending: "m s = (Pending, s') \<Longrightarrow> bnd m f s = (Pending, s')"
  by (simp add: bnd_def)

lemma bnd_Panic: "m s = (Panic, s') \<Longrightarrow> bnd m f s = (Panic, s')"
  by (simp add: bnd_def)

lemma bnd_OkE:
  assumes "bnd m f s = (Ok y, t)"
  obtains x s' where "m s = (Ok x, s')" and "f x s' = (Ok y, t)"
  using assms by (auto simp: bnd_def split: prod.splits outcome.splits)

lemma map_err_id [simp]: "map_err id m = m"
  by (auto simp: fun_eq_iff map_err_def split: prod.splits outcome.splits)

lemma map_err_Ok: "map_err g m s = (Ok x, t) \<longleftrightarrow> m s = (Ok x, t)"
  by (auto simp: map_err_def split: prod.splits outcome.splits)

lemma guard_Ok: "guard b e s = (Ok x, t) \<longleftrightarrow> b \<and> t = s"
  by (auto simp: prog_simps)

lemma of_opt_Ok: "of_opt e v s = (Ok x, t) \<longleftrightarrow> v = Some x \<and> t = s"
  by (auto simp: prog_simps split: option.splits)

lemma of_sum_Ok: "of_sum v s = (Ok x, t) \<longleftrightarrow> v = Inr x \<and> t = s"
  by (auto simp: prog_simps split: sum.splits)

lemmas prog_Ok = map_err_Ok guard_Ok of_opt_Ok of_sum_Ok

subsection \<open>Fallible pure functions\<close>

definition ok_or :: "'a option \<Rightarrow> 'e \<Rightarrow> 'e + 'a" where
  "ok_or x e = (case x of None \<Rightarrow> Inl e | Some v \<Rightarrow> Inr v)"

definition and_then :: "'e + 'a \<Rightarrow> ('a \<Rightarrow> 'e + 'b) \<Rightarrow> 'e + 'b" where
  "and_then x f = (case x of Inl e \<Rightarrow> Inl e | Inr v \<Rightarrow> f v)"

lemma and_then_simps [simp]: "and_then (Inl e) f = Inl e" "and_then (Inr v) f = f v"
  by (simp_all add: and_then_def)

lemma ok_or_simps [simp]: "ok_or None e = Inl e" "ok_or (Some v) e = Inr v"
  by (simp_all add: ok_or_def)

lemma and_then_Inr: "and_then x f = Inr y \<longleftrightarrow> (\<exists>v. x = Inr v \<and> f v = Inr y)"
  by (cases x) simp_all

lemma ok_or_Inr: "ok_or x e = Inr v \<longleftrightarrow> x = Some v"
  by (cases x) simp_all

lemmas sum_Inr = and_then_Inr ok_or_Inr

subsection \<open>Triples\<close>

definition triple :: "('s \<Rightarrow> bool) \<Rightarrow> ('s, 'a, 'e) prog \<Rightarrow> ('a \<Rightarrow> 's \<Rightarrow> bool) \<Rightarrow>
    ('e \<Rightarrow> 's \<Rightarrow> bool) \<Rightarrow> ('s \<Rightarrow> bool) \<Rightarrow> bool" where
  "triple P m Q E W \<longleftrightarrow> (\<forall>s. P s \<longrightarrow> (case m s of (r, s') \<Rightarrow>
     (case r of Ok x \<Rightarrow> Q x s' | Err e \<Rightarrow> E e s' | Panic \<Rightarrow> False | Pending \<Rightarrow> W s')))"

lemma tripleI:
  assumes "\<And>s r s'. P s \<Longrightarrow> m s = (r, s') \<Longrightarrow>
    (case r of Ok x \<Rightarrow> Q x s' | Err e \<Rightarrow> E e s' | Panic \<Rightarrow> False | Pending \<Rightarrow> W s')"
  shows "triple P m Q E W"
  using assms by (auto simp: triple_def)

lemma tripleD:
  "triple P m Q E W \<Longrightarrow> P s \<Longrightarrow> m s = (r, s') \<Longrightarrow>
     (case r of Ok x \<Rightarrow> Q x s' | Err e \<Rightarrow> E e s' | Panic \<Rightarrow> False | Pending \<Rightarrow> W s')"
  unfolding triple_def by (drule spec[where x = s]) simp

lemma triple_Ok: "triple P m Q E W \<Longrightarrow> P s \<Longrightarrow> m s = (Ok x, s') \<Longrightarrow> Q x s'"
  by (fastforce simp: triple_def)

lemma triple_Err: "triple P m Q E W \<Longrightarrow> P s \<Longrightarrow> m s = (Err e, s') \<Longrightarrow> E e s'"
  by (fastforce simp: triple_def)

lemma triple_Pending: "triple P m Q E W \<Longrightarrow> P s \<Longrightarrow> m s = (Pending, s') \<Longrightarrow> W s'"
  by (fastforce simp: triple_def)

lemma triple_Panic: "triple P m Q E W \<Longrightarrow> P s \<Longrightarrow> fst (m s) \<noteq> Panic"
  by (cases "m s") (fastforce simp: triple_def)

lemma triple_invariant:
  assumes "triple P m (\<lambda>_. I) (\<lambda>_. I) I" and "P s"
  shows "fst (m s) \<noteq> Panic \<and> I (snd (m s))"
proof -
  obtain r t where m: "m s = (r, t)" by fastforce
  have "case r of Ok x \<Rightarrow> I t | Err e \<Rightarrow> I t | Panic \<Rightarrow> False | Pending \<Rightarrow> I t"
    using assms m by (auto simp: triple_def)
  then show ?thesis by (cases r) (simp_all add: m)
qed

lemma triple_bnd [triple_rules]:
  assumes "triple P m R E W" and "\<And>x. triple (R x) (f x) Q E W"
  shows "triple P (bnd m f) Q E W"
proof (rule tripleI)
  fix s r s' assume P: "P s" and run: "bnd m f s = (r, s')"
  obtain r1 s1 where m: "m s = (r1, s1)" by fastforce
  show "case r of Ok x \<Rightarrow> Q x s' | Err e \<Rightarrow> E e s' | Panic \<Rightarrow> False | Pending \<Rightarrow> W s'"
  proof (cases r1)
    case (Ok x)
    then have R: "R x s1" and f: "f x s1 = (r, s')"
      using assms(1) P m run by (auto simp: bnd_def dest: triple_Ok)
    then show ?thesis using assms(2)[of x] by (auto simp: triple_def)
  next
    case (Err e)
    then show ?thesis using assms(1) P m run by (auto simp: bnd_def dest: triple_Err)
  next
    case Panic
    then show ?thesis using triple_Panic[OF assms(1) P] m by simp
  next
    case Pending
    then show ?thesis using assms(1) P m run by (auto simp: bnd_def dest: triple_Pending)
  qed
qed

lemma triple_weaken:
  assumes "triple P' m Q' E' W'" and "\<And>s. P s \<Longrightarrow> P' s" and "\<And>x s. Q' x s \<Longrightarrow> Q x s"
    and "\<And>e s. E' e s \<Longrightarrow> E e s" and "\<And>s. W' s \<Longrightarrow> W s"
  shows "triple P m Q E W"
proof (rule tripleI)
  fix s r s' assume P: "P s" and m: "m s = (r, s')"
  from assms(1) have "case m s of (r, s') \<Rightarrow> (case r of Ok x \<Rightarrow> Q' x s' | Err e \<Rightarrow> E' e s'
      | Panic \<Rightarrow> False | Pending \<Rightarrow> W' s')"
    using assms(2)[OF P] by (simp add: triple_def)
  then show "case r of Ok x \<Rightarrow> Q x s' | Err e \<Rightarrow> E e s' | Panic \<Rightarrow> False | Pending \<Rightarrow> W s'"
    using m assms(3-5) by (cases r) auto
qed

lemma triple_conj:
  assumes "triple P m Q E W" and "triple P' m Q' E' W'"
  shows "triple (\<lambda>s. P s \<and> P' s) m (\<lambda>x s. Q x s \<and> Q' x s) (\<lambda>e s. E e s \<and> E' e s) (\<lambda>s. W s \<and> W' s)"
proof (rule tripleI)
  fix s r s' assume P: "P s \<and> P' s" and m: "m s = (r, s')"
  have "case r of Ok x \<Rightarrow> Q x s' | Err e \<Rightarrow> E e s' | Panic \<Rightarrow> False | Pending \<Rightarrow> W s'"
    and "case r of Ok x \<Rightarrow> Q' x s' | Err e \<Rightarrow> E' e s' | Panic \<Rightarrow> False | Pending \<Rightarrow> W' s'"
    using tripleD[OF assms(1) _ m] tripleD[OF assms(2) _ m] P by simp_all
  then show "case r of Ok x \<Rightarrow> Q x s' \<and> Q' x s' | Err e \<Rightarrow> E e s' \<and> E' e s' | Panic \<Rightarrow> False
      | Pending \<Rightarrow> W s' \<and> W' s'" by (cases r) simp_all
qed

lemma triple_pre: "triple P' m Q E W \<Longrightarrow> (\<And>s. P s \<Longrightarrow> P' s) \<Longrightarrow> triple P m Q E W"
  by (erule triple_weaken) auto

lemma triple_ret [triple_rules]: "(\<And>s. P s \<Longrightarrow> Q x s) \<Longrightarrow> triple P (ret x) Q E W"
  by (auto simp: triple_def prog_simps)

lemma triple_throw [triple_rules]: "(\<And>s. P s \<Longrightarrow> E e s) \<Longrightarrow> triple P (throw e) Q E W"
  by (auto simp: triple_def prog_simps)

lemma triple_gets [triple_rules]: "(\<And>s. P s \<Longrightarrow> Q (f s) s) \<Longrightarrow> triple P (gets f) Q E W"
  by (auto simp: triple_def prog_simps)

lemma triple_modify [triple_rules]: "(\<And>s. P s \<Longrightarrow> Q () (f s)) \<Longrightarrow> triple P (modify f) Q E W"
  by (auto simp: triple_def prog_simps)

lemma triple_guard [triple_rules]:
  "(\<And>s. P s \<Longrightarrow> b \<Longrightarrow> Q () s) \<Longrightarrow> (\<And>s. P s \<Longrightarrow> \<not> b \<Longrightarrow> E e s) \<Longrightarrow> triple P (guard b e) Q E W"
  by (auto simp: triple_def prog_simps)

lemma triple_of_opt [triple_rules]:
  "(\<And>s v. P s \<Longrightarrow> x = Some v \<Longrightarrow> Q v s) \<Longrightarrow> (\<And>s. P s \<Longrightarrow> x = None \<Longrightarrow> E e s) \<Longrightarrow>
   triple P (of_opt e x) Q E W"
  by (cases x) (auto simp: triple_def prog_simps)

lemma triple_of_sum [triple_rules]:
  "(\<And>s v. P s \<Longrightarrow> x = Inr v \<Longrightarrow> Q v s) \<Longrightarrow> (\<And>s e. P s \<Longrightarrow> x = Inl e \<Longrightarrow> E e s) \<Longrightarrow>
   triple P (of_sum x) Q E W"
  by (cases x) (auto simp: triple_def prog_simps)

lemma triple_map_err [triple_rules]:
  "triple P m Q (\<lambda>e. E (g e)) W \<Longrightarrow> triple P (map_err g m) Q E W"
  by (rule tripleI) (auto simp: map_err_def triple_def split: outcome.splits prod.splits)

lemma triple_if [triple_rules]:
  "(b \<Longrightarrow> triple P m Q E W) \<Longrightarrow> (\<not> b \<Longrightarrow> triple P n Q E W) \<Longrightarrow> triple P (if b then m else n) Q E W"
  by simp

lemma triple_option [triple_rules]:
  "(x = None \<Longrightarrow> triple P m Q E W) \<Longrightarrow> (\<And>v. x = Some v \<Longrightarrow> triple P (n v) Q E W) \<Longrightarrow>
   triple P (case x of None \<Rightarrow> m | Some v \<Rightarrow> n v) Q E W"
  by (cases x) auto

end
