(* ===== verification/Rust_Std.thy ===== *)
theory Rust_Std
  imports Prelude
begin

section \<open>The standard-library operations the proxy uses\<close>

text \<open>
  Rust's \<open>str\<close>, slice and integer-parsing operations as executable functions, with the lemmas
  the components share: splitting, prefixes, UTF-8 validation and lossy decoding, decimal
  rendering and parsing, big-endian integers. A string is its list of UTF-8 code units; every
  pattern the source searches for is ASCII, so searching code units and searching code points
  agree.
\<close>

named_theorems str_simps "characteristic lemmas of the string operations"

subsection \<open>Strings and bytes\<close>

definition as_bytes :: "string \<Rightarrow> bytes" where
  "as_bytes s = map of_char s"

definition bytes_str :: "bytes \<Rightarrow> string" where
  "bytes_str bs = map (\<lambda>b. char_of (unat b)) bs"

lemma of_char_less_256: "(of_char c :: nat) < 256"
proof -
  have "(of_char c :: nat) mod 256 < 256" by simp
  then show ?thesis by (simp only: of_char_mod_256)
qed

lemma unat_of_char_u8 [simp]: "unat (of_char c :: u8) = of_char c"
proof -
  have "(of_char c :: u8) = of_nat (of_char c)"
    by (simp add: of_nat_of_char)
  then show ?thesis
    using of_char_less_256[of c] by (simp add: unat_of_nat take_bit_eq_mod del: of_nat_of_char)
qed

lemma of_char_char_of_u8 [simp]: "of_char (char_of (unat b)) = (b :: u8)"
proof -
  have "unat (of_char (char_of (unat b)) :: u8) = unat b"
    using unsigned_less[of b, where 'a = nat] by simp
  then show ?thesis by (simp only: word_unat_eq_iff)
qed

lemma of_char_u8_eq [simp]: "(of_char c :: u8) = of_char d \<longleftrightarrow> c = d"
  by (metis of_char_eq_iff unat_of_char_u8)

lemma bytes_str_as_bytes [simp]: "bytes_str (as_bytes s) = s"
  by (simp add: as_bytes_def bytes_str_def o_def)

lemma as_bytes_bytes_str [simp]: "as_bytes (bytes_str bs) = bs"
  by (simp add: as_bytes_def bytes_str_def o_def)

lemma as_bytes_simps [simp]:
  "as_bytes [] = []" "as_bytes (c # s) = of_char c # as_bytes s"
  "as_bytes (s @ t) = as_bytes s @ as_bytes t" "length (as_bytes s) = length s"
  by (simp_all add: as_bytes_def)

lemma as_bytes_inj [simp]: "as_bytes s = as_bytes t \<longleftrightarrow> s = t"
  by (metis bytes_str_as_bytes)

lemma bytes_str_simps [simp]:
  "bytes_str [] = []" "bytes_str (bs @ cs) = bytes_str bs @ bytes_str cs"
  "length (bytes_str bs) = length bs"
  by (simp_all add: bytes_str_def)

lemma zero_in_as_bytes: "0 \<in> set (as_bytes s) \<longleftrightarrow> CHR 0x00 \<in> set s"
proof -
  have "(of_char c = (0 :: u8)) = (c = CHR 0x00)" for c
    using of_char_u8_eq[of c "CHR 0x00"] by simp
  then show ?thesis by (auto simp: as_bytes_def image_iff)
qed

subsection \<open>UTF-8\<close>

text \<open>
  One step of the decoder at a non-empty input: whether the next code point is well formed, and
  how many bytes it takes, or how many bytes the maximal ill-formed prefix takes. The second-byte
  ranges are those of the Unicode well-formedness table, which exclude overlong forms, surrogates
  and code points above U+10FFFF.
\<close>

definition is_cont :: "u8 \<Rightarrow> bool" where
  "is_cont b \<longleftrightarrow> 0x80 \<le> b \<and> b \<le> 0xBF"

definition second_ok :: "u8 \<Rightarrow> u8 \<Rightarrow> bool" where
  "second_ok b c \<longleftrightarrow>
     (if b = 0xE0 then 0xA0 \<le> c \<and> c \<le> 0xBF
      else if b = 0xED then 0x80 \<le> c \<and> c \<le> 0x9F
      else if b = 0xF0 then 0x90 \<le> c \<and> c \<le> 0xBF
      else if b = 0xF4 then 0x80 \<le> c \<and> c \<le> 0x8F
      else is_cont c)"

definition utf8_step :: "u8 \<Rightarrow> bytes \<Rightarrow> bool \<times> nat" where
  "utf8_step b rest =
     (if b < 0x80 then (True, 1)
      else if 0xC2 \<le> b \<and> b \<le> 0xDF then
        (case rest of c # _ \<Rightarrow> if is_cont c then (True, 2) else (False, 1) | [] \<Rightarrow> (False, 1))
      else if 0xE0 \<le> b \<and> b \<le> 0xEF then
        (case rest of c # r \<Rightarrow> if second_ok b c
           then (case r of d # _ \<Rightarrow> if is_cont d then (True, 3) else (False, 2) | [] \<Rightarrow> (False, 2))
           else (False, 1) | [] \<Rightarrow> (False, 1))
      else if 0xF0 \<le> b \<and> b \<le> 0xF4 then
        (case rest of c # r \<Rightarrow> if second_ok b c
           then (case r of d # q \<Rightarrow> if is_cont d
             then (case q of e # _ \<Rightarrow> if is_cont e then (True, 4) else (False, 3) | [] \<Rightarrow> (False, 3))
             else (False, 2) | [] \<Rightarrow> (False, 2))
           else (False, 1) | [] \<Rightarrow> (False, 1))
      else (False, 1))"

function utf8_valid :: "bytes \<Rightarrow> bool" where
  "utf8_valid [] = True"
| "utf8_valid (b # rest) =
     (case utf8_step b rest of (ok, n) \<Rightarrow> ok \<and> utf8_valid (drop (n - 1) rest))"
  by pat_completeness auto
termination by (relation "measure length") auto

text \<open>\<open>String::from_utf8_lossy\<close>: each maximal ill-formed prefix becomes U+FFFD.\<close>

function utf8_lossy_bytes :: "bytes \<Rightarrow> bytes" where
  "utf8_lossy_bytes [] = []"
| "utf8_lossy_bytes (b # rest) =
     (case utf8_step b rest of (ok, n) \<Rightarrow>
       (if ok then take n (b # rest) else [0xEF, 0xBF, 0xBD]) @ utf8_lossy_bytes (drop (n - 1) rest))"
  by pat_completeness auto
termination by (relation "measure length") auto

definition from_utf8 :: "bytes \<Rightarrow> string option" where
  "from_utf8 bs = (if utf8_valid bs then Some (bytes_str bs) else None)"

definition from_utf8_lossy :: "bytes \<Rightarrow> string" where
  "from_utf8_lossy bs = bytes_str (utf8_lossy_bytes bs)"

definition is_ascii :: "string \<Rightarrow> bool" where
  "is_ascii s \<longleftrightarrow> (\<forall>c \<in> set s. (of_char c :: nat) < 128)"

lemma of_char_u8_less_0x80: "((of_char c :: u8) < 0x80) = ((of_char c :: nat) < 128)"
  by (simp add: word_less_nat_alt)

lemma utf8_valid_ascii: "is_ascii s \<Longrightarrow> utf8_valid (as_bytes s @ bs) = utf8_valid bs"
  by (induction s) (simp_all add: is_ascii_def utf8_step_def of_char_u8_less_0x80)

lemma utf8_valid_str: "is_ascii s \<Longrightarrow> utf8_valid (as_bytes s)"
  using utf8_valid_ascii[of s "[]"] by simp

lemma from_utf8_Some: "from_utf8 bs = Some s \<Longrightarrow> as_bytes s = bs"
  by (auto simp: from_utf8_def split: if_splits)

lemma from_utf8_as_bytes [str_simps]: "from_utf8 (as_bytes s) = (if utf8_valid (as_bytes s) then Some s else None)"
  by (simp add: from_utf8_def)

lemma from_utf8_ascii [str_simps]: "is_ascii s \<Longrightarrow> from_utf8 (as_bytes s) = Some s"
  using utf8_valid_ascii[of s "[]"] by (simp add: from_utf8_def)

lemma utf8_lossy_valid: "utf8_valid bs \<Longrightarrow> utf8_lossy_bytes bs = bs"
proof (induction bs rule: utf8_valid.induct)
  case (2 b rest)
  obtain ok n where s: "utf8_step b rest = (ok, n)" by fastforce
  have "0 < n"
    using s by (auto simp: utf8_step_def split: if_splits list.splits)
  then show ?case
    using 2 s by (cases n) (simp_all add: append_take_drop_id)
qed simp

lemma from_utf8_lossy_str: "utf8_valid (as_bytes s) \<Longrightarrow> from_utf8_lossy (as_bytes s) = s"
  by (simp add: from_utf8_lossy_def utf8_lossy_valid)

lemma is_ascii_simps [simp]:
  "is_ascii []" "is_ascii (c # s) \<longleftrightarrow> (of_char c :: nat) < 128 \<and> is_ascii s"
  "is_ascii (s @ t) \<longleftrightarrow> is_ascii s \<and> is_ascii t"
  by (auto simp: is_ascii_def)

subsection \<open>Searching and splitting\<close>

fun split_once :: "char \<Rightarrow> string \<Rightarrow> (string \<times> string) option" where
  "split_once c [] = None"
| "split_once c (x # xs) =
     (if x = c then Some ([], xs)
      else (case split_once c xs of None \<Rightarrow> None | Some (a, b) \<Rightarrow> Some (x # a, b)))"

fun rsplit_once :: "char \<Rightarrow> string \<Rightarrow> (string \<times> string) option" where
  "rsplit_once c [] = None"
| "rsplit_once c (x # xs) =
     (case rsplit_once c xs of Some (a, b) \<Rightarrow> Some (x # a, b)
      | None \<Rightarrow> if x = c then Some ([], xs) else None)"

fun split_on :: "'a \<Rightarrow> 'a list \<Rightarrow> 'a list list" where
  "split_on c [] = [[]]"
| "split_on c (x # xs) =
     (if x = c then [] # split_on c xs
      else (case split_on c xs of [] \<Rightarrow> [[x]] | p # ps \<Rightarrow> (x # p) # ps))"

definition strip_prefix :: "string \<Rightarrow> string \<Rightarrow> string option" where
  "strip_prefix p s = (if prefix p s then Some (drop (length p) s) else None)"

definition starts_with :: "string \<Rightarrow> string \<Rightarrow> bool" where
  "starts_with s p \<longleftrightarrow> prefix p s"

text \<open>\<open>str::rfind\<close>: the index of the last occurrence.\<close>

fun rfind :: "string \<Rightarrow> string \<Rightarrow> nat option" where
  "rfind p [] = (if p = [] then Some 0 else None)"
| "rfind p (x # xs) =
     (case rfind p xs of Some i \<Rightarrow> Some (Suc i)
      | None \<Rightarrow> if prefix p (x # xs) then Some 0 else None)"

lemma split_once_None [str_simps]: "split_once c s = None \<longleftrightarrow> c \<notin> set s"
  by (induction s) (auto split: option.splits)

lemma split_once_Some [str_simps]: "split_once c s = Some (a, b) \<longleftrightarrow> s = a @ c # b \<and> c \<notin> set a"
proof (induction s arbitrary: a)
  case (Cons x xs)
  have none: "split_once c xs = None \<Longrightarrow> c \<notin> set xs"
    by (simp add: split_once_None)
  show ?case
    using Cons.IH[of "tl a"] none by (cases a; cases "split_once c xs") auto
qed simp

lemma split_once_append: "c \<notin> set a \<Longrightarrow> split_once c (a @ c # b) = Some (a, b)"
  by (simp add: split_once_Some)

lemma rsplit_once_None [str_simps]: "rsplit_once c s = None \<longleftrightarrow> c \<notin> set s"
  by (induction s) (auto split: option.splits)

lemma rsplit_once_Some [str_simps]: "rsplit_once c s = Some (a, b) \<longleftrightarrow> s = a @ c # b \<and> c \<notin> set b"
proof (induction s arbitrary: a)
  case (Cons x xs)
  show ?case
  proof (cases "rsplit_once c xs")
    case None
    then have "c \<notin> set xs" by (simp add: rsplit_once_None)
    then show ?thesis using None by (cases a) auto
  next
    case (Some ab)
    obtain a' b' where ab: "ab = (a', b')" by fastforce
    have "c \<in> set xs" using Some rsplit_once_None[of c xs] by auto
    then show ?thesis using Some ab Cons.IH[of "tl a"] by (cases a) (auto simp: Cons.IH)
  qed
qed simp

lemma split_on_not_Nil [simp]: "split_on c s \<noteq> []"
  by (induction s) (auto split: list.splits)

lemma split_on_no_sep [str_simps]: "c \<notin> set s \<Longrightarrow> split_on c s = [s]"
  by (induction s) auto

lemma split_on_append [str_simps]: "c \<notin> set a \<Longrightarrow> split_on c (a @ c # b) = a # split_on c b"
  by (induction a) auto

lemma strip_prefix_Some [str_simps]: "strip_prefix p s = Some r \<longleftrightarrow> s = p @ r"
  by (auto simp: strip_prefix_def prefix_def)

lemma strip_prefix_None [str_simps]: "strip_prefix p s = None \<longleftrightarrow> \<not> prefix p s"
  by (auto simp: strip_prefix_def)

lemma strip_prefix_append [simp]: "strip_prefix p (p @ r) = Some r"
  by (simp add: strip_prefix_def)

lemma starts_with_append [simp]: "starts_with (p @ r) p"
  by (simp add: starts_with_def)

lemma rfind_no_sep: "c \<notin> set s \<Longrightarrow> rfind (c # q) s = None"
  by (induction s) auto

lemma rfind_last:
  assumes "c \<notin> set q" and "c \<notin> set r"
  shows "rfind (c # q) (a @ (c # q) @ r) = Some (length a)"
proof (induction a)
  case Nil
  have "rfind (c # q) (q @ r) = None"
    using assms by (intro rfind_no_sep) auto
  then show ?case by simp
qed simp

lemma rfind_Some: "rfind p s = Some i \<Longrightarrow> i \<le> length s \<and> prefix p (drop i s)"
proof (induction s arbitrary: i)
  case (Cons x xs)
  then show ?case by (cases "rfind p xs") (auto split: if_splits)
qed (auto split: if_splits)

subsection \<open>Decimal numbers\<close>

definition digit_char :: "nat \<Rightarrow> char" where
  "digit_char d = char_of (48 + d)"

fun show_nat :: "nat \<Rightarrow> string" where
  "show_nat n = (if n < 10 then [digit_char n] else show_nat (n div 10) @ [digit_char (n mod 10)])"

declare show_nat.simps [simp del]

definition is_digit :: "char \<Rightarrow> bool" where
  "is_digit c \<longleftrightarrow> 48 \<le> (of_char c :: nat) \<and> (of_char c :: nat) \<le> 57"

fun parse_dec :: "nat \<Rightarrow> string \<Rightarrow> nat option" where
  "parse_dec acc [] = Some acc"
| "parse_dec acc (c # cs) = (if is_digit c then parse_dec (10 * acc + (of_char c - 48)) cs else None)"

text \<open>
  \<open>str::parse\<close> for an unsigned type with \<open>bound\<close> values: an optional leading \<open>+\<close>, at least one
  digit, no overflow.
\<close>

definition parse_unsigned :: "nat \<Rightarrow> string \<Rightarrow> nat option" where
  "parse_unsigned bound s =
     (case s of [] \<Rightarrow> None
      | c # cs \<Rightarrow>
        (case parse_dec 0 (if c = CHR ''+'' \<and> cs \<noteq> [] then cs else s) of
           None \<Rightarrow> None
         | Some v \<Rightarrow> if v < bound then Some v else None))"

definition parse_u32 :: "string \<Rightarrow> u32 option" where
  "parse_u32 s = map_option of_nat (parse_unsigned (2 ^ 32) s)"

definition parse_u16 :: "string \<Rightarrow> u16 option" where
  "parse_u16 s = map_option of_nat (parse_unsigned (2 ^ 16) s)"

definition show_u32 :: "u32 \<Rightarrow> string" where
  "show_u32 w = show_nat (unat w)"

lemma of_char_digit_char: "d < 10 \<Longrightarrow> (of_char (digit_char d) :: nat) = 48 + d"
  by (simp add: digit_char_def)

lemma is_digit_digit_char: "d < 10 \<Longrightarrow> is_digit (digit_char d)"
  by (simp add: is_digit_def of_char_digit_char)

lemma parse_dec_append: "parse_dec acc (s @ t) = Option.bind (parse_dec acc s) (\<lambda>a. parse_dec a t)"
  by (induction s arbitrary: acc) auto

lemma parse_dec_show_nat: "parse_dec 0 (show_nat n) = Some n"
proof (induction n rule: show_nat.induct)
  case (1 n)
  show ?case
  proof (cases "n < 10")
    case True
    then show ?thesis
      by (simp add: show_nat.simps[of n] is_digit_digit_char of_char_digit_char)
  next
    case False
    then show ?thesis
      using 1 by (simp add: show_nat.simps[of n] parse_dec_append is_digit_digit_char of_char_digit_char)
  qed
qed

lemma show_nat_digits: "c \<in> set (show_nat n) \<Longrightarrow> is_digit c"
proof (induction n rule: show_nat.induct)
  case (1 n)
  then show ?case
    by (cases "n < 10") (auto simp: show_nat.simps[of n] is_digit_digit_char)
qed

lemma show_nat_not_Nil [simp]: "show_nat n \<noteq> []"
  by (simp add: show_nat.simps[of n])

lemma parse_unsigned_show_nat: "n < bound \<Longrightarrow> parse_unsigned bound (show_nat n) = Some n"
proof -
  assume n: "n < bound"
  obtain c cs where s: "show_nat n = c # cs" by (cases "show_nat n") auto
  have "is_digit c" using show_nat_digits[of c n] s by simp
  then have "c \<noteq> CHR ''+''" by (auto simp: is_digit_def)
  then show ?thesis
    using n parse_dec_show_nat[of n] s by (simp add: parse_unsigned_def)
qed

lemma parse_u32_show_u32 [simp]: "parse_u32 (show_u32 w) = Some w"
  using unsigned_less[of w, where 'a = nat]
  by (simp add: parse_u32_def show_u32_def parse_unsigned_show_nat)

lemma show_u32_digits: "c \<in> set (show_u32 w) \<Longrightarrow> is_digit c"
  by (auto simp: show_u32_def dest: show_nat_digits)

lemma show_u32_free [simp]:
  "CHR '','' \<notin> set (show_u32 w)" "CHR '':'' \<notin> set (show_u32 w)" "CHR ''$'' \<notin> set (show_u32 w)"
  by (auto dest!: show_u32_digits simp: is_digit_def)

subsection \<open>Big-endian integers and C strings\<close>

definition to_be32 :: "u32 \<Rightarrow> bytes" where
  "to_be32 w = [ucast (drop_bit 24 w), ucast (drop_bit 16 w), ucast (drop_bit 8 w), ucast w]"

definition from_be32 :: "u8 \<Rightarrow> u8 \<Rightarrow> u8 \<Rightarrow> u8 \<Rightarrow> u32" where
  "from_be32 a b c d =
     push_bit 24 (ucast a) OR push_bit 16 (ucast b) OR push_bit 8 (ucast c) OR ucast d"

definition from_be16 :: "u8 \<Rightarrow> u8 \<Rightarrow> u16" where
  "from_be16 a b = push_bit 8 (ucast a) OR ucast b"

lemma to_be32_length [simp]: "length (to_be32 w) = 4"
  by (simp add: to_be32_def)

lemma from_to_be32:
  "from_be32 (ucast (drop_bit 24 w)) (ucast (drop_bit 16 w)) (ucast (drop_bit 8 w)) (ucast w) = w"
  unfolding from_be32_def
proof (rule bit_word_eqI)
  fix n assume "n < LENGTH(32)"
  then consider "n < 8" | "8 \<le> n" "n < 16" | "16 \<le> n" "n < 24" | "24 \<le> n" "n < 32"
    by fastforce
  then show "bit (push_bit 24 (ucast (ucast (drop_bit 24 w) :: u8))
      OR push_bit 16 (ucast (ucast (drop_bit 16 w) :: u8))
      OR push_bit 8 (ucast (ucast (drop_bit 8 w) :: u8)) OR ucast (ucast w :: u8) :: u32) n = bit w n"
    by cases (auto simp: bit_simps less_diff_conv2)
qed

end
