(* ===== verification/Config_Report.thy ===== *)
theory Config_Report
  imports Rust_Std
begin

section \<open>Validation reports (\<open>auth/credentials/report.rs\<close>)\<close>

text \<open>
  \<open>EntryError\<close>, \<open>ConfigError\<close> and the \<open>ErrorBag\<close> a loader pushes failures into. The bag keeps
  the order of the pushes and turns into an error exactly when something was pushed; a report
  renders the user name, the field and a fixed reason of every entry, and nothing else.
\<close>

record entry_error =
  ee_user :: "string option"
  ee_field :: string
  ee_reason :: string

datatype config_error = ConfigError (entries: "entry_error list")

definition entry_display :: "entry_error \<Rightarrow> string" where
  "entry_display e =
     (case ee_user e of
        Some user \<Rightarrow> ''user '' @ user @ '': '' @ ee_field e @ '': '' @ ee_reason e
      | None \<Rightarrow> ee_field e @ '': '' @ ee_reason e)"

definition config_error_single :: "string \<Rightarrow> string \<Rightarrow> config_error" where
  "config_error_single field reason =
     ConfigError [\<lparr>ee_user = None, ee_field = field, ee_reason = reason\<rparr>]"

definition config_error_len :: "config_error \<Rightarrow> nat" where
  "config_error_len e = length (entries e)"

definition config_error_is_empty :: "config_error \<Rightarrow> bool" where
  "config_error_is_empty e = (entries e = [])"

definition config_error_display :: "config_error \<Rightarrow> string" where
  "config_error_display e =
     show_nat (length (entries e)) @ '' credentials configuration error(s)''
     @ concat (map (\<lambda>x. CHR 0x0A # '' - '' @ entry_display x) (entries e))"

type_synonym error_bag = "entry_error list"

definition bag_push :: "string option \<Rightarrow> string \<Rightarrow> string \<Rightarrow> error_bag \<Rightarrow> error_bag" where
  "bag_push user field reason bag =
     bag @ [\<lparr>ee_user = user, ee_field = field, ee_reason = reason\<rparr>]"

definition bag_is_empty :: "error_bag \<Rightarrow> bool" where
  "bag_is_empty bag = (bag = [])"

definition bag_into_result :: "error_bag \<Rightarrow> config_error + unit" where
  "bag_into_result bag = (if bag_is_empty bag then Inr () else Inl (ConfigError bag))"

lemma bag_push_not_Nil [simp]: "bag_push u f r bag \<noteq> []"
  by (simp add: bag_push_def)

lemma bag_into_result_simps [simp]:
  "bag_into_result bag = Inr () \<longleftrightarrow> bag = []"
  "bag_into_result bag = Inl e \<longleftrightarrow> bag \<noteq> [] \<and> e = ConfigError bag"
  by (auto simp: bag_into_result_def bag_is_empty_def)

lemma bag_into_result_nonempty: "bag_into_result bag = Inl e \<Longrightarrow> \<not> config_error_is_empty e"
  by (auto simp: config_error_is_empty_def)

lemma config_error_single_len [simp]: "config_error_len (config_error_single f r) = 1"
  by (simp add: config_error_len_def config_error_single_def)

end
