(* ===== verification/Conn_Slots.thy ===== *)
theory Conn_Slots
  imports Rust_Std
begin

section \<open>The connection cap (\<open>proxy/conn_registry.rs\<close>)\<close>

text \<open>
  \<open>ConnRegistry\<close> counts live sessions against a maximum; a \<open>ConnPermit\<close> gives its slot back when
  it is dropped, on every way out of a session. The clones of a registry share one \<open>Inner\<close> behind
  a lock, so a run of the system is a sequence of operations on one state. The locale
  \<open>slot_source\<close> is the contract \<open>Conn::handle\<close> and the server rely on.
\<close>

record slot_inner =
  live :: u32
  max_slots :: u32

definition DEFAULT_MAX_CONNECTIONS :: u32 where
  "DEFAULT_MAX_CONNECTIONS = 100"

definition slots_new :: "u32 \<Rightarrow> slot_inner" where
  "slots_new mx = \<lparr>live = 0, max_slots = mx\<rparr>"

definition try_acquire :: "slot_inner \<Rightarrow> unit option \<times> slot_inner" where
  "try_acquire s =
     (if live s \<ge> max_slots s then (None, s) else (Some (), s\<lparr>live := live s + 1\<rparr>))"

definition saturating_sub :: "u32 \<Rightarrow> u32 \<Rightarrow> u32" where
  "saturating_sub a b = (if a < b then 0 else a - b)"

definition permit_drop :: "slot_inner \<Rightarrow> slot_inner" where
  "permit_drop s = s\<lparr>live := saturating_sub (live s) 1\<rparr>"

definition slots_live :: "slot_inner \<Rightarrow> u32" where
  "slots_live s = live s"

subsection \<open>The contract\<close>

locale slot_source =
  fixes acquire :: "'s \<Rightarrow> unit option \<times> 's"
    and release :: "'s \<Rightarrow> 's"
    and used :: "'s \<Rightarrow> nat"
    and capacity :: "'s \<Rightarrow> nat"
  assumes acquire_law: "fst (acquire s) = (if used s < capacity s then Some () else None)"
    and acquire_full: "capacity s \<le> used s \<Longrightarrow> snd (acquire s) = s"
    and acquire_used: "used s < capacity s \<Longrightarrow>
      used (snd (acquire s)) = Suc (used s) \<and> capacity (snd (acquire s)) = capacity s"
    and release_used: "used (release s) = used s - 1"
    and release_capacity: "capacity (release s) = capacity s"

datatype slot_event = Connect nat | Finish nat

fun slot_run :: "('s \<Rightarrow> unit option \<times> 's) \<Rightarrow> ('s \<Rightarrow> 's) \<Rightarrow> slot_event list \<Rightarrow> nat list \<Rightarrow> 's \<Rightarrow>
    nat list \<times> 's" where
  "slot_run acq rel [] running s = (running, s)"
| "slot_run acq rel (Connect i # es) running s =
     (case acq s of (Some _, s') \<Rightarrow> slot_run acq rel es (i # running) s'
      | (None, s') \<Rightarrow> slot_run acq rel es running s')"
| "slot_run acq rel (Finish i # es) running s =
     (if i \<in> set running then slot_run acq rel es (remove1 i running) (rel s)
      else slot_run acq rel es running s)"

context slot_source
begin

lemma run_counts:
  assumes "length running = used s" and "used s \<le> capacity s"
    and "slot_run acquire release es running s = (running', s')"
  shows "length running' = used s' \<and> used s' \<le> capacity s' \<and> capacity s' = capacity s"
  using assms
proof (induction es arbitrary: running s)
  case (Cons e es)
  show ?case
  proof (cases e)
    case (Connect i)
    show ?thesis
    proof (cases "used s < capacity s")
      case True
      then obtain t where acq: "acquire s = (Some (), t)"
        using acquire_law[of s] True by (cases "acquire s") simp
      have t: "used t = Suc (used s)" "capacity t = capacity s"
        using acquire_used[OF True] acq by simp_all
      have "slot_run acquire release es (i # running) t = (running', s')"
        using Cons.prems(3) Connect acq by simp
      then show ?thesis using Cons.IH[of "i # running" t] t True Cons.prems(1) by simp
    next
      case False
      then have "acquire s = (None, s)"
        using acquire_law[of s] acquire_full[of s] by (cases "acquire s") simp
      then have "slot_run acquire release es running s = (running', s')"
        using Cons.prems(3) Connect by simp
      then show ?thesis using Cons.IH Cons.prems(1,2) by blast
    qed
  next
    case (Finish i)
    show ?thesis
    proof (cases "i \<in> set running")
      case True
      have "slot_run acquire release es (remove1 i running) (release s) = (running', s')"
        using Cons.prems(3) Finish True by simp
      moreover have "length (remove1 i running) = used (release s)"
        using True Cons.prems(1) by (simp add: length_remove1 release_used)
      moreover have "used (release s) \<le> capacity (release s)"
        using Cons.prems(2) by (simp add: release_used release_capacity)
      ultimately show ?thesis
        using Cons.IH[of "remove1 i running" "release s"] by (simp add: release_capacity)
    next
      case False
      then have "slot_run acquire release es running s = (running', s')"
        using Cons.prems(3) Finish by simp
      then show ?thesis using Cons.IH Cons.prems(1,2) by blast
    qed
  qed
qed simp

text \<open>A session that gives its slot back leaves the count as it found it.\<close>

lemma acquire_release: "acquire s = (Some x, t) \<Longrightarrow> used (release t) = used s"
  using acquire_law[of s] acquire_used[of s] by (auto simp: release_used split: if_splits)

lemma acquire_refused: "acquire s = (None, t) \<Longrightarrow> t = s \<and> capacity s \<le> used s"
  using acquire_law[of s] acquire_full[of s] by (auto split: if_splits)

lemma acquire_granted: "acquire s = (Some x, t) \<Longrightarrow> used s < capacity s"
  using acquire_law[of s] by (auto split: if_splits)

end

lemma unat_saturating_sub: "unat (saturating_sub a b) = unat a - unat b"
  by (simp add: saturating_sub_def unat_sub word_less_nat_alt word_le_nat_alt)

interpretation conn_slots: slot_source try_acquire permit_drop
  "\<lambda>s. unat (live s)" "\<lambda>s. unat (max_slots s)"
proof (unfold_locales, goal_cases)
  case (1 s)
  then show ?case by (auto simp: try_acquire_def word_le_nat_alt)
next
  case (2 s)
  then show ?case by (simp add: try_acquire_def word_le_nat_alt)
next
  case (3 s)
  have "unat (live s) + 1 < 2 ^ 32"
    using 3 unsigned_less[of "max_slots s", where 'a = nat] by simp
  then have "unat (live s + 1) = Suc (unat (live s))"
    by (simp add: unat_word_ariths)
  then show ?case using 3 by (simp add: try_acquire_def word_le_nat_alt)
next
  case (4 s)
  then show ?case by (simp add: permit_drop_def unat_saturating_sub)
next
  case (5 s)
  then show ?case by (simp add: permit_drop_def)
qed

subsection \<open>Properties\<close>

text \<open>
  In every run of connects and disconnects on a fresh registry, the counter equals the number
  of sessions running and never exceeds the configured maximum: no slot is leaked, granted twice
  or lost to wrap-around.
\<close>

theorem slot_count_is_exact:
  assumes "slot_run try_acquire permit_drop es [] (slots_new mx) = (running, s)"
  shows "unat (slots_live s) = length running \<and> length running \<le> unat mx"
  using conn_slots.run_counts[OF _ _ assms] by (simp add: slots_new_def slots_live_def)

theorem slot_count_is_exact_witness:
  "unat (slots_live \<lparr>live = 2, max_slots = 2\<rparr>) = length [9, 5::nat] \<and> length [9, 5::nat] \<le> unat (2::u32)"
  by (rule slot_count_is_exact[of "[Connect 5, Connect 7, Connect 8, Finish 7, Connect 9]"])
    code_simp

end
