(* ===== verification/Errors.thy ===== *)
theory Errors
  imports Config_Report
begin

section \<open>The error taxonomy\<close>

text \<open>
  \<open>proxy/error.rs\<close>, \<open>auth/error.rs\<close>, \<open>auth/scram/error.rs\<close>, \<open>backend/error.rs\<close> and the
  provider error of \<open>auth/verifier.rs\<close>. A trait object becomes a datatype with one constructor
  per implementing type of the source: \<open>client_error\<close> for \<open>dyn ClientAwareError\<close>,
  \<open>auth_error\<close> for \<open>dyn AuthError\<close>. The SQLSTATE and the message an error shows to a client
  are functions on it.
\<close>

subsection \<open>Internal errors\<close>

datatype provider_error = Unavailable string

datatype io_kind = UnexpectedEof | BrokenPipe | InvalidDataKind | OtherKind

text \<open>The payloads that the source boxes into an \<open>InternalError\<close>.\<close>

datatype internal_error =
    IoInternal io_kind string
  | Utf8Internal
  | TlsInternal string
  | ProviderInternal provider_error
  | ConfigInternal config_error

subsection \<open>\<open>proxy/error.rs\<close>\<close>

datatype connection_error_inner =
    TooManyRequest | FirstMessageTooBig | AuthTimeout | EmptyMessageBody | InvalidMessageLength
  | MessageTooLarge | TlsRequired | TlsAlreadyDone | InvalidData | GssAlreadyDone | AuthFailed
  | InvalidState | StatementCanceled | InvalidStartupLayout | MissingUser

fun conn_error_code :: "connection_error_inner \<Rightarrow> string" where
  "conn_error_code TooManyRequest = ''53300''"
| "conn_error_code AuthTimeout = ''57014''"
| "conn_error_code StatementCanceled = ''57014''"
| "conn_error_code FirstMessageTooBig = ''08P01''"
| "conn_error_code EmptyMessageBody = ''08P01''"
| "conn_error_code InvalidMessageLength = ''08P01''"
| "conn_error_code MessageTooLarge = ''08P01''"
| "conn_error_code InvalidStartupLayout = ''08P01''"
| "conn_error_code MissingUser = ''28000''"
| "conn_error_code AuthFailed = ''28P01''"
| "conn_error_code TlsRequired = ''08P01''"
| "conn_error_code TlsAlreadyDone = ''08P01''"
| "conn_error_code GssAlreadyDone = ''08P01''"
| "conn_error_code InvalidData = ''08P01''"
| "conn_error_code InvalidState = ''08P01''"

fun conn_error_message :: "connection_error_inner \<Rightarrow> string" where
  "conn_error_message TooManyRequest = ''sorry, too many clients already''"
| "conn_error_message AuthTimeout = ''canceling authentication due to timeout''"
| "conn_error_message StatementCanceled = ''canceling statement due to user request''"
| "conn_error_message FirstMessageTooBig = ''invalid startup packet layout''"
| "conn_error_message InvalidStartupLayout = ''invalid startup packet layout''"
| "conn_error_message EmptyMessageBody = ''empty message body''"
| "conn_error_message InvalidMessageLength = ''invalid message length''"
| "conn_error_message MessageTooLarge = ''message length exceeds the buffer pool capacity''"
| "conn_error_message MissingUser = ''no PostgreSQL user name specified in startup packet''"
| "conn_error_message AuthFailed = ''password authentication failed''"
| "conn_error_message TlsRequired = ''TLS is required but the client did not request it''"
| "conn_error_message TlsAlreadyDone = ''SSLRequest was already answered on this connection''"
| "conn_error_message GssAlreadyDone = ''GSSENCRequest was already answered on this connection''"
| "conn_error_message InvalidData = ''invalid data''"
| "conn_error_message InvalidState = ''invalid session state''"

subsection \<open>\<open>backend/error.rs\<close>\<close>

datatype backend_error_class = Generalised | PassThrough

definition classify_backend_error :: "string \<Rightarrow> backend_error_class" where
  "classify_backend_error sqlstate =
     (if sqlstate = ''3D000'' \<or> sqlstate = ''53300'' \<or> sqlstate = ''57P03''
      then PassThrough else Generalised)"

datatype pg_error =
    PgConnectTimeout | PgTlsTimeout | PgStartupTimeout | PgIo io_kind | PgTls string
  | PgProtocol string | PgAuth string | PgUnsupportedAuth string | PgSaltMismatch
  | PgChannelBindingRequired string | PgBackend string string string

fun generalised_message :: "pg_error \<Rightarrow> string" where
  "generalised_message (PgAuth _) = ''backend authentication failed''"
| "generalised_message PgSaltMismatch = ''backend authentication failed''"
| "generalised_message PgConnectTimeout = ''could not connect to the backend database''"
| "generalised_message PgTlsTimeout = ''could not connect to the backend database''"
| "generalised_message (PgIo _) = ''could not connect to the backend database''"
| "generalised_message (PgTls _) = ''could not connect to the backend database''"
| "generalised_message PgStartupTimeout = ''backend did not finish starting up''"
| "generalised_message (PgProtocol _) = ''backend sent an invalid protocol message''"
| "generalised_message (PgUnsupportedAuth m) = m"
| "generalised_message (PgChannelBindingRequired m) = m"
| "generalised_message (PgBackend _ code _) =
     (if starts_with code ''28'' then ''backend authentication failed''
      else if starts_with code ''08'' then ''could not connect to the backend database''
      else ''backend failed during startup'')"

fun pg_error_code :: "pg_error \<Rightarrow> string" where
  "pg_error_code (PgAuth _) = ''28P01''"
| "pg_error_code (PgUnsupportedAuth _) = ''28P01''"
| "pg_error_code PgSaltMismatch = ''28P01''"
| "pg_error_code (PgChannelBindingRequired _) = ''28P01''"
| "pg_error_code (PgProtocol _) = ''08P01''"
| "pg_error_code (PgBackend _ code _) = code"
| "pg_error_code PgConnectTimeout = ''08006''"
| "pg_error_code PgTlsTimeout = ''08006''"
| "pg_error_code (PgIo _) = ''08006''"
| "pg_error_code (PgTls _) = ''08006''"
| "pg_error_code PgStartupTimeout = ''08006''"

fun pg_error_message :: "pg_error \<Rightarrow> string" where
  "pg_error_message (PgBackend sev code message) =
     (if classify_backend_error code = PassThrough then message
      else generalised_message (PgBackend sev code message))"
| "pg_error_message other = generalised_message other"

subsection \<open>Client-aware errors and \<open>ProxyError\<close>\<close>

datatype client_error =
    ConnErr connection_error_inner
  | ProtocolErr string string
  | PgErr pg_error

fun client_code :: "client_error \<Rightarrow> string" where
  "client_code (ConnErr e) = conn_error_code e"
| "client_code (ProtocolErr code _) = code"
| "client_code (PgErr e) = pg_error_code e"

fun client_message :: "client_error \<Rightarrow> string" where
  "client_message (ConnErr e) = conn_error_message e"
| "client_message (ProtocolErr _ message) = message"
| "client_message (PgErr e) = pg_error_message e"

datatype proxy_error = Internal internal_error | ConnectionError client_error

definition connection_error :: "connection_error_inner \<Rightarrow> proxy_error" where
  "connection_error e = ConnectionError (ConnErr e)"

definition protocol_error :: "string \<Rightarrow> string \<Rightarrow> proxy_error" where
  "protocol_error code message = ConnectionError (ProtocolErr code message)"

definition proxy_error_of_pg :: "pg_error \<Rightarrow> proxy_error" where
  "proxy_error_of_pg e = ConnectionError (PgErr e)"

subsection \<open>\<open>auth/error.rs\<close> and \<open>auth/scram/error.rs\<close>\<close>

datatype scram_error =
    AuthenticationFailed string | ScramProtocol string | ChannelBindingMismatch
  | ChannelBindingDowngrade

fun scram_error_code :: "scram_error \<Rightarrow> string" where
  "scram_error_code (AuthenticationFailed _) = ''28P01''"
| "scram_error_code ChannelBindingMismatch = ''28P01''"
| "scram_error_code (ScramProtocol _) = ''08P01''"
| "scram_error_code ChannelBindingDowngrade = ''08P01''"

fun scram_error_message :: "scram_error \<Rightarrow> string" where
  "scram_error_message (AuthenticationFailed msg) = msg"
| "scram_error_message (ScramProtocol msg) = msg"
| "scram_error_message ChannelBindingMismatch = ''SCRAM channel binding check failed''"
| "scram_error_message ChannelBindingDowngrade =
     ''client supports SCRAM channel binding but thinks the server does not. However, this server does support channel binding.''"

fun provider_error_code :: "provider_error \<Rightarrow> string" where
  "provider_error_code (Unavailable _) = ''08006''"

fun provider_error_message :: "provider_error \<Rightarrow> string" where
  "provider_error_message (Unavailable _) = ''credential store temporarily unavailable''"

datatype auth_error = ScramAuth scram_error | ProviderAuth provider_error

fun auth_error_code :: "auth_error \<Rightarrow> string" where
  "auth_error_code (ScramAuth e) = scram_error_code e"
| "auth_error_code (ProviderAuth e) = provider_error_code e"

fun auth_error_message :: "auth_error \<Rightarrow> string" where
  "auth_error_message (ScramAuth e) = scram_error_message e"
| "auth_error_message (ProviderAuth e) = provider_error_message e"

datatype auth_failure = Rejected auth_error | AuthInternal internal_error

abbreviation rejected_scram :: "scram_error \<Rightarrow> auth_failure" where
  "rejected_scram e \<equiv> Rejected (ScramAuth e)"

fun map_proxy_error_auth_error :: "proxy_error \<Rightarrow> auth_failure" where
  "map_proxy_error_auth_error (Internal e) = AuthInternal e"
| "map_proxy_error_auth_error (ConnectionError e) =
     AuthInternal (IoInternal InvalidDataKind (client_message e))"

subsection \<open>What a client can learn\<close>

lemma classify_pass_through:
  "classify_backend_error c = PassThrough \<longleftrightarrow> c \<in> {''3D000'', ''53300'', ''57P03''}"
  by (simp add: classify_backend_error_def)

lemma conn_error_code_length: "length (conn_error_code e) = 5"
  by (cases e) simp_all

lemma scram_error_code_length: "length (scram_error_code e) = 5"
  by (cases e) simp_all

text \<open>
  The text a backend sends in an error response reaches the client only for the three
  SQLSTATEs that describe the user's own request; for every other SQLSTATE the message shown is
  one of three fixed sentences, the same whatever severity and text the backend chose.
\<close>

theorem backend_detail_is_not_disclosed:
  assumes "code \<notin> {''3D000'', ''53300'', ''57P03''}"
  shows "client_message (PgErr (PgBackend sev code message)) =
           client_message (PgErr (PgBackend sev' code message')) \<and>
         client_message (PgErr (PgBackend sev code message)) \<in>
           {''backend authentication failed'', ''could not connect to the backend database'',
            ''backend failed during startup''}"
  using assms by (auto simp: classify_backend_error_def)

theorem backend_detail_is_not_disclosed_witness:
  "client_message (PgErr (PgBackend ''FATAL'' ''28P01'' ''role alice is locked'')) =
     client_message (PgErr (PgBackend ''ERROR'' ''28P01'' [])) \<and>
   client_message (PgErr (PgBackend ''FATAL'' ''28P01'' ''role alice is locked'')) \<in>
     {''backend authentication failed'', ''could not connect to the backend database'',
      ''backend failed during startup''}"
  by (rule backend_detail_is_not_disclosed) simp

end
