(* ===== verification/Transport.thy ===== *)
theory Transport
  imports Errors
begin

section \<open>The halves of a connection (\<open>proxy/conn_read.rs\<close>, \<open>proxy/conn_write.rs\<close>)\<close>

text \<open>
  \<open>ConnRead\<close> and \<open>ConnWrite\<close> are what a session and a backend link read from and write to: nothing, a TCP half, or a half of a
  TLS stream of either role. Their poll functions pass the call on to the stream of the variant. The streams are
  those of \<open>tokio\<close> and \<open>tokio_rustls\<close>: the types and the poll functions of the parameter records.
\<close>

datatype 'a poll = PollPending | PollReady "io_kind + 'a"

text \<open>\<open>ReadBuf\<close>: what has been filled in, and the room there is in all.\<close>

record read_buf =
  rb_filled :: bytes
  rb_capacity :: nat

datatype ('p, 't, 'c) conn_read = EmptyRead | PlainRead 'p | TlsRead 't | ClientTlsRead 'c

datatype ('p, 't, 'c) conn_write = EmptyWrite | PlainWrite 'p | TlsWrite 't | ClientTlsWrite 'c

type_synonym 's read_fn = "'s \<Rightarrow> read_buf \<Rightarrow> unit poll \<times> 's \<times> read_buf"

record ('p, 't, 'c) readers =
  rd_plain :: "'p read_fn"
  rd_tls :: "'t read_fn"
  rd_client_tls :: "'c read_fn"

record 's writer =
  wr_write :: "'s \<Rightarrow> bytes \<Rightarrow> nat poll \<times> 's"
  wr_flush :: "'s \<Rightarrow> unit poll \<times> 's"
  wr_shutdown :: "'s \<Rightarrow> unit poll \<times> 's"

record ('p, 't, 'c) writers =
  ws_plain :: "'p writer"
  ws_tls :: "'t writer"
  ws_client_tls :: "'c writer"

fun poll_read :: "('p, 't, 'c) readers \<Rightarrow> ('p, 't, 'c) conn_read read_fn" where
  "poll_read R (PlainRead s) b = (case rd_plain R s b of (r, s, b) \<Rightarrow> (r, PlainRead s, b))"
| "poll_read R (TlsRead s) b = (case rd_tls R s b of (r, s, b) \<Rightarrow> (r, TlsRead s, b))"
| "poll_read R (ClientTlsRead s) b = (case rd_client_tls R s b of (r, s, b) \<Rightarrow> (r, ClientTlsRead s, b))"
| "poll_read R EmptyRead b = (PollReady (Inr ()), EmptyRead, b)"

fun poll_write :: "('p, 't, 'c) writers \<Rightarrow> ('p, 't, 'c) conn_write \<Rightarrow> bytes \<Rightarrow> nat poll \<times> ('p, 't, 'c) conn_write" where
  "poll_write W (PlainWrite s) bs = apsnd PlainWrite (wr_write (ws_plain W) s bs)"
| "poll_write W (TlsWrite s) bs = apsnd TlsWrite (wr_write (ws_tls W) s bs)"
| "poll_write W (ClientTlsWrite s) bs = apsnd ClientTlsWrite (wr_write (ws_client_tls W) s bs)"
| "poll_write W EmptyWrite bs = (PollReady (Inr 0), EmptyWrite)"

fun poll_flush :: "('p, 't, 'c) writers \<Rightarrow> ('p, 't, 'c) conn_write \<Rightarrow> unit poll \<times> ('p, 't, 'c) conn_write" where
  "poll_flush W (PlainWrite s) = apsnd PlainWrite (wr_flush (ws_plain W) s)"
| "poll_flush W (TlsWrite s) = apsnd TlsWrite (wr_flush (ws_tls W) s)"
| "poll_flush W (ClientTlsWrite s) = apsnd ClientTlsWrite (wr_flush (ws_client_tls W) s)"
| "poll_flush W EmptyWrite = (PollReady (Inr ()), EmptyWrite)"

fun poll_shutdown :: "('p, 't, 'c) writers \<Rightarrow> ('p, 't, 'c) conn_write \<Rightarrow> unit poll \<times> ('p, 't, 'c) conn_write" where
  "poll_shutdown W (PlainWrite s) = apsnd PlainWrite (wr_shutdown (ws_plain W) s)"
| "poll_shutdown W (TlsWrite s) = apsnd TlsWrite (wr_shutdown (ws_tls W) s)"
| "poll_shutdown W (ClientTlsWrite s) = apsnd ClientTlsWrite (wr_shutdown (ws_client_tls W) s)"
| "poll_shutdown W EmptyWrite = (PollReady (Inr ()), EmptyWrite)"

subsection \<open>The enums keep the contracts of \<open>AsyncRead\<close> and \<open>AsyncWrite\<close>\<close>

text \<open>
  A read appends to what is filled, within the capacity, and if it is not ready or fails it has filled nothing; a write takes at
  most what it was given. An enum whose streams do so does so, and it never changes its variant.
\<close>

definition reads_well :: "'s read_fn \<Rightarrow> bool" where
  "reads_well f \<longleftrightarrow> (\<forall>s b r s' b'. f s b = (r, s', b') \<longrightarrow> rb_capacity b' = rb_capacity b \<and>
     (\<exists>bs. rb_filled b' = rb_filled b @ bs \<and> (length (rb_filled b) \<le> rb_capacity b \<longrightarrow> length (rb_filled b') \<le> rb_capacity b) \<and>
        (r \<noteq> PollReady (Inr ()) \<longrightarrow> bs = [])))"

definition writes_well :: "('s \<Rightarrow> bytes \<Rightarrow> nat poll \<times> 's) \<Rightarrow> bool" where
  "writes_well f \<longleftrightarrow> (\<forall>s bs n s'. f s bs = (PollReady (Inr n), s') \<longrightarrow> n \<le> length bs)"

lemma poll_read_reads_well:
  assumes "reads_well (rd_plain R)" and "reads_well (rd_tls R)" and "reads_well (rd_client_tls R)"
  shows "reads_well (poll_read R)"
proof -
  have "rb_capacity b' = rb_capacity b \<and>
     (\<exists>bs. rb_filled b' = rb_filled b @ bs \<and> (length (rb_filled b) \<le> rb_capacity b \<longrightarrow> length (rb_filled b') \<le> rb_capacity b) \<and>
        (r \<noteq> PollReady (Inr ()) \<longrightarrow> bs = []))" if "poll_read R s b = (r, s', b')" for s b r s' b'
    using that assms by (cases s) (auto simp: reads_well_def split: prod.splits)
  then show ?thesis unfolding reads_well_def by blast
qed

lemma poll_write_writes_well:
  assumes "writes_well (wr_write (ws_plain W))" and "writes_well (wr_write (ws_tls W))" and "writes_well (wr_write (ws_client_tls W))"
  shows "writes_well (poll_write W)"
proof -
  have "n \<le> length bs" if "poll_write W s bs = (PollReady (Inr n), s')" for s bs n s'
    using that assms by (cases s) (auto simp: writes_well_def apsnd_def map_prod_def split: prod.splits, blast+)
  then show ?thesis unfolding writes_well_def by blast
qed

fun read_variant :: "('p, 't, 'c) conn_read \<Rightarrow> nat" where
  "read_variant EmptyRead = 0"
| "read_variant (PlainRead _) = 1"
| "read_variant (TlsRead _) = 2"
| "read_variant (ClientTlsRead _) = 3"

fun write_variant :: "('p, 't, 'c) conn_write \<Rightarrow> nat" where
  "write_variant EmptyWrite = 0"
| "write_variant (PlainWrite _) = 1"
| "write_variant (TlsWrite _) = 2"
| "write_variant (ClientTlsWrite _) = 3"

lemma variant_kept:
  "read_variant (fst (snd (poll_read R s b))) = read_variant s"
  "write_variant (snd (poll_write W w bs)) = write_variant w" "write_variant (snd (poll_flush W w)) = write_variant w"
  "write_variant (snd (poll_shutdown W w)) = write_variant w"
  by (cases s; simp split: prod.splits) (cases w; simp)+

end
