(* ===== verification/Crypto.thy ===== *)
theory Crypto
  imports Rust_Std
begin

section \<open>The cryptographic libraries, as parameters\<close>

text \<open>
  The proxy calls the crates \<open>sha2\<close>, \<open>hmac\<close>, \<open>pbkdf2\<close>, \<open>base64\<close>, \<open>md5\<close>, \<open>stringprep\<close> and
  \<open>x509-parser\<close>; their code is not part of the repository. A \<open>crypto\<close> record holds one function per
  library call, and every definition that calls one takes the record as an argument. What the
  proxy relies on is the predicate \<open>crypto_laws\<close>, which states the documented output lengths and
  the base64 contract (decoding inverts encoding; the output uses the RFC 4648 alphabet). No law
  says anything about collisions or secrecy.
\<close>

record crypto =
  sha256 :: "bytes \<Rightarrow> bytes"
  sha384 :: "bytes \<Rightarrow> bytes"
  sha512 :: "bytes \<Rightarrow> bytes"
  hmac_sha256 :: "bytes \<Rightarrow> bytes \<Rightarrow> bytes"
  pbkdf2_sha256 :: "bytes \<Rightarrow> bytes \<Rightarrow> u32 \<Rightarrow> bytes"
  b64_encode :: "bytes \<Rightarrow> string"
  b64_decode :: "string \<Rightarrow> bytes option"
  b64_decode_nopad :: "string \<Rightarrow> bytes option"
  b64url_encode :: "bytes \<Rightarrow> string"
  md5_hex :: "bytes \<Rightarrow> string"
  saslprep :: "string \<Rightarrow> string option"
  x509_signature_oid :: "bytes \<Rightarrow> string option"

definition is_b64_char :: "char \<Rightarrow> bool" where
  "is_b64_char c \<longleftrightarrow>
     (let n = (of_char c :: nat) in
      65 \<le> n \<and> n \<le> 90 \<or> 97 \<le> n \<and> n \<le> 122 \<or> 48 \<le> n \<and> n \<le> 57 \<or> n = 43 \<or> n = 47 \<or> n = 61)"

definition is_b64url_char :: "char \<Rightarrow> bool" where
  "is_b64url_char c \<longleftrightarrow>
     (let n = (of_char c :: nat) in
      65 \<le> n \<and> n \<le> 90 \<or> 97 \<le> n \<and> n \<le> 122 \<or> 48 \<le> n \<and> n \<le> 57 \<or> n = 45 \<or> n = 95)"

definition crypto_laws :: "crypto \<Rightarrow> bool" where
  "crypto_laws C \<longleftrightarrow>
     (\<forall>m. length (sha256 C m) = 32) \<and> (\<forall>m. length (sha384 C m) = 48) \<and>
     (\<forall>m. length (sha512 C m) = 64) \<and> (\<forall>k m. length (hmac_sha256 C k m) = 32) \<and>
     (\<forall>p s i. length (pbkdf2_sha256 C p s i) = 32) \<and>
     (\<forall>x. b64_decode C (b64_encode C x) = Some x) \<and>
     (\<forall>x. list_all is_b64_char (b64_encode C x)) \<and>
     (\<forall>x. list_all is_b64url_char (b64url_encode C x)) \<and>
     (\<forall>x. x \<noteq> [] \<longrightarrow> b64url_encode C x \<noteq> [])"

lemma crypto_lawsD [simp]:
  assumes "crypto_laws C"
  shows "length (sha256 C m) = 32" "length (sha384 C m) = 48" "length (sha512 C m) = 64"
    "length (hmac_sha256 C k m) = 32" "length (pbkdf2_sha256 C p s i) = 32"
    "b64_decode C (b64_encode C x) = Some x" "list_all is_b64_char (b64_encode C x)"
    "list_all is_b64url_char (b64url_encode C x)" "x \<noteq> [] \<Longrightarrow> b64url_encode C x \<noteq> []"
  using assms by (simp_all add: crypto_laws_def)

lemma b64_free:
  assumes "crypto_laws C" and "\<not> is_b64_char c"
  shows "c \<notin> set (b64_encode C x)"
  using crypto_lawsD(7)[OF assms(1), of x] assms(2) by (auto simp: list_all_iff)

lemma b64_separators [simp]:
  assumes "crypto_laws C"
  shows "CHR '','' \<notin> set (b64_encode C x)" "CHR '':'' \<notin> set (b64_encode C x)"
    "CHR ''$'' \<notin> set (b64_encode C x)" "CHR ''-'' \<notin> set (b64_encode C x)"
    "CHR 0x00 \<notin> set (b64_encode C x)"
  using assms by (simp_all add: b64_free is_b64_char_def)

lemma b64_ascii [simp]: "crypto_laws C \<Longrightarrow> is_ascii (b64_encode C x)"
  using crypto_lawsD(7)[of C x] by (force simp: is_ascii_def list_all_iff is_b64_char_def Let_def)

lemma b64url_separators [simp]:
  assumes "crypto_laws C"
  shows "CHR '','' \<notin> set (b64url_encode C x)" "CHR ''='' \<notin> set (b64url_encode C x)"
    "CHR 0x00 \<notin> set (b64url_encode C x)"
proof -
  have "\<not> is_b64url_char c \<Longrightarrow> c \<notin> set (b64url_encode C x)" for c
    using crypto_lawsD(8)[OF assms, of x] by (auto simp: list_all_iff)
  then show "CHR '','' \<notin> set (b64url_encode C x)" "CHR ''='' \<notin> set (b64url_encode C x)"
    "CHR 0x00 \<notin> set (b64url_encode C x)"
    by (simp_all add: is_b64url_char_def)
qed

lemma b64url_ascii [simp]: "crypto_laws C \<Longrightarrow> is_ascii (b64url_encode C x)"
  using crypto_lawsD(8)[of C x] by (force simp: is_ascii_def list_all_iff is_b64url_char_def Let_def)

lemma b64_encode_inj [simp]: "crypto_laws C \<Longrightarrow> b64_encode C x = b64_encode C y \<longleftrightarrow> x = y"
  by (metis crypto_lawsD(6) option.inject)

subsection \<open>XOR of byte strings\<close>

definition xor_bytes :: "bytes \<Rightarrow> bytes \<Rightarrow> bytes" where
  "xor_bytes xs ys = map2 (\<lambda>a b. xor a b) xs ys"

lemma xor_bytes_length [simp]: "length (xor_bytes xs ys) = min (length xs) (length ys)"
  by (simp add: xor_bytes_def)

lemma xor_bytes_cancel [simp]: "length xs \<le> length ys \<Longrightarrow> xor_bytes (xor_bytes xs ys) ys = xs"
  by (rule nth_equalityI) (auto simp: xor_bytes_def xor.assoc)

subsection \<open>One concrete instance\<close>

text \<open>
  An instance that satisfies the laws, so that the properties stated under them can be evaluated:
  a \<open>hash\<close> that pads or cuts its input, and base16 in the letters \<open>A\<close> to \<open>P\<close> as the text encoding.
\<close>

definition fit :: "nat \<Rightarrow> bytes \<Rightarrow> bytes" where
  "fit n m = take n (m @ replicate n 0)"

definition hex_encode :: "bytes \<Rightarrow> string" where
  "hex_encode bs = concat (map (\<lambda>b. [char_of (65 + unat b div 16), char_of (65 + unat b mod 16)]) bs)"

fun hex_decode :: "string \<Rightarrow> bytes option" where
  "hex_decode [] = Some []"
| "hex_decode [c] = None"
| "hex_decode (c # d # cs) =
     map_option ((#) (of_nat (16 * (of_char c - 65) + (of_char d - 65)))) (hex_decode cs)"

definition toy_crypto :: crypto where
  "toy_crypto = \<lparr>sha256 = fit 32, sha384 = fit 48, sha512 = fit 64,
     hmac_sha256 = (\<lambda>k m. fit 32 (xor_bytes (fit 32 k) (fit 32 (rev m)))),
     pbkdf2_sha256 = (\<lambda>p s i. fit 32 (p @ s)), b64_encode = hex_encode, b64_decode = hex_decode,
     b64_decode_nopad = hex_decode, b64url_encode = hex_encode, md5_hex = hex_encode, saslprep = Some,
     x509_signature_oid = (\<lambda>der. if der = [] then None else Some ''1.2.840.113549.1.1.11'')\<rparr>"

lemma fit_length [simp]: "length (fit n m) = n"
  by (simp add: fit_def)

lemma hex_nibble: "(16 * (of_char (char_of (65 + unat (b :: u8) div 16)) - 65) +
    (of_char (char_of (65 + unat b mod 16)) - 65) :: nat) = unat b"
  using unsigned_less[of b, where 'a = nat] by simp

lemma hex_decode_encode: "hex_decode (hex_encode bs) = Some bs"
proof (induction bs)
  case (Cons b bs)
  then show ?case using hex_nibble[of b] by (simp add: hex_encode_def del: of_char_of)
qed (simp add: hex_encode_def)

lemma hex_alphabet: "list_all is_b64_char (hex_encode bs)"
proof -
  have "is_b64_char (char_of (65 + unat (b :: u8) div 16))" "is_b64_char (char_of (65 + unat b mod 16))" for b
  proof -
    have "unat b div 16 < 16" "unat b mod 16 < 16"
      using unsigned_less[of b, where 'a = nat] by simp_all
    then show "is_b64_char (char_of (65 + unat (b :: u8) div 16))" "is_b64_char (char_of (65 + unat b mod 16))"
      by (simp_all add: is_b64_char_def Let_def, linarith+)
  qed
  then show ?thesis by (auto simp: list_all_iff hex_encode_def)
qed

lemma hex_alphabet_url: "list_all is_b64url_char (hex_encode bs)"
proof -
  have "is_b64url_char (char_of (65 + unat (b :: u8) div 16))" "is_b64url_char (char_of (65 + unat b mod 16))" for b
  proof -
    have "unat b div 16 < 16" "unat b mod 16 < 16"
      using unsigned_less[of b, where 'a = nat] by simp_all
    then show "is_b64url_char (char_of (65 + unat (b :: u8) div 16))" "is_b64url_char (char_of (65 + unat b mod 16))"
      by (simp_all add: is_b64url_char_def Let_def, linarith+)
  qed
  then show ?thesis by (auto simp: list_all_iff hex_encode_def)
qed

lemma hex_encode_Nil: "hex_encode bs = [] \<longleftrightarrow> bs = []"
  by (cases bs) (simp_all add: hex_encode_def)

lemma toy_crypto_laws: "crypto_laws toy_crypto"
  by (simp add: crypto_laws_def toy_crypto_def hex_decode_encode hex_alphabet hex_alphabet_url hex_encode_Nil)

end
