(* ===== verification/Verifier.thy ===== *)
theory Verifier
  imports Crypto Errors
begin

section \<open>Verifiers (\<open>auth/verifier.rs\<close>)\<close>

text \<open>
  A verifier is what the proxy knows of a user's password: the salt, the iteration count, StoredKey
  and ServerKey, and the password itself when the entry held one. It is derived from a password,
  parsed from PostgreSQL's \<open>SCRAM-SHA-256$iter:salt$stored:server\<close> text, or made up for a user that
  does not exist (the dummy). Zeroing memory on drop is not visible in the model.
\<close>

datatype secret_format_error =
    UnsupportedScheme | Md5 | Syntax | Iterations | IterationsTooLow | Base64 string
  | KeyLength string | SaltTooShort

fun secret_format_display :: "secret_format_error \<Rightarrow> string" where
  "secret_format_display UnsupportedScheme = ''unrecognised secret scheme: expected `SCRAM-SHA-256$...`''"
| "secret_format_display Md5 =
     ''MD5 secrets are not supported; re-hash the role with `password_encryption = scram-sha-256`''"
| "secret_format_display Syntax =
     ''this secret is malformed (expected `SCRAM-SHA-256$iter:salt$stored:server`)''"
| "secret_format_display Iterations = ''invalid iteration count''"
| "secret_format_display IterationsTooLow = ''iteration must be at least 4096''"
| "secret_format_display (Base64 field) = ''invalid base64 in '' @ field"
| "secret_format_display (KeyLength field) = field @ '' must be exactly 32 bytes''"
| "secret_format_display SaltTooShort = ''salt must be at least 8 bytes''"

record verifier =
  v_iterations :: u32
  v_salt :: bytes
  v_stored_key :: bytes
  v_server_key :: bytes
  v_password :: "bytes option"
  v_dummy :: bool

definition MIN_ITERATIONS :: u32 where
  "MIN_ITERATIONS = 4096"

definition from_password :: "crypto \<Rightarrow> bytes \<Rightarrow> bytes \<Rightarrow> u32 \<Rightarrow> verifier" where
  "from_password C password salt iterations =
     (let salted = pbkdf2_sha256 C password salt iterations;
          client_key = hmac_sha256 C salted (as_bytes ''Client Key'');
          server_key = hmac_sha256 C salted (as_bytes ''Server Key'')
      in \<lparr>v_iterations = iterations, v_salt = salt, v_stored_key = sha256 C client_key,
          v_server_key = server_key, v_password = Some password, v_dummy = False\<rparr>)"

definition dummy_verifier :: "crypto \<Rightarrow> string \<Rightarrow> bytes \<Rightarrow> verifier" where
  "dummy_verifier C username cluster_nonce =
     \<lparr>v_iterations = 4096, v_salt = take 16 (sha256 C (as_bytes username @ cluster_nonce)),
      v_stored_key = replicate 32 0, v_server_key = replicate 32 0, v_password = None,
      v_dummy = True\<rparr>"

definition decode_b64 :: "crypto \<Rightarrow> string \<Rightarrow> bytes option" where
  "decode_b64 C input =
     (case b64_decode C input of Some bs \<Rightarrow> Some bs | None \<Rightarrow> b64_decode_nopad C input)"

definition decode_key :: "crypto \<Rightarrow> string \<Rightarrow> string \<Rightarrow> secret_format_error + bytes" where
  "decode_key C b64 field =
     (case decode_b64 C b64 of
        None \<Rightarrow> Inl (Base64 field)
      | Some bs \<Rightarrow> if length bs = 32 then Inr bs else Inl (KeyLength field))"

definition from_pg_secret :: "crypto \<Rightarrow> string \<Rightarrow> secret_format_error + verifier" where
  "from_pg_secret C secret =
     (if starts_with secret ''md5'' then Inl Md5
      else and_then (ok_or (strip_prefix ''SCRAM-SHA-256$'' secret) UnsupportedScheme) (\<lambda>rest.
        and_then (ok_or (split_once (CHR ''$'') rest) Syntax) (\<lambda>(iters_and_salt, keys).
        and_then (ok_or (split_once (CHR '':'') iters_and_salt) Syntax) (\<lambda>(iterations, salt).
        and_then (ok_or (split_once (CHR '':'') keys) Syntax) (\<lambda>(stored_key, server_key).
        and_then (ok_or (parse_u32 iterations) Iterations) (\<lambda>iterations.
          if iterations < MIN_ITERATIONS then Inl IterationsTooLow
          else and_then (ok_or (decode_b64 C salt) (Base64 ''salt'')) (\<lambda>salt.
            and_then (decode_key C stored_key ''StoredKey'') (\<lambda>stored_key.
            and_then (decode_key C server_key ''ServerKey'') (\<lambda>server_key.
              if length salt < 8 then Inl SaltTooShort
              else Inr \<lparr>v_iterations = iterations, v_salt = salt, v_stored_key = stored_key,
                v_server_key = server_key, v_password = None, v_dummy = False\<rparr>)))))))))"

definition to_pg_secret :: "crypto \<Rightarrow> verifier \<Rightarrow> string" where
  "to_pg_secret C v =
     ''SCRAM-SHA-256$'' @ show_u32 (v_iterations v) @ '':'' @ b64_encode C (v_salt v) @ ''$'' @
     b64_encode C (v_stored_key v) @ '':'' @ b64_encode C (v_server_key v)"

subsection \<open>Lemmas\<close>

definition verifier_ok :: "verifier \<Rightarrow> bool" where
  "verifier_ok v \<longleftrightarrow> MIN_ITERATIONS \<le> v_iterations v \<and> 8 \<le> length (v_salt v) \<and>
     length (v_stored_key v) = 32 \<and> length (v_server_key v) = 32"

lemma decode_key_Inr: "decode_key C s f = Inr k \<longleftrightarrow> decode_b64 C s = Some k \<and> length k = 32"
  by (auto simp: decode_key_def split: option.splits if_splits)

lemmas secret_Inr = sum_Inr decode_key_Inr

lemma decode_b64_encode [simp]: "crypto_laws C \<Longrightarrow> decode_b64 C (b64_encode C x) = Some x"
  by (simp add: decode_b64_def)

lemma from_pg_secret_ok:
  "from_pg_secret C s = Inr v \<Longrightarrow> verifier_ok v \<and> v_password v = None \<and> \<not> v_dummy v"
  by (auto simp: from_pg_secret_def secret_Inr verifier_ok_def not_less split: if_splits prod.splits)

lemma from_password_keys:
  assumes "crypto_laws C"
  shows "length (v_stored_key (from_password C p s i)) = 32"
    "length (v_server_key (from_password C p s i)) = 32"
    "v_salt (from_password C p s i) = s" "v_iterations (from_password C p s i) = i"
    "v_password (from_password C p s i) = Some p" "\<not> v_dummy (from_password C p s i)"
  using assms by (simp_all add: from_password_def Let_def)

lemma dummy_verifier_shape:
  "crypto_laws C \<Longrightarrow> verifier_ok (dummy_verifier C u n) \<and> v_dummy (dummy_verifier C u n) \<and>
     length (v_salt (dummy_verifier C u n)) = 16"
  by (simp add: verifier_ok_def dummy_verifier_def MIN_ITERATIONS_def)

lemma split_once_dollar:
  "split_once (CHR ''$'') (a @ CHR ''$'' # b) = Some (a, b) \<longleftrightarrow> CHR ''$'' \<notin> set a"
  by (simp add: split_once_Some)

lemma from_pg_secret_to_pg_secret:
  assumes "crypto_laws C" and "verifier_ok v"
  shows "from_pg_secret C (to_pg_secret C v) = Inr (v\<lparr>v_password := None, v_dummy := False\<rparr>)"
proof -
  let ?iters = "show_u32 (v_iterations v) @ CHR '':'' # b64_encode C (v_salt v)"
  let ?keys = "b64_encode C (v_stored_key v) @ CHR '':'' # b64_encode C (v_server_key v)"
  have s: "to_pg_secret C v = ''SCRAM-SHA-256$'' @ (?iters @ CHR ''$'' # ?keys)"
    by (simp add: to_pg_secret_def)
  have "\<not> starts_with (to_pg_secret C v) ''md5''"
    by (simp add: s starts_with_def)
  moreover have "strip_prefix ''SCRAM-SHA-256$'' (to_pg_secret C v) = Some (?iters @ CHR ''$'' # ?keys)"
    by (simp only: s strip_prefix_append)
  moreover have "split_once (CHR ''$'') (?iters @ CHR ''$'' # ?keys) = Some (?iters, ?keys)"
    by (rule split_once_append) (simp add: assms(1))
  moreover have "split_once (CHR '':'') ?iters = Some (show_u32 (v_iterations v), b64_encode C (v_salt v))"
    by (rule split_once_append) simp
  moreover have "split_once (CHR '':'') ?keys = Some (b64_encode C (v_stored_key v), b64_encode C (v_server_key v))"
    by (rule split_once_append) (simp add: assms(1))
  ultimately show ?thesis
    using assms by (simp add: from_pg_secret_def decode_key_def verifier_ok_def not_less del: append_Cons append_assoc)
qed

lemma from_password_ok:
  "crypto_laws C \<Longrightarrow> MIN_ITERATIONS \<le> i \<Longrightarrow> 8 \<le> length s \<Longrightarrow> verifier_ok (from_password C p s i)"
  by (simp add: verifier_ok_def from_password_keys)

subsection \<open>Properties\<close>

text \<open>
  A verifier derived from a password survives being written as a PostgreSQL secret and parsed
  back: same salt, iterations and keys, without the password; and whatever text the parser
  accepts gives a verifier with at least 4096 iterations, a salt of 8 bytes or more and two keys of
  32 bytes, which is never a dummy.
\<close>

theorem secret_round_trip:
  assumes "crypto_laws C" and "MIN_ITERATIONS \<le> iterations" and "8 \<le> length salt"
  shows "from_pg_secret C (to_pg_secret C (from_password C password salt iterations)) =
           Inr ((from_password C password salt iterations)\<lparr>v_password := None\<rparr>) \<and>
         (\<forall>s v. from_pg_secret C s = Inr v \<longrightarrow> verifier_ok v \<and> v_password v = None \<and> \<not> v_dummy v)"
proof -
  have "(from_password C password salt iterations)\<lparr>v_password := None, v_dummy := False\<rparr> =
      (from_password C password salt iterations)\<lparr>v_password := None\<rparr>"
    by (simp add: from_password_def Let_def)
  then show ?thesis
    using from_pg_secret_to_pg_secret[OF assms(1) from_password_ok[OF assms]] from_pg_secret_ok
    by metis
qed

theorem secret_round_trip_witness:
  "from_pg_secret toy_crypto (to_pg_secret toy_crypto (from_password toy_crypto [112, 119] (replicate 16 7) 4096)) =
     Inr ((from_password toy_crypto [112, 119] (replicate 16 7) 4096)\<lparr>v_password := None\<rparr>)"
  using secret_round_trip[OF toy_crypto_laws, of 4096 "replicate 16 7" "[112, 119]"]
  by (simp add: MIN_ITERATIONS_def)

end
