(* ===== verification/Credential_File.thy ===== *)
theory Credential_File
  imports Verifier Config_Report "HOL-Library.AList"
begin

section \<open>User lists (\<open>auth/credentials/file.rs\<close>, \<open>secret.rs\<close>)\<close>

text \<open>
  A user list becomes a snapshot, the immutable map from names to verifiers, or a report of everything that
  is wrong with it. \<open>serde_yaml\<close> is a library: the parameter \<open>parse\<close> is its reading of the document,
  \<open>None\<close> where it fails. \<open>salts\<close> is the stream of the random salts and the state of the loader says how
  many were drawn. The \<open>HashMap\<close> of users is an association list with distinct keys.
\<close>

definition prepare_password :: "crypto \<Rightarrow> string \<Rightarrow> string" where
  "prepare_password C password = (case saslprep C password of Some prepared \<Rightarrow> prepared | None \<Rightarrow> password)"

definition derive_verifier :: "crypto \<Rightarrow> string \<Rightarrow> bytes \<Rightarrow> u32 \<Rightarrow> verifier" where
  "derive_verifier C password salt iterations =
     from_password C (as_bytes (prepare_password C password)) salt iterations"

definition DEFAULT_ITERATIONS :: u32 where
  "DEFAULT_ITERATIONS = 4096"

record snapshot =
  sn_generation :: u64
  sn_users :: "(string \<times> verifier) list"

definition snapshot_get :: "snapshot \<Rightarrow> string \<Rightarrow> verifier option" where
  "snapshot_get s username = map_of (sn_users s) username"

definition snapshot_empty :: "u64 \<Rightarrow> snapshot" where
  "snapshot_empty generation = \<lparr>sn_generation = generation, sn_users = []\<rparr>"

definition snapshot_len :: "snapshot \<Rightarrow> nat" where
  "snapshot_len s = length (sn_users s)"

definition snapshot_is_empty :: "snapshot \<Rightarrow> bool" where
  "snapshot_is_empty s = (sn_users s = [])"

record raw_user =
  ru_name :: string
  ru_password :: "string option"
  ru_scram_secret :: "string option"

fun secret_reason :: "secret_format_error \<Rightarrow> string \<times> string" where
  "secret_reason Md5 = (''scram_secret'', ''MD5 secrets are not supported; re-hash the role with scram-sha-256'')"
| "secret_reason UnsupportedScheme = (''scram_secret'', ''expected a SCRAM-SHA-256 secret'')"
| "secret_reason Syntax = (''scram_secret'', ''malformed secret'')"
| "secret_reason Iterations = (''scram_secret'', ''invalid iteration count'')"
| "secret_reason IterationsTooLow = (''scram_secret'', ''iteration count must be at least 4096'')"
| "secret_reason (Base64 _) = (''scram_secret'', ''invalid base64'')"
| "secret_reason (KeyLength _) = (''scram_secret'', ''each key must be exactly 32 bytes'')"
| "secret_reason SaltTooShort = (''scram_secret'', ''salt must be at least 8 bytes'')"

record loader =
  lo_errors :: error_bag
  lo_users :: "(string \<times> verifier) list"
  lo_seen :: "string set"
  lo_salts :: nat

definition push :: "string option \<Rightarrow> string \<Rightarrow> string \<Rightarrow> loader \<Rightarrow> loader" where
  "push user field reason l = l\<lparr>lo_errors := bag_push user field reason (lo_errors l)\<rparr>"

definition put_user :: "string \<Rightarrow> verifier \<Rightarrow> loader \<Rightarrow> loader" where
  "put_user user v l = l\<lparr>lo_users := AList.update user v (lo_users l)\<rparr>"

definition check_name :: "raw_user \<Rightarrow> loader \<Rightarrow> bool \<times> loader" where
  "check_name u l =
     (let name = ru_name u;
          l1 = (if name = [] then push None ''name'' ''must not be empty'' l else l);
          l2 = (if CHR 0x00 \<in> set name then push (Some name) ''name'' ''must not contain NUL'' l1 else l1);
          duplicate = name \<in> lo_seen l2;
          l3 = l2\<lparr>lo_seen := insert name (lo_seen l2)\<rparr>;
          l4 = (if duplicate then push (Some name) ''name'' ''duplicate user name'' l3 else l3)
      in (name \<noteq> [] \<and> CHR 0x00 \<notin> set name \<and> \<not> duplicate, l4))"

definition load_user :: "crypto \<Rightarrow> (nat \<Rightarrow> bytes) \<Rightarrow> raw_user \<Rightarrow> loader \<Rightarrow> loader" where
  "load_user C salts u l =
     (case check_name u l of (name_ok, l) \<Rightarrow>
       (case (ru_password u, ru_scram_secret u) of
          (Some password, None) \<Rightarrow>
            if password = [] then push (Some (ru_name u)) ''password'' ''must not be empty'' l
            else if name_ok then
              put_user (ru_name u) (derive_verifier C password (salts (lo_salts l)) DEFAULT_ITERATIONS)
                (l\<lparr>lo_salts := Suc (lo_salts l)\<rparr>)
            else l
        | (None, Some secret) \<Rightarrow>
            (case from_pg_secret C secret of
               Inr v \<Rightarrow> if name_ok then put_user (ru_name u) v l else l
             | Inl e \<Rightarrow> (case secret_reason e of (field, reason) \<Rightarrow> push (Some (ru_name u)) field reason l))
        | _ \<Rightarrow> push (Some (ru_name u)) ''password'' ''exactly one of `password` or `scram_secret` is required'' l))"

definition snapshot_from_yaml :: "crypto \<Rightarrow> (string \<Rightarrow> raw_user list option) \<Rightarrow> (nat \<Rightarrow> bytes) \<Rightarrow> string \<Rightarrow> nat \<Rightarrow>
    (config_error + snapshot) \<times> nat" where
  "snapshot_from_yaml C parse salts document drawn =
     (case parse document of
        None \<Rightarrow> (Inl (config_error_single ''file'' ''invalid YAML user list''), drawn)
      | Some users \<Rightarrow>
          (let start = \<lparr>lo_errors = [], lo_users = [], lo_seen = {}, lo_salts = drawn\<rparr>;
               start = (if users = [] then push None ''users'' ''at least one user is required'' start else start);
               l = fold (load_user C salts) users start
           in (and_then (bag_into_result (lo_errors l)) (\<lambda>_. Inr \<lparr>sn_generation = 0, sn_users = lo_users l\<rparr>), lo_salts l)))"

subsection \<open>Everything that is wrong with a list\<close>

definition name_problems :: "bool \<Rightarrow> string \<Rightarrow> entry_error list" where
  "name_problems duplicate name =
     (if name = [] then [\<lparr>ee_user = None, ee_field = ''name'', ee_reason = ''must not be empty''\<rparr>] else [])
     @ (if CHR 0x00 \<in> set name then [\<lparr>ee_user = Some name, ee_field = ''name'', ee_reason = ''must not contain NUL''\<rparr>] else [])
     @ (if duplicate then [\<lparr>ee_user = Some name, ee_field = ''name'', ee_reason = ''duplicate user name''\<rparr>] else [])"

definition secret_problems :: "crypto \<Rightarrow> raw_user \<Rightarrow> entry_error list" where
  "secret_problems C u =
     (case (ru_password u, ru_scram_secret u) of
        (Some password, None) \<Rightarrow>
          if password = [] then [\<lparr>ee_user = Some (ru_name u), ee_field = ''password'', ee_reason = ''must not be empty''\<rparr>] else []
      | (None, Some secret) \<Rightarrow>
          (case from_pg_secret C secret of
             Inr v \<Rightarrow> []
           | Inl e \<Rightarrow> [\<lparr>ee_user = Some (ru_name u), ee_field = ''scram_secret'', ee_reason = snd (secret_reason e)\<rparr>])
      | _ \<Rightarrow> [\<lparr>ee_user = Some (ru_name u), ee_field = ''password'',
               ee_reason = ''exactly one of `password` or `scram_secret` is required''\<rparr>])"

fun list_problems :: "crypto \<Rightarrow> string set \<Rightarrow> raw_user list \<Rightarrow> entry_error list" where
  "list_problems C seen [] = []"
| "list_problems C seen (u # us) =
     name_problems (ru_name u \<in> seen) (ru_name u) @ secret_problems C u @ list_problems C (insert (ru_name u) seen) us"

lemma fst_secret_reason [simp]: "fst (secret_reason e) = ''scram_secret''"
  by (cases e) simp_all

lemma check_name_result:
  "check_name u l = (name_problems (ru_name u \<in> lo_seen l) (ru_name u) = [],
     l\<lparr>lo_errors := lo_errors l @ name_problems (ru_name u \<in> lo_seen l) (ru_name u), lo_seen := insert (ru_name u) (lo_seen l)\<rparr>)"
  by (simp add: check_name_def Let_def push_def bag_push_def name_problems_def)

lemma load_user_errors:
  "lo_errors (load_user C salts u l) = lo_errors l @ name_problems (ru_name u \<in> lo_seen l) (ru_name u) @ secret_problems C u"
  "lo_seen (load_user C salts u l) = insert (ru_name u) (lo_seen l)"
  by (auto simp: load_user_def check_name_result secret_problems_def push_def put_user_def bag_push_def
      split: option.split sum.split prod.split dest: arg_cong[of _ _ fst])

lemma load_errors:
  "lo_errors (fold (load_user C salts) users l) = lo_errors l @ list_problems C (lo_seen l) users"
  by (induction users arbitrary: l) (simp_all add: load_user_errors)

subsection \<open>What an accepted list gives\<close>

text \<open>The verifier an entry stands for.\<close>

definition entry_gives :: "crypto \<Rightarrow> (nat \<Rightarrow> bytes) \<Rightarrow> raw_user \<Rightarrow> verifier \<Rightarrow> bool" where
  "entry_gives C salts u v =
     (case (ru_password u, ru_scram_secret u) of
        (Some password, None) \<Rightarrow> password \<noteq> [] \<and> (\<exists>i. v = derive_verifier C password (salts i) DEFAULT_ITERATIONS)
      | (None, Some secret) \<Rightarrow> from_pg_secret C secret = Inr v
      | _ \<Rightarrow> False)"

definition good_name :: "string \<Rightarrow> bool" where
  "good_name name \<longleftrightarrow> name \<noteq> [] \<and> CHR 0x00 \<notin> set name"

lemma name_problems_Nil: "name_problems duplicate name = [] \<longleftrightarrow> good_name name \<and> \<not> duplicate"
  by (auto simp: name_problems_def good_name_def)

lemma secret_problems_Nil: "secret_problems C u = [] \<longleftrightarrow> (\<exists>v. entry_gives C salts u v)"
  by (auto simp: secret_problems_def entry_gives_def split: option.splits sum.splits)

lemma list_problems_Nil:
  "list_problems C seen users = [] \<longleftrightarrow> distinct (map ru_name users) \<and> ru_name ` set users \<inter> seen = {} \<and>
     (\<forall>u \<in> set users. good_name (ru_name u) \<and> (\<exists>v. entry_gives C salts u v))"
  by (induction users arbitrary: seen) (auto simp: name_problems_Nil secret_problems_Nil[of _ _ salts])

lemma load_user_good:
  assumes "name_problems (ru_name u \<in> lo_seen l) (ru_name u) = []" and "secret_problems C u = []"
  shows "\<exists>v n. load_user C salts u l =
      put_user (ru_name u) v (l\<lparr>lo_seen := insert (ru_name u) (lo_seen l), lo_salts := n\<rparr>) \<and> entry_gives C salts u v"
proof -
  have name: "check_name u l = (True, l\<lparr>lo_seen := insert (ru_name u) (lo_seen l)\<rparr>)"
    using assms(1) by (simp add: check_name_result)
  consider password where "ru_password u = Some password" "ru_scram_secret u = None" "password \<noteq> []"
    | secret v where "ru_password u = None" "ru_scram_secret u = Some secret" "from_pg_secret C secret = Inr v"
    using assms(2) by (auto simp: secret_problems_def split: option.splits sum.splits if_splits)
  then show ?thesis
  proof cases
    case 1
    then show ?thesis
      using name
      by (intro exI[of _ "derive_verifier C password (salts (lo_salts l)) DEFAULT_ITERATIONS"] exI[of _ "Suc (lo_salts l)"])
         (auto simp: load_user_def entry_gives_def)
  next
    case 2
    then show ?thesis
      using name by (intro exI[of _ v] exI[of _ "lo_salts l"]) (auto simp: load_user_def entry_gives_def put_user_def)
  qed
qed

lemma load_good:
  assumes "list_problems C (lo_seen l) users = []" and "l' = fold (load_user C salts) users l"
  shows "(\<forall>u \<in> set users. \<exists>v. map_of (lo_users l') (ru_name u) = Some v \<and> entry_gives C salts u v) \<and>
    (\<forall>n. n \<notin> ru_name ` set users \<longrightarrow> map_of (lo_users l') n = map_of (lo_users l) n)"
  using assms
proof (induction users arbitrary: l)
  case (Cons u users)
  let ?l1 = "load_user C salts u l"
  obtain v n where l1: "?l1 = put_user (ru_name u) v (l\<lparr>lo_seen := insert (ru_name u) (lo_seen l), lo_salts := n\<rparr>)"
      "entry_gives C salts u v"
    using load_user_good[of u l C salts] Cons.prems(1) by auto
  have "list_problems C (lo_seen ?l1) users = []" using Cons.prems(1) by (simp add: load_user_errors)
  note IH = Cons.IH[OF this] and fresh = this[unfolded list_problems_Nil[where salts = salts]]
  have "ru_name u \<notin> ru_name ` set users" using fresh by (auto simp: load_user_errors)
  then have "map_of (lo_users l') (ru_name u) = Some v"
    using IH Cons.prems(2) l1(1) by (simp add: put_user_def update_conv')
  then show ?case using IH Cons.prems(2) l1 by (auto simp: put_user_def update_conv')
qed simp

lemma snapshot_from_yaml_Inl:
  assumes "snapshot_from_yaml C parse salts document drawn = (Inl e, drawn')" and "parse document = Some users"
  shows "entries e = (if users = [] then [\<lparr>ee_user = None, ee_field = ''users'', ee_reason = ''at least one user is required''\<rparr>] else [])
    @ list_problems C {} users"
  using assms
  by (auto simp: snapshot_from_yaml_def Let_def load_errors push_def bag_push_def bag_into_result_def bag_is_empty_def split: if_splits)

lemma snapshot_from_yaml_Inr:
  assumes "snapshot_from_yaml C parse salts document drawn = (Inr snap, drawn')"
  obtains users where "parse document = Some users" "users \<noteq> []" "list_problems C {} users = []" "sn_generation snap = 0"
    "\<forall>u \<in> set users. \<exists>v. snapshot_get snap (ru_name u) = Some v \<and> entry_gives C salts u v"
    "\<forall>n. n \<notin> ru_name ` set users \<longrightarrow> snapshot_get snap n = None"
proof -
  obtain users where p: "parse document = Some users" using assms by (auto simp: snapshot_from_yaml_def split: option.splits)
  let ?l = "\<lparr>lo_errors = [], lo_users = [], lo_seen = {}, lo_salts = drawn\<rparr>"
  have *: "users \<noteq> []" "list_problems C {} users = []" "snap = \<lparr>sn_generation = 0, sn_users = lo_users (fold (load_user C salts) users ?l)\<rparr>"
    using assms p by (auto simp: snapshot_from_yaml_def Let_def load_errors push_def sum_Inr split: if_splits)
  show ?thesis
    using load_good[of C ?l users _ salts] * by (intro that[OF p *(1,2)]) (simp_all add: snapshot_get_def)
qed

lemma snapshot_from_yaml_outcome:
  assumes "parse document = Some users"
  shows "(\<exists>snap n. snapshot_from_yaml C parse salts document drawn = (Inr snap, n)) \<longleftrightarrow> users \<noteq> [] \<and> list_problems C {} users = []"
  using assms
  by (auto simp: snapshot_from_yaml_def Let_def load_errors push_def bag_push_def bag_into_result_def bag_is_empty_def)

text \<open>
  C24. A user list is accepted exactly when it is not empty, its names are distinct, not empty and free of
  NUL, and every entry has either a password or a well-formed secret. The snapshot then knows
  exactly these names, each with the verifier of its own entry. A refused list is reported with every
  problem of every entry, in the order of the list.
\<close>

theorem user_list_loads_iff_valid:
  assumes "parse document = Some users"
  shows "((\<exists>snap n. snapshot_from_yaml C parse salts document drawn = (Inr snap, n)) \<longleftrightarrow>
      users \<noteq> [] \<and> distinct (map ru_name users) \<and> (\<forall>u \<in> set users. good_name (ru_name u) \<and> (\<exists>v. entry_gives C salts u v))) \<and>
    (\<forall>snap n. snapshot_from_yaml C parse salts document drawn = (Inr snap, n) \<longrightarrow>
      (\<forall>u \<in> set users. \<exists>v. snapshot_get snap (ru_name u) = Some v \<and> entry_gives C salts u v) \<and>
      (\<forall>name. name \<notin> ru_name ` set users \<longrightarrow> snapshot_get snap name = None)) \<and>
    (\<forall>e n. snapshot_from_yaml C parse salts document drawn = (Inl e, n) \<longrightarrow>
      entries e = (if users = [] then [\<lparr>ee_user = None, ee_field = ''users'', ee_reason = ''at least one user is required''\<rparr>] else [])
        @ list_problems C {} users)"
proof (intro conjI allI impI)
  show "(\<exists>snap n. snapshot_from_yaml C parse salts document drawn = (Inr snap, n)) \<longleftrightarrow>
      users \<noteq> [] \<and> distinct (map ru_name users) \<and> (\<forall>u \<in> set users. good_name (ru_name u) \<and> (\<exists>v. entry_gives C salts u v))"
    unfolding snapshot_from_yaml_outcome[where parse = parse and document = document, OF assms] list_problems_Nil[where salts = salts] by simp
next
  fix e n
  assume "snapshot_from_yaml C parse salts document drawn = (Inl e, n)"
  then show "entries e = (if users = [] then [\<lparr>ee_user = None, ee_field = ''users'', ee_reason = ''at least one user is required''\<rparr>] else [])
        @ list_problems C {} users" by (rule snapshot_from_yaml_Inl[where parse = parse and document = document, OF _ assms])
qed (use assms in \<open>auto elim!: snapshot_from_yaml_Inr\<close>)

definition fixed_reports :: "(string \<times> string) list" where
  "fixed_reports =
     [(''file'', ''invalid YAML user list''), (''users'', ''at least one user is required''), (''name'', ''must not be empty''),
      (''name'', ''must not contain NUL''), (''name'', ''duplicate user name''), (''password'', ''must not be empty''),
      (''password'', ''exactly one of `password` or `scram_secret` is required'')]
     @ map secret_reason [Md5, UnsupportedScheme, Syntax, Iterations, IterationsTooLow, Base64 [], KeyLength [], SaltTooShort]"

lemma secret_reason_fixed: "secret_reason e \<in> set fixed_reports"
  by (cases e) (simp_all add: fixed_reports_def)

definition discloses_nothing :: "string set \<Rightarrow> entry_error \<Rightarrow> bool" where
  "discloses_nothing names x \<longleftrightarrow> (ee_field x, ee_reason x) \<in> set fixed_reports \<and> ee_user x \<in> insert None (Some ` names)"

lemma fixed_reports_members:
  "(''name'', ''must not be empty'') \<in> set fixed_reports" "(''name'', ''must not contain NUL'') \<in> set fixed_reports"
  "(''name'', ''duplicate user name'') \<in> set fixed_reports" "(''password'', ''must not be empty'') \<in> set fixed_reports"
  "(''password'', ''exactly one of `password` or `scram_secret` is required'') \<in> set fixed_reports"
  "(''users'', ''at least one user is required'') \<in> set fixed_reports" "(''file'', ''invalid YAML user list'') \<in> set fixed_reports"
  by (simp_all add: fixed_reports_def)

lemma secret_reason_pair: "(''scram_secret'', snd (secret_reason e)) \<in> set fixed_reports"
proof -
  have "(fst (secret_reason e), snd (secret_reason e)) \<in> set fixed_reports"
    unfolding prod.collapse by (rule secret_reason_fixed)
  then show ?thesis unfolding fst_secret_reason .
qed

lemma name_problems_fixed: "x \<in> set (name_problems d name) \<Longrightarrow> discloses_nothing {name} x"
  unfolding name_problems_def discloses_nothing_def
  using fixed_reports_members(1-3) by (auto split: if_split_asm)

lemma secret_problems_fixed: "x \<in> set (secret_problems C u) \<Longrightarrow> discloses_nothing {ru_name u} x"
  unfolding secret_problems_def discloses_nothing_def
  using fixed_reports_members(4,5) secret_reason_pair by (auto split: option.split_asm sum.split_asm if_split_asm)

lemma discloses_nothing_mono: "discloses_nothing N x \<Longrightarrow> N \<subseteq> M \<Longrightarrow> discloses_nothing M x"
  by (auto simp: discloses_nothing_def)

lemma list_problems_fixed: "x \<in> set (list_problems C seen users) \<Longrightarrow> discloses_nothing (ru_name ` set users) x"
proof (induction users arbitrary: seen)
  case (Cons u users)
  then consider "x \<in> set (name_problems (ru_name u \<in> seen) (ru_name u))" | "x \<in> set (secret_problems C u)"
    | "x \<in> set (list_problems C (insert (ru_name u) seen) users)" by auto
  then have "discloses_nothing {ru_name u} x \<or> discloses_nothing (ru_name ` set users) x"
    by cases (simp_all add: name_problems_fixed secret_problems_fixed Cons.IH)
  then show ?case
    by (elim disjE) (erule discloses_nothing_mono, simp add: subset_insertI)+
qed simp

text \<open>
  C25. A report about a user list discloses no password and no secret: besides the names of the list it consists of
  texts out of a fixed list.
\<close>

theorem user_list_report_discloses_nothing:
  assumes "snapshot_from_yaml C parse salts document drawn = (Inl e, n)" and "x \<in> set (entries e)"
  shows "(ee_field x, ee_reason x) \<in> set fixed_reports \<and>
    ee_user x \<in> insert None (Some ` ru_name ` set (case parse document of Some users \<Rightarrow> users | None \<Rightarrow> []))"
proof (cases "parse document")
  case None
  then have "e = config_error_single ''file'' ''invalid YAML user list''" using assms(1) by (simp add: snapshot_from_yaml_def)
  then show ?thesis using assms(2) by (simp add: config_error_single_def fixed_reports_members)
next
  case (Some users)
  then consider "x = \<lparr>ee_user = None, ee_field = ''users'', ee_reason = ''at least one user is required''\<rparr>"
    | "x \<in> set (list_problems C {} users)"
    using assms(2) snapshot_from_yaml_Inl[OF assms(1) Some] by (auto split: if_split_asm)
  then show ?thesis
    by cases (use list_problems_fixed[of x C "{}" users] Some in \<open>simp_all add: discloses_nothing_def fixed_reports_members\<close>)
qed

subsection \<open>A list\<close>

definition demo_users :: "raw_user list" where
  "demo_users = [\<lparr>ru_name = ''u'', ru_password = Some ''pw'', ru_scram_secret = None\<rparr>]"

theorem user_list_loads_iff_valid_witness:
  "\<exists>snap n. snapshot_from_yaml toy_crypto (\<lambda>_. Some demo_users) (\<lambda>_. replicate 16 7) [] 0 = (Inr snap, n)"
  using user_list_loads_iff_valid[of "\<lambda>_. Some demo_users" "[]" demo_users toy_crypto "\<lambda>_. replicate 16 7" 0]
  by (auto simp: demo_users_def good_name_def entry_gives_def)

theorem user_list_report_discloses_nothing_witness:
  "(''password'', ''must not be empty'') \<in> set fixed_reports"
proof -
  let ?us = "[\<lparr>ru_name = ''u'', ru_password = Some [], ru_scram_secret = None\<rparr>]"
  have "snapshot_from_yaml toy_crypto (\<lambda>_. Some ?us) (\<lambda>_. []) [] 0 =
      (Inl (ConfigError [\<lparr>ee_user = Some ''u'', ee_field = ''password'', ee_reason = ''must not be empty''\<rparr>]), 0)"
    by (simp add: snapshot_from_yaml_def load_user_def check_name_result name_problems_def push_def bag_push_def bag_into_result_def bag_is_empty_def)
  from user_list_report_discloses_nothing[OF this, of "\<lparr>ee_user = Some ''u'', ee_field = ''password'', ee_reason = ''must not be empty''\<rparr>"]
  show ?thesis by simp
qed

end
