(* ===== verification/Lookup_Cache.thy ===== *)
theory Lookup_Cache
  imports Prelude "HOL-Library.AList"
begin

section \<open>The lookup cache (\<open>auth/credentials/cache.rs\<close>)\<close>

text \<open>
  What the \<open>auth_query\<close> source remembers about users: a verifier, or that there is none, each for its own
  time to live, in a map of bounded size. An \<open>Instant\<close> and a \<open>Duration\<close> are nanoseconds, so
  \<open>saturating_duration_since\<close> is the subtraction of natural numbers; the \<open>HashMap\<close> is an association
  list with distinct keys. The locale \<open>answer_memory\<close> is what the source relies on: an answer out of the
  cache is the last thing it was told about the user, and is not older than its time to live.
\<close>

definition DEFAULT_MAX_ENTRIES :: nat where
  "DEFAULT_MAX_ENTRIES = 4096"

datatype 'v cache_entry = Positive 'v nat | Negative nat

record 'v lookup_cache =
  lc_positive_ttl :: nat
  lc_negative_ttl :: nat
  lc_max_entries :: nat
  lc_entries :: "(string \<times> 'v cache_entry) list"

definition cache_with_capacity :: "nat \<Rightarrow> nat \<Rightarrow> nat \<Rightarrow> 'v lookup_cache" where
  "cache_with_capacity positive_ttl negative_ttl max_entries =
     \<lparr>lc_positive_ttl = positive_ttl, lc_negative_ttl = negative_ttl, lc_max_entries = max max_entries 1, lc_entries = []\<rparr>"

definition cache_new :: "nat \<Rightarrow> nat \<Rightarrow> 'v lookup_cache" where
  "cache_new positive_ttl negative_ttl = cache_with_capacity positive_ttl negative_ttl DEFAULT_MAX_ENTRIES"

definition cache_remove :: "string \<Rightarrow> 'v lookup_cache \<Rightarrow> 'v lookup_cache" where
  "cache_remove user c = c\<lparr>lc_entries := AList.delete user (lc_entries c)\<rparr>"

text \<open>\<open>Some (Some v)\<close> and \<open>Some None\<close> are live entries, \<open>None\<close> sends the caller to the source.\<close>

definition cache_get :: "string \<Rightarrow> nat \<Rightarrow> 'v lookup_cache \<Rightarrow> 'v option option \<times> 'v lookup_cache" where
  "cache_get user now c =
     (case map_of (lc_entries c) user of
        None \<Rightarrow> (None, c)
      | Some (Positive v at) \<Rightarrow>
          if now - at \<le> lc_positive_ttl c then (Some (Some v), c) else (None, cache_remove user c)
      | Some (Negative at) \<Rightarrow>
          if now - at \<le> lc_negative_ttl c then (Some None, c) else (None, cache_remove user c))"

definition cache_get_negative :: "string \<Rightarrow> nat \<Rightarrow> 'v lookup_cache \<Rightarrow> nat option \<times> 'v lookup_cache" where
  "cache_get_negative user now c =
     (case cache_get user now c of
        (Some None, c') \<Rightarrow>
          ((case map_of (lc_entries c') user of Some (Negative at) \<Rightarrow> Some at | _ \<Rightarrow> None), c')
      | (_, c') \<Rightarrow> (None, c'))"

fun entry_fresh :: "nat \<Rightarrow> 'v lookup_cache \<Rightarrow> 'v cache_entry \<Rightarrow> bool" where
  "entry_fresh now c (Positive v at) = (now - at < lc_positive_ttl c)"
| "entry_fresh now c (Negative at) = (now - at < lc_negative_ttl c)"

definition evict_if_needed :: "nat \<Rightarrow> 'v lookup_cache \<Rightarrow> 'v lookup_cache" where
  "evict_if_needed now c =
     (if length (lc_entries c) < lc_max_entries c then c
      else
        let kept = filter (\<lambda>(user, e). entry_fresh now c e) (lc_entries c) in
        c\<lparr>lc_entries := (if lc_max_entries c \<le> length kept then [] else kept)\<rparr>)"

definition cache_insert :: "string \<Rightarrow> 'v cache_entry \<Rightarrow> nat \<Rightarrow> 'v lookup_cache \<Rightarrow> 'v lookup_cache" where
  "cache_insert user e now c =
     (let c' = evict_if_needed now c in c'\<lparr>lc_entries := AList.update user e (lc_entries c')\<rparr>)"

definition insert_positive :: "string \<Rightarrow> 'v \<Rightarrow> nat \<Rightarrow> 'v lookup_cache \<Rightarrow> 'v lookup_cache" where
  "insert_positive user v now c = cache_insert user (Positive v now) now c"

definition insert_negative :: "string \<Rightarrow> nat \<Rightarrow> 'v lookup_cache \<Rightarrow> 'v lookup_cache" where
  "insert_negative user now c = cache_insert user (Negative now) now c"

definition cache_forget :: "string \<Rightarrow> 'v lookup_cache \<Rightarrow> 'v lookup_cache" where
  "cache_forget user c = cache_remove user c"

subsection \<open>The size bound\<close>

definition cache_ok :: "'v lookup_cache \<Rightarrow> bool" where
  "cache_ok c \<longleftrightarrow> distinct (map fst (lc_entries c)) \<and> length (lc_entries c) \<le> lc_max_entries c \<and> 1 \<le> lc_max_entries c"

definition same_limits :: "'v lookup_cache \<Rightarrow> 'v lookup_cache \<Rightarrow> bool" where
  "same_limits c d \<longleftrightarrow> lc_positive_ttl c = lc_positive_ttl d \<and> lc_negative_ttl c = lc_negative_ttl d \<and>
     lc_max_entries c = lc_max_entries d"

lemma cache_ok_new [simp]: "cache_ok (cache_with_capacity p n m)"
  by (simp add: cache_ok_def cache_with_capacity_def)

lemma length_update: "length (AList.update k v xs) \<le> Suc (length xs)"
  by (induction xs) auto

lemma cache_ok_remove [simp]: "cache_ok c \<Longrightarrow> cache_ok (cache_remove user c)"
  using length_delete_le[of user "lc_entries c"] by (auto simp: cache_ok_def cache_remove_def distinct_delete)

lemma evict_ok:
  assumes "cache_ok c"
  shows "cache_ok (evict_if_needed now c)" and "length (lc_entries (evict_if_needed now c)) < lc_max_entries c"
    and "same_limits (evict_if_needed now c) c"
    and "map_of (lc_entries (evict_if_needed now c)) user = Some e \<Longrightarrow> map_of (lc_entries c) user = Some e"
proof -
  show "cache_ok (evict_if_needed now c)" "length (lc_entries (evict_if_needed now c)) < lc_max_entries c"
    "same_limits (evict_if_needed now c) c"
    using assms by (auto simp: evict_if_needed_def Let_def cache_ok_def same_limits_def distinct_map_filter)
  show "map_of (lc_entries c) user = Some e" if "map_of (lc_entries (evict_if_needed now c)) user = Some e"
  proof -
    have "(user, e) \<in> set (lc_entries c)"
      using that by (auto simp: evict_if_needed_def Let_def dest!: map_of_SomeD split: if_splits)
    then show ?thesis using assms by (simp add: cache_ok_def)
  qed
qed

lemma insert_ok:
  assumes "cache_ok c"
  shows "cache_ok (cache_insert user e now c)" and "same_limits (cache_insert user e now c) c"
    and "map_of (lc_entries (cache_insert user e now c)) u =
      (if u = user then Some e else map_of (lc_entries (evict_if_needed now c)) u)"
  using evict_ok[OF assms, of now] length_update[of user e "lc_entries (evict_if_needed now c)"]
  by (auto simp: cache_insert_def Let_def cache_ok_def same_limits_def distinct_update update_conv')

subsection \<open>The contract of a memory for answers\<close>

datatype 'v memory_event = Told string "'v option" nat | Asked string nat | Forgotten string

fun memory_run :: "(string \<Rightarrow> nat \<Rightarrow> 's \<Rightarrow> 'v option option \<times> 's) \<Rightarrow> (string \<Rightarrow> 'v option \<Rightarrow> nat \<Rightarrow> 's \<Rightarrow> 's) \<Rightarrow>
    (string \<Rightarrow> 's \<Rightarrow> 's) \<Rightarrow> 'v memory_event list \<Rightarrow> 's \<Rightarrow> 's" where
  "memory_run ask tell forget [] s = s"
| "memory_run ask tell forget (Told u r at # es) s = memory_run ask tell forget es (tell u r at s)"
| "memory_run ask tell forget (Asked u now # es) s = memory_run ask tell forget es (snd (ask u now s))"
| "memory_run ask tell forget (Forgotten u # es) s = memory_run ask tell forget es (forget u s)"

text \<open>The specification: what was last said about each user.\<close>

fun last_told :: "'v memory_event list \<Rightarrow> (string \<Rightarrow> ('v option \<times> nat) option) \<Rightarrow> string \<Rightarrow> ('v option \<times> nat) option" where
  "last_told [] m = m"
| "last_told (Told u r at # es) m = last_told es (m(u \<mapsto> (r, at)))"
| "last_told (Asked u now # es) m = last_told es m"
| "last_told (Forgotten u # es) m = last_told es (m(u := None))"

lemma map_le_updD: "m \<subseteq>\<^sub>m f(u \<mapsto> y) \<Longrightarrow> m v = Some z \<Longrightarrow> v = u \<and> z = y \<or> f v = Some z"
  by (metis domI fun_upd_apply map_le_def option.inject)

locale answer_memory =
  fixes ask :: "string \<Rightarrow> nat \<Rightarrow> 's \<Rightarrow> 'v option option \<times> 's"
    and tell :: "string \<Rightarrow> 'v option \<Rightarrow> nat \<Rightarrow> 's \<Rightarrow> 's"
    and forget :: "string \<Rightarrow> 's \<Rightarrow> 's"
    and known :: "'s \<Rightarrow> string \<Rightarrow> ('v option \<times> nat) option"
    and limits :: "'s \<Rightarrow> 'l"
    and ttl :: "'l \<Rightarrow> 'v option \<Rightarrow> nat"
    and ok :: "'s \<Rightarrow> bool"
  assumes ask_answer: "ok s \<Longrightarrow> fst (ask u now s) =
      (case known s u of None \<Rightarrow> None | Some (r, at) \<Rightarrow> if now - at \<le> ttl (limits s) r then Some r else None)"
    and ask_keeps: "ok s \<Longrightarrow> ok (snd (ask u now s)) \<and> limits (snd (ask u now s)) = limits s \<and> known (snd (ask u now s)) \<subseteq>\<^sub>m known s"
    and tell_keeps: "ok s \<Longrightarrow> ok (tell u r at s) \<and> limits (tell u r at s) = limits s \<and>
      known (tell u r at s) \<subseteq>\<^sub>m (known s)(u \<mapsto> (r, at)) \<and> known (tell u r at s) u = Some (r, at)"
    and forget_keeps: "ok s \<Longrightarrow> ok (forget u s) \<and> limits (forget u s) = limits s \<and> known (forget u s) \<subseteq>\<^sub>m (known s)(u := None)"
begin

lemma run_keeps:
  assumes "ok s" and "known s \<subseteq>\<^sub>m m"
  shows "ok (memory_run ask tell forget es s) \<and> limits (memory_run ask tell forget es s) = limits s \<and>
    known (memory_run ask tell forget es s) \<subseteq>\<^sub>m last_told es m"
  using assms
proof (induction es arbitrary: s m)
  case (Cons e es)
  show ?case
  proof (cases e)
    case (Told u r at)
    have "known (tell u r at s) \<subseteq>\<^sub>m m(u \<mapsto> (r, at))"
      using tell_keeps[OF Cons.prems(1), of u r at] Cons.prems(2) map_le_upd map_le_trans by metis
    then show ?thesis
      unfolding Told memory_run.simps last_told.simps using Cons.IH tell_keeps[OF Cons.prems(1), of u r at] by metis
  next
    case (Asked u now)
    have "known (snd (ask u now s)) \<subseteq>\<^sub>m m"
      using ask_keeps[OF Cons.prems(1), of u now] Cons.prems(2) map_le_trans by metis
    then show ?thesis using Asked Cons.IH[of "snd (ask u now s)" m] ask_keeps[OF Cons.prems(1), of u now] by simp
  next
    case (Forgotten u)
    have "(known s)(u := None) \<subseteq>\<^sub>m m(u := None)" using Cons.prems(2) by (auto simp: map_le_def)
    then have "known (forget u s) \<subseteq>\<^sub>m m(u := None)"
      using forget_keeps[OF Cons.prems(1), of u] map_le_trans by metis
    then show ?thesis
      unfolding Forgotten memory_run.simps last_told.simps using Cons.IH forget_keeps[OF Cons.prems(1), of u] by metis
  qed
qed simp

lemma answer_is_last_told:
  assumes "ok s" and "known s = Map.empty" and "fst (ask u now (memory_run ask tell forget es s)) = Some r"
  shows "\<exists>at. last_told es Map.empty u = Some (r, at) \<and> now - at \<le> ttl (limits s) r"
proof -
  have "known s \<subseteq>\<^sub>m Map.empty" using assms(2) by simp
  note run = run_keeps[OF assms(1) this, of es]
  obtain at where "known (memory_run ask tell forget es s) u = Some (r, at)" "now - at \<le> ttl (limits s) r"
    using ask_answer[of "memory_run ask tell forget es s" u now] run assms(3)
    by (auto split: option.splits if_splits)
  then show ?thesis using run by (auto simp: map_le_def dom_def)
qed

end

subsection \<open>The cache is one\<close>

fun entry_view :: "'v cache_entry \<Rightarrow> 'v option \<times> nat" where
  "entry_view (Positive v at) = (Some v, at)"
| "entry_view (Negative at) = (None, at)"

definition cache_known :: "'v lookup_cache \<Rightarrow> string \<Rightarrow> ('v option \<times> nat) option" where
  "cache_known c user = map_option entry_view (map_of (lc_entries c) user)"

definition cache_tell :: "string \<Rightarrow> 'v option \<Rightarrow> nat \<Rightarrow> 'v lookup_cache \<Rightarrow> 'v lookup_cache" where
  "cache_tell user r now = (case r of Some v \<Rightarrow> insert_positive user v now | None \<Rightarrow> insert_negative user now)"

definition cache_limits :: "'v lookup_cache \<Rightarrow> nat \<times> nat \<times> nat" where
  "cache_limits c = (lc_positive_ttl c, lc_negative_ttl c, lc_max_entries c)"

fun limit_ttl :: "nat \<times> nat \<times> nat \<Rightarrow> 'v option \<Rightarrow> nat" where
  "limit_ttl (positive_ttl, negative_ttl, _) None = negative_ttl"
| "limit_ttl (positive_ttl, negative_ttl, _) (Some _) = positive_ttl"

definition answer_ttl :: "nat \<Rightarrow> nat \<Rightarrow> 'v option \<Rightarrow> nat" where
  "answer_ttl positive_ttl negative_ttl r = (if r = None then negative_ttl else positive_ttl)"

lemma limit_ttl_answer: "limit_ttl (p, n, m) = answer_ttl p n"
  by (rule ext, case_tac x) (simp_all add: answer_ttl_def)

definition answer_entry :: "'v option \<Rightarrow> nat \<Rightarrow> 'v cache_entry" where
  "answer_entry r at = (case r of Some v \<Rightarrow> Positive v at | None \<Rightarrow> Negative at)"

lemma cache_tell_insert: "cache_tell user r at c = cache_insert user (answer_entry r at) at c"
  by (simp add: cache_tell_def answer_entry_def insert_positive_def insert_negative_def split: option.split)

lemma cache_get_state: "snd (cache_get user now c) \<in> {c, cache_remove user c}"
  by (auto simp: cache_get_def split: option.splits cache_entry.splits)

lemma cache_known_remove: "cache_known (cache_remove user c) = (cache_known c)(user := None)"
  by (auto simp: cache_known_def cache_remove_def fun_eq_iff delete_conv')

interpretation memory: answer_memory cache_get cache_tell cache_forget cache_known cache_limits limit_ttl cache_ok
proof
  fix c :: "'v lookup_cache" and u now
  assume c: "cache_ok c"
  have removed: "cache_limits (cache_remove u c) = cache_limits c" "cache_known (cache_remove u c) \<subseteq>\<^sub>m (cache_known c)(u := None)"
    "cache_known (cache_remove u c) \<subseteq>\<^sub>m cache_known c"
    by (simp_all add: cache_known_remove cache_limits_def map_le_def, simp_all add: cache_remove_def)
  show "fst (cache_get u now c) =
      (case cache_known c u of None \<Rightarrow> None | Some (r, at) \<Rightarrow> if now - at \<le> limit_ttl (cache_limits c) r then Some r else None)"
    by (auto simp: cache_get_def cache_known_def cache_limits_def split: option.splits cache_entry.splits)
  show "cache_ok (snd (cache_get u now c)) \<and> cache_limits (snd (cache_get u now c)) = cache_limits c \<and>
      cache_known (snd (cache_get u now c)) \<subseteq>\<^sub>m cache_known c"
    using cache_get_state[of u now c] c removed by auto
  show "cache_ok (cache_forget u c) \<and> cache_limits (cache_forget u c) = cache_limits c \<and>
      cache_known (cache_forget u c) \<subseteq>\<^sub>m (cache_known c)(u := None)"
    using c removed by (simp add: cache_forget_def)
next
  fix c :: "'v lookup_cache" and u r at
  assume c: "cache_ok c"
  have "cache_known (cache_insert u (answer_entry r at) at c) \<subseteq>\<^sub>m (cache_known c)(u \<mapsto> (r, at))"
    using insert_ok(3)[OF c, of u _ at] evict_ok(4)[OF c, of at]
    by (auto simp: map_le_def cache_known_def answer_entry_def dom_def split: option.splits if_splits)
  then show "cache_ok (cache_tell u r at c) \<and> cache_limits (cache_tell u r at c) = cache_limits c \<and>
      cache_known (cache_tell u r at c) \<subseteq>\<^sub>m (cache_known c)(u \<mapsto> (r, at)) \<and> cache_known (cache_tell u r at c) u = Some (r, at)"
    using insert_ok[OF c, of u "answer_entry r at" at]
    by (auto simp: cache_tell_insert cache_known_def same_limits_def cache_limits_def answer_entry_def split: option.splits)
qed

text \<open>
  An answer out of the cache is never stale and never made up. After any sequence of insertions,
  lookups and removals it is the last thing the cache was told about that user, told at most the time to live of
  its kind ago; the cache never holds more than its maximum of entries, and what it is told is served
  right away.
\<close>

theorem cache_answers_are_recent:
  assumes "c = memory_run cache_get cache_tell cache_forget es (cache_with_capacity positive_ttl negative_ttl max_entries)"
  shows "length (lc_entries c) \<le> max max_entries 1 \<and>
    (fst (cache_get user now c) = Some r \<longrightarrow>
      (\<exists>at. last_told es Map.empty user = Some (r, at) \<and> now - at \<le> answer_ttl positive_ttl negative_ttl r)) \<and>
    (now - at \<le> answer_ttl positive_ttl negative_ttl r \<longrightarrow> fst (cache_get user now (cache_tell user r at c)) = Some r)"
proof -
  let ?new = "cache_with_capacity positive_ttl negative_ttl max_entries :: 'a lookup_cache"
  have known: "cache_known ?new = Map.empty" by (simp add: cache_known_def cache_with_capacity_def fun_eq_iff)
  have limits: "cache_limits ?new = (positive_ttl, negative_ttl, max max_entries 1)"
    by (simp add: cache_limits_def cache_with_capacity_def)
  have run: "cache_ok c" "cache_limits c = cache_limits ?new"
    using memory.run_keeps[OF cache_ok_new, of _ _ _ "Map.empty" es] assms known by auto
  have "length (lc_entries c) \<le> max max_entries 1" using run limits by (simp add: cache_ok_def cache_limits_def)
  then show ?thesis
    using memory.answer_is_last_told[OF cache_ok_new known, of user now es r] memory.tell_keeps[OF run(1), of user r at]
      memory.ask_answer[of "cache_tell user r at c" user now] assms run limits
    by (simp add: limit_ttl_answer)
qed

theorem cache_answers_are_recent_witness:
  "fst (cache_get ''u'' 9 (memory_run cache_get cache_tell cache_forget [Told ''u'' (Some (1 :: nat)) 0, Told ''v'' None 2]
     (cache_with_capacity 9 5 1))) = None \<and>
   fst (cache_get ''v'' 7 (memory_run cache_get cache_tell cache_forget [Told ''u'' (Some (1 :: nat)) 0, Told ''v'' None 2]
     (cache_with_capacity 9 5 1))) = Some None \<and>
   length (lc_entries (memory_run cache_get cache_tell cache_forget [Told ''u'' (Some (1 :: nat)) 0, Told ''v'' None 2]
     (cache_with_capacity 9 5 1))) \<le> 1"
  using cache_answers_are_recent[OF refl, of "[Told ''u'' (Some (1 :: nat)) 0, Told ''v'' None 2]" 9 5 1]
  by (simp add: cache_with_capacity_def cache_tell_def insert_positive_def insert_negative_def cache_insert_def
      evict_if_needed_def cache_get_def cache_remove_def)

end
