(* ===== verification/Auth_Query.thy ===== *)
theory Auth_Query
  imports Lookup_Cache Verifier
begin

section \<open>The lookup query source (\<open>auth/credentials/auth_query.rs\<close>)\<close>

text \<open>
  Verifiers read from a database with a configured query, one row per user, through the lookup cache.
  \<open>tokio_postgres\<close> is not code of the repository: a \<open>lookup_db\<close> says how the n-th use of the
  database turns out, a connection attempt or a query, and a row carries the text of its second column,
  NULL, or the error of reading it. The theorem about \<open>aq_lookup\<close> is that an answer is always an answer of the
  database: an outage is an error, and is never taken for a user that does not exist.
\<close>

definition NEGATIVE_CACHE_TTL :: nat where
  "NEGATIVE_CACHE_TTL = 5 * 10 ^ 9"

definition DEFAULT_CACHE_TTL :: nat where
  "DEFAULT_CACHE_TTL = 60 * 10 ^ 9"

record auth_query_config =
  aqc_host :: string
  aqc_port :: u16
  aqc_user :: string
  aqc_password :: string
  aqc_database :: string
  aqc_query :: string
  aqc_cache_ttl :: nat
  aqc_negative_ttl :: nat
  aqc_max_entries :: nat

subsection \<open>The placeholders of a query\<close>

lemma length_dropWhile: "length (dropWhile P xs) \<le> length xs"
  by (induction xs) auto

function scan_placeholders :: "string \<Rightarrow> u32 list" where
  "scan_placeholders [] = []"
| "scan_placeholders (c # cs) =
     (if c \<noteq> CHR ''$'' then scan_placeholders cs
      else
        let digits = takeWhile is_digit cs in
        if digits = [] then scan_placeholders cs
        else (case parse_u32 digits of Some n \<Rightarrow> [n] | None \<Rightarrow> []) @ scan_placeholders (dropWhile is_digit cs))"
  by pat_completeness auto
termination
  by (relation "measure length") (auto simp: le_imp_less_Suc length_dropWhile)

definition validate_query :: "string \<Rightarrow> string + unit" where
  "validate_query query =
     (let placeholders = scan_placeholders query in
      if length placeholders \<noteq> 1 then Inl ''query must contain exactly one placeholder''
      else if placeholders ! 0 \<noteq> 1 then Inl ''the placeholder must be $1 (the requested user name)''
      else Inr ())"

text \<open>The reference: the numbers that follow a dollar sign, at every position of the text.\<close>

fun placeholder_at :: "string \<Rightarrow> u32 option" where
  "placeholder_at [] = None"
| "placeholder_at (c # cs) = (if c = CHR ''$'' \<and> takeWhile is_digit cs \<noteq> [] then parse_u32 (takeWhile is_digit cs) else None)"

fun tails :: "'a list \<Rightarrow> 'a list list" where
  "tails [] = [[]]"
| "tails (x # xs) = (x # xs) # tails xs"

definition placeholder_numbers :: "string \<Rightarrow> u32 list" where
  "placeholder_numbers query = List.map_filter placeholder_at (tails query)"

lemma placeholder_numbers_simps:
  "placeholder_numbers [] = []"
  "placeholder_numbers (c # cs) = (case placeholder_at (c # cs) of Some n \<Rightarrow> [n] | None \<Rightarrow> []) @ placeholder_numbers cs"
  by (simp_all add: placeholder_numbers_def List.map_filter_simps split: option.split)

lemma dollar_no_digit: "\<not> is_digit (CHR ''$'')"
  by (simp add: is_digit_def)

lemma placeholder_numbers_digits:
  "placeholder_numbers cs = placeholder_numbers (dropWhile is_digit cs)"
  by (induction cs) (auto simp: placeholder_numbers_simps dollar_no_digit)

lemma scan_placeholders_reference: "scan_placeholders query = placeholder_numbers query"
proof (induction query rule: scan_placeholders.induct)
  case (2 c cs)
  then show ?case
    by (auto simp: placeholder_numbers_simps Let_def placeholder_numbers_digits[of cs] simp del: placeholder_numbers_def)
qed (simp add: placeholder_numbers_simps)

lemma validate_query_reference: "validate_query query = Inr () \<longleftrightarrow> placeholder_numbers query = [1]"
  by (cases "placeholder_numbers query") (auto simp: validate_query_def Let_def scan_placeholders_reference)


text \<open>A placeholder that overflows \<open>u32\<close> goes unnoticed: the database binds more than the proxy counted.\<close>

lemma overflowing_placeholder_is_not_seen: "validate_query ''f($1, $4294967296)'' = Inr ()"
proof -
  have "takeWhile is_digit ''1, $4294967296)'' = ''1''" "takeWhile is_digit ''4294967296)'' = ''4294967296''"
    by (simp_all add: is_digit_def)
  moreover have "parse_u32 ''1'' = Some 1" "parse_u32 ''4294967296'' = None"
    by (simp_all add: parse_u32_def parse_unsigned_def is_digit_def)
  ultimately show ?thesis
    unfolding validate_query_reference by (simp add: placeholder_numbers_simps)
qed

subsection \<open>The source\<close>

record lookup_db =
  db_connect :: "auth_query_config \<Rightarrow> nat \<Rightarrow> string option"
  db_query :: "string \<Rightarrow> nat \<Rightarrow> string \<Rightarrow> string + (string + string option) option"

record auth_query_source =
  aq_config :: auth_query_config
  aq_cache :: "verifier lookup_cache"
  aq_client :: bool
  aq_uses :: nat

definition auth_query_source_new :: "auth_query_config \<Rightarrow> auth_query_source" where
  "auth_query_source_new config =
     \<lparr>aq_config = config,
      aq_cache = cache_with_capacity (aqc_cache_ttl config) (aqc_negative_ttl config) (aqc_max_entries config),
      aq_client = False, aq_uses = 0\<rparr>"

type_synonym 'a aq_prog = "(auth_query_source, 'a, provider_error) prog"

definition on_aq_cache :: "(verifier lookup_cache \<Rightarrow> 'a \<times> verifier lookup_cache) \<Rightarrow> 'a aq_prog" where
  "on_aq_cache f s = (case f (aq_cache s) of (x, c) \<Rightarrow> (Ok x, s\<lparr>aq_cache := c\<rparr>))"

definition next_use :: "nat aq_prog" where
  "next_use s = (Ok (aq_uses s), s\<lparr>aq_uses := Suc (aq_uses s)\<rparr>)"

definition ensure_connected :: "lookup_db \<Rightarrow> unit aq_prog" where
  "ensure_connected D =
     bnd (gets aq_client) (\<lambda>connected.
     if connected then ret ()
     else
       bnd (gets aq_config) (\<lambda>config.
       bnd next_use (\<lambda>n.
       case db_connect D config n of
         Some e \<Rightarrow> throw (Unavailable e)
       | None \<Rightarrow> modify (\<lambda>s. s\<lparr>aq_client := True\<rparr>))))"

text \<open>A query on the open client; one that fails drops the client.\<close>

definition query_client :: "lookup_db \<Rightarrow> string \<Rightarrow> string option aq_prog" where
  "query_client D user =
     bnd (gets aq_client) (\<lambda>connected.
     andthen (guard connected (Unavailable ''auth_query client unavailable'')) (
     bnd (gets aq_config) (\<lambda>config.
     bnd next_use (\<lambda>n.
     case db_query D (aqc_query config) n user of
       Inr (Some (Inr secret)) \<Rightarrow> ret secret
     | Inr (Some (Inl e)) \<Rightarrow> throw (Unavailable e)
     | Inr None \<Rightarrow> ret None
     | Inl e \<Rightarrow> andthen (modify (\<lambda>s. s\<lparr>aq_client := False\<rparr>)) (throw (Unavailable e))))))"

definition query_backend :: "lookup_db \<Rightarrow> string \<Rightarrow> string option aq_prog" where
  "query_backend D user = andthen (ensure_connected D) (query_client D user)"

definition preflight :: "lookup_db \<Rightarrow> unit aq_prog" where
  "preflight D = ensure_connected D"

definition aq_forget :: "string \<Rightarrow> unit aq_prog" where
  "aq_forget user = on_aq_cache (\<lambda>c. ((), cache_forget user c))"

definition unavailable_format :: "secret_format_error + 'a \<Rightarrow> provider_error + 'a" where
  "unavailable_format x = (case x of Inl e \<Rightarrow> Inl (Unavailable (secret_format_display e)) | Inr v \<Rightarrow> Inr v)"

text \<open>What a row is remembered as and answers.\<close>

definition answer_row :: "crypto \<Rightarrow> nat \<Rightarrow> string \<Rightarrow> string option \<Rightarrow> verifier option aq_prog" where
  "answer_row C now user row =
     (case row of
        Some secret \<Rightarrow>
          bnd (of_sum (unavailable_format (from_pg_secret C secret))) (\<lambda>v.
          andthen (on_aq_cache (\<lambda>c. ((), insert_positive user v now c))) (ret (Some v)))
      | None \<Rightarrow> andthen (on_aq_cache (\<lambda>c. ((), insert_negative user now c))) (ret None))"

definition aq_lookup :: "crypto \<Rightarrow> lookup_db \<Rightarrow> nat \<Rightarrow> string \<Rightarrow> verifier option aq_prog" where
  "aq_lookup C D now user =
     bnd (on_aq_cache (cache_get user now)) (\<lambda>cached.
     case cached of
       Some answer \<Rightarrow> ret answer
     | None \<Rightarrow> bnd (query_backend D user) (answer_row C now user))"

subsection \<open>Answers and outages\<close>

text \<open>What the n-th use of the database says about a user, when it is a query that works.\<close>

definition db_answer :: "crypto \<Rightarrow> lookup_db \<Rightarrow> string \<Rightarrow> nat \<Rightarrow> string \<Rightarrow> verifier option option" where
  "db_answer C D query n user =
     (case db_query D query n user of
        Inr None \<Rightarrow> Some None
      | Inr (Some (Inr None)) \<Rightarrow> Some None
      | Inr (Some (Inr (Some secret))) \<Rightarrow>
          (case from_pg_secret C secret of Inr v \<Rightarrow> Some (Some v) | Inl e \<Rightarrow> None)
      | _ \<Rightarrow> None)"

lemma ensure_connected_outcome:
  assumes "ensure_connected D s = (x, t)"
  shows "aq_cache t = aq_cache s \<and> aq_config t = aq_config s \<and> (x = Ok () \<and> aq_client t \<or> (\<exists>e. x = Err e))"
  using assms by (auto simp: ensure_connected_def next_use_def bnd_def prog_simps split: if_splits option.splits)

text \<open>The row a query of the database returned, and what it says.\<close>

definition answered_row :: "lookup_db \<Rightarrow> string \<Rightarrow> nat \<Rightarrow> string \<Rightarrow> string option \<Rightarrow> bool" where
  "answered_row D query n user row \<longleftrightarrow>
     db_query D query n user = Inr (Some (Inr row)) \<or> row = None \<and> db_query D query n user = Inr None"

definition row_answer :: "crypto \<Rightarrow> string option \<Rightarrow> verifier option option" where
  "row_answer C row =
     (case row of None \<Rightarrow> Some None
      | Some secret \<Rightarrow> (case from_pg_secret C secret of Inr v \<Rightarrow> Some (Some v) | Inl e \<Rightarrow> None))"

lemma answered_row_answer: "answered_row D query n user row \<Longrightarrow> row_answer C row = Some r \<Longrightarrow> db_answer C D query n user = Some r"
  by (auto simp: answered_row_def row_answer_def db_answer_def split: option.splits)

lemma ensure_connected_Unavailable: "ensure_connected D s = (Err e, t) \<Longrightarrow> \<exists>text. e = Unavailable text"
  by (cases e) simp

lemma query_client_outcome:
  assumes "query_client D user s = (x, t)"
  shows "aq_cache t = aq_cache s \<and> aq_config t = aq_config s \<and>
    ((\<exists>row. x = Ok row \<and> answered_row D (aqc_query (aq_config s)) (aq_uses s) user row) \<or> (\<exists>e. x = Err (Unavailable e)))"
proof (cases "aq_client s")
  case True
  then show ?thesis
    using assms
    by (cases "db_query D (aqc_query (aq_config s)) (aq_uses s) user")
      (auto simp: query_client_def bnd_def prog_simps next_use_def answered_row_def split: option.splits sum.splits)
next
  case False
  then show ?thesis using assms by (auto simp: query_client_def bnd_def prog_simps)
qed

lemma query_backend_outcome:
  assumes "query_backend D user s = (x, t)"
  shows "aq_cache t = aq_cache s \<and> aq_config t = aq_config s \<and>
    ((\<exists>n row. x = Ok row \<and> answered_row D (aqc_query (aq_config s)) n user row) \<or> (\<exists>e. x = Err (Unavailable e)))"
proof -
  obtain y u where c: "ensure_connected D s = (y, u)" by fastforce
  note connected = ensure_connected_outcome[OF c]
  show ?thesis
  proof (cases y)
    case (Err e)
    then show ?thesis
      using assms c connected ensure_connected_Unavailable[of D s e u] by (auto simp: query_backend_def bnd_def)
  next
    case (Ok z)
    then have "query_client D user u = (x, t)" using assms c by (simp add: query_backend_def bnd_def)
    from query_client_outcome[OF this] show ?thesis using connected by auto
  qed (use connected in auto)
qed

lemma answer_row_outcome:
  assumes "answer_row C at user row s = (x, t)"
  shows "aq_config t = aq_config s \<and>
    ((\<exists>r. x = Ok r \<and> row_answer C row = Some r \<and> aq_cache t = cache_tell user r at (aq_cache s)) \<or>
     (\<exists>e. x = Err (Unavailable e) \<and> aq_cache t = aq_cache s))"
proof (cases row)
  case None
  then show ?thesis using assms
    by (auto simp: answer_row_def bnd_def prog_simps on_aq_cache_def row_answer_def cache_tell_def)
next
  case (Some secret)
  then show ?thesis using assms
    by (cases "from_pg_secret C secret")
      (auto simp: answer_row_def bnd_def prog_simps on_aq_cache_def row_answer_def cache_tell_def unavailable_format_def)
qed

text \<open>Every way a lookup can go.\<close>

lemma aq_lookup_cases:
  assumes "aq_lookup C D now user s = (x, t)" and "cache_get user now (aq_cache s) = (cached, c)"
  obtains (hit) r where "cached = Some r" "x = Ok r" "aq_cache t = c" "aq_config t = aq_config s"
    | (answer) n r where "cached = None" "db_answer C D (aqc_query (aq_config s)) n user = Some r" "x = Ok r"
        "aq_cache t = cache_tell user r now c" "aq_config t = aq_config s"
    | (outage) e where "cached = None" "x = Err (Unavailable e)" "aq_cache t = c" "aq_config t = aq_config s"
proof (cases cached)
  case (Some r)
  then show ?thesis using assms by (intro hit[of r]) (auto simp: aq_lookup_def on_aq_cache_def bnd_def prog_simps)
next
  case None
  obtain y u where q: "query_backend D user (s\<lparr>aq_cache := c\<rparr>) = (y, u)" by fastforce
  note out = query_backend_outcome[OF q]
  have run: "bnd (\<lambda>_. (y, u)) (answer_row C now user) s = (x, t)"
    using assms None q by (simp add: aq_lookup_def on_aq_cache_def bnd_def)
  show ?thesis
  proof (cases y)
    case (Ok row)
    then obtain n where n: "answered_row D (aqc_query (aq_config s)) n user row" using out by auto
    have "answer_row C now user row u = (x, t)" using run Ok by (simp add: bnd_def)
    note stored_row = answer_row_outcome[OF this]
    have u: "aq_cache u = c" "aq_config u = aq_config s" using out by simp_all
    have kept: "aq_config t = aq_config u" using stored_row by simp
    from stored_row consider (stored) r where "x = Ok r" "row_answer C row = Some r" "aq_cache t = cache_tell user r now c"
      | (bad) e where "x = Err (Unavailable e)" "aq_cache t = c"
      using u by auto
    then show ?thesis
    proof cases
      case (stored r)
      then show ?thesis
        using answer[OF None answered_row_answer[OF n stored(2)]] u kept by simp
    next
      case (bad e)
      then show ?thesis using outage[OF None] u kept by simp
    qed
  next
    case (Err e)
    then show ?thesis using run out outage[OF None] by (auto simp: bnd_def)
  qed (use out in auto)
qed

text \<open>The results of a sequence of lookups, each with the time it was made at.\<close>

fun aq_results :: "crypto \<Rightarrow> lookup_db \<Rightarrow> (string \<times> nat) list \<Rightarrow> auth_query_source \<Rightarrow> (verifier option, provider_error) outcome list" where
  "aq_results C D [] s = []"
| "aq_results C D ((user, now) # calls) s =
     (case aq_lookup C D now user s of (x, t) \<Rightarrow> x # aq_results C D calls t)"

lemma length_aq_results [simp]: "length (aq_results C D calls s) = length calls"
  by (induction calls arbitrary: s) (auto split: prod.split)

definition remembered :: "auth_query_source \<Rightarrow> (string \<times> nat \<times> verifier option) set" where
  "remembered s = {(u, at, r). cache_known (aq_cache s) u = Some (r, at)}"

definition aq_ok :: "auth_query_config \<Rightarrow> auth_query_source \<Rightarrow> bool" where
  "aq_ok config s \<longleftrightarrow> cache_ok (aq_cache s) \<and> aq_config s = config \<and>
     (\<exists>m. cache_limits (aq_cache s) = (aqc_cache_ttl config, aqc_negative_ttl config, m))"

text \<open>What asking, telling and forgetting do to what is remembered.\<close>

lemma ask_source:
  assumes "aq_ok config s" and "cache_get user now (aq_cache s) = (cached, c)" and "aq_cache t = c" and "aq_config t = aq_config s"
  shows "aq_ok config t" and "remembered t \<subseteq> remembered s"
    and "cached = Some r \<Longrightarrow> \<exists>at. (user, at, r) \<in> remembered s \<and> now - at \<le> answer_ttl (aqc_cache_ttl config) (aqc_negative_ttl config) r"
proof -
  obtain m where ok: "cache_ok (aq_cache s)" "cache_limits (aq_cache s) = (aqc_cache_ttl config, aqc_negative_ttl config, m)" "aq_config s = config"
    using assms(1) by (auto simp: aq_ok_def)
  note kept = memory.ask_keeps[OF ok(1), of user now]
  show "aq_ok config t" using kept assms ok by (auto simp: aq_ok_def)
  show "remembered t \<subseteq> remembered s" using kept assms by (auto simp: remembered_def map_le_def dom_def)
  show "\<exists>at. (user, at, r) \<in> remembered s \<and> now - at \<le> answer_ttl (aqc_cache_ttl config) (aqc_negative_ttl config) r" if "cached = Some r"
    using memory.ask_answer[OF ok(1), of user now] assms(2) that ok(2)
    by (auto simp: remembered_def limit_ttl_answer split: option.splits if_splits)
qed

lemma tell_source:
  assumes "aq_ok config s" and "aq_cache t = cache_tell user r now (aq_cache s)" and "aq_config t = aq_config s"
  shows "aq_ok config t" and "remembered t \<subseteq> insert (user, now, r) (remembered s)"
proof -
  have ok: "cache_ok (aq_cache s)" using assms(1) by (simp add: aq_ok_def)
  note told = memory.tell_keeps[OF ok, of user r now]
  show "aq_ok config t" using told assms by (auto simp: aq_ok_def)
  have known: "cache_known (aq_cache t) \<subseteq>\<^sub>m (cache_known (aq_cache s))(user \<mapsto> (r, now))" using told assms(2) by simp
  have "u = user \<and> r' = r \<and> at = now \<or> cache_known (aq_cache s) u = Some (r', at)" if "cache_known (aq_cache t) u = Some (r', at)" for u at r'
    using map_le_updD[OF known that] by auto
  then show "remembered t \<subseteq> insert (user, now, r) (remembered s)" by (auto simp: remembered_def)
qed

lemma forget_source:
  assumes "aq_ok config s" and "aq_forget user s = (x, t)"
  shows "aq_ok config t" and "remembered t \<subseteq> remembered s" and "x = Ok ()"
proof -
  have ok: "cache_ok (aq_cache s)" using assms(1) by (simp add: aq_ok_def)
  have t: "aq_cache t = cache_forget user (aq_cache s)" "aq_config t = aq_config s" "x = Ok ()"
    using assms(2) by (auto simp: aq_forget_def on_aq_cache_def)
  note kept = memory.forget_keeps[OF ok, of user]
  show "aq_ok config t" using kept t assms(1) by (auto simp: aq_ok_def)
  have known: "cache_known (aq_cache t) \<subseteq>\<^sub>m (cache_known (aq_cache s))(user := None)" using kept t by simp
  have "cache_known (aq_cache s) u = Some y" if "cache_known (aq_cache t) u = Some y" for u y
    using known that by (metis domI fun_upd_apply map_le_def option.distinct(1))
  then show "remembered t \<subseteq> remembered s" by (auto simp: remembered_def)
qed (use assms(2) in \<open>auto simp: aq_forget_def on_aq_cache_def\<close>)

lemma same_source:
  "aq_ok config s \<Longrightarrow> aq_cache t = aq_cache s \<Longrightarrow> aq_config t = aq_config s \<Longrightarrow> aq_ok config t \<and> remembered t = remembered s"
  by (simp add: aq_ok_def remembered_def)

text \<open>One lookup: where its answer comes from, and what is remembered afterwards.\<close>

lemma aq_lookup_sound:
  assumes "aq_lookup C D now user s = (x, t)" and "aq_ok cfg s"
  shows "aq_ok cfg t"
    and "x = Ok r \<Longrightarrow> (\<exists>at. (user, at, r) \<in> remembered s \<and> now - at \<le> answer_ttl (aqc_cache_ttl cfg) (aqc_negative_ttl cfg) r) \<or>
      (\<exists>k. db_answer C D (aqc_query cfg) k user = Some r)"
    and "e \<in> remembered t \<Longrightarrow> e \<in> remembered s \<or> (\<exists>r k. e = (user, now, r) \<and> x = Ok r \<and> db_answer C D (aqc_query cfg) k user = Some r)"
    and "(\<exists>r. x = Ok r) \<or> (\<exists>e. x = Err (Unavailable e) \<and> remembered t \<subseteq> remembered s)"
proof -
  obtain cached c where g: "cache_get user now (aq_cache s) = (cached, c)" by fastforce
  define u where "u = s\<lparr>aq_cache := c\<rparr>"
  have u: "aq_cache u = c" "aq_config u = aq_config s" by (simp_all add: u_def)
  note asked = ask_source[OF assms(2) g u]
  have cfg: "aq_config s = cfg" using assms(2) by (simp add: aq_ok_def)
  have same: "aq_ok cfg t \<and> remembered t \<subseteq> remembered s" if "aq_cache t = c" "aq_config t = aq_config s"
    using ask_source(1,2)[OF assms(2) g that] by simp
  have told: "aq_ok cfg t \<and> remembered t \<subseteq> insert (user, now, r) (remembered s)"
    if "aq_cache t = cache_tell user r now c" "aq_config t = aq_config s" for r
  proof -
    have "aq_cache t = cache_tell user r now (aq_cache u)" "aq_config t = aq_config u" using that u by simp_all
    from tell_source[OF asked(1) this] asked(2) show ?thesis by blast
  qed
  note cases = aq_lookup_cases[OF assms(1) g]
  show "aq_ok cfg t" by (rule cases) (use same told in blast)+
  show "(\<exists>at. (user, at, r) \<in> remembered s \<and> now - at \<le> answer_ttl (aqc_cache_ttl cfg) (aqc_negative_ttl cfg) r) \<or>
      (\<exists>k. db_answer C D (aqc_query cfg) k user = Some r)" if "x = Ok r"
    by (rule cases) (use asked(3) that cfg in auto)
  show "e \<in> remembered s \<or> (\<exists>r k. e = (user, now, r) \<and> x = Ok r \<and> db_answer C D (aqc_query cfg) k user = Some r)" if "e \<in> remembered t"
  proof (rule cases)
    fix k r assume "db_answer C D (aqc_query (aq_config s)) k user = Some r" "x = Ok r" "aq_cache t = cache_tell user r now c" "aq_config t = aq_config s"
    then show ?thesis using told[of r] that cfg by blast
  qed (use same that in blast)+
  show "(\<exists>r. x = Ok r) \<or> (\<exists>e. x = Err (Unavailable e) \<and> remembered t \<subseteq> remembered s)"
    by (rule cases) (use same in blast)+
qed

lemma aq_results_sound:
  assumes "aq_ok cfg s" and "remembered s \<subseteq> H" and "i < length calls" and "calls ! i = (user, now)"
    and "aq_results C D calls s ! i = Ok r"
  shows "\<exists>at. now - at \<le> answer_ttl (aqc_cache_ttl cfg) (aqc_negative_ttl cfg) r \<and> ((user, at, r) \<in> H \<or>
    (\<exists>j \<le> i. calls ! j = (user, at) \<and> aq_results C D calls s ! j = Ok r \<and> (\<exists>k. db_answer C D (aqc_query cfg) k user = Some r)))"
  using assms
proof (induction calls arbitrary: s H i)
  case (Cons call calls)
  obtain u0 n0 x t where run: "call = (u0, n0)" "aq_lookup C D n0 u0 s = (x, t)" by (cases call) fastforce
  note step = aq_lookup_sound[OF run(2) Cons.prems(1)]
  have res: "aq_results C D (call # calls) s = x # aq_results C D calls t" using run by simp
  show ?case
  proof (cases i)
    case 0
    then have "u0 = user" "n0 = now" "x = Ok r" using Cons.prems(4,5) run res by auto
    then consider at where "(user, at, r) \<in> H" "now - at \<le> answer_ttl (aqc_cache_ttl cfg) (aqc_negative_ttl cfg) r" | k where "db_answer C D (aqc_query cfg) k user = Some r"
      using step(2)[of r] Cons.prems(2) by blast
    then show ?thesis
    proof cases
      case (2 k)
      then show ?thesis using 0 Cons.prems(4,5) by (intro exI[of _ now]) auto
    qed blast
  next
    case (Suc i')
    let ?H = "H \<union> {e. \<exists>r0 k. e = (u0, n0, r0) \<and> x = Ok r0 \<and> db_answer C D (aqc_query cfg) k u0 = Some r0}"
    have "remembered t \<subseteq> ?H" using step(3) Cons.prems(2) by blast
    from Cons.IH[OF step(1) this, of i'] obtain at where at: "now - at \<le> answer_ttl (aqc_cache_ttl cfg) (aqc_negative_ttl cfg) r"
      "(user, at, r) \<in> ?H \<or> (\<exists>j \<le> i'. calls ! j = (user, at) \<and> aq_results C D calls t ! j = Ok r \<and> (\<exists>k. db_answer C D (aqc_query cfg) k user = Some r))"
      using Cons.prems(3-5) Suc res by auto
    consider "(user, at, r) \<in> H" | "u0 = user" "n0 = at" "x = Ok r" "\<exists>k. db_answer C D (aqc_query cfg) k user = Some r"
      | j where "j \<le> i'" "calls ! j = (user, at)" "aq_results C D calls t ! j = Ok r" "\<exists>k. db_answer C D (aqc_query cfg) k user = Some r"
      using at(2) by blast
    then show ?thesis
    proof cases
      case 2
      then have "(call # calls) ! 0 = (user, at)" "aq_results C D (call # calls) s ! 0 = Ok r" using run(1) res by simp_all
      then show ?thesis using at(1) 2(4) by blast
    next
      case (3 j)
      then have "Suc j \<le> i" "(call # calls) ! Suc j = (user, at)" "aq_results C D (call # calls) s ! Suc j = Ok r"
        using Suc res by simp_all
      then show ?thesis using at(1) 3(4) by blast
    qed (use at(1) in blast)
  qed
qed simp

lemma aq_results_values:
  assumes "aq_ok cfg s" and "i < length calls"
  shows "(\<exists>r. aq_results C D calls s ! i = Ok r) \<or> (\<exists>e. aq_results C D calls s ! i = Err (Unavailable e))"
  using assms
proof (induction calls arbitrary: s i)
  case (Cons call calls)
  obtain u0 n0 x t where run: "call = (u0, n0)" "aq_lookup C D n0 u0 s = (x, t)" by (cases call) fastforce
  show ?case
    using Cons.IH[OF aq_lookup_sound(1)[OF run(2) Cons.prems(1)], of "i - 1"] aq_lookup_sound(4)[OF run(2) Cons.prems(1)]
      Cons.prems(2) run by (cases i) auto
qed simp

text \<open>
  The source never invents an answer and never takes an outage for an unknown user. In any sequence of
  lookups on a new source, a call that returns a verifier or "no such user" repeats what the database itself
  said about this user, in this call or in an earlier one not longer ago than the time to live of that kind
  of answer; every other call fails with \<open>Unavailable\<close>.
\<close>

theorem auth_query_answers_are_the_databases:
  assumes "i < length calls" and "calls ! i = (user, now)"
    and "x = aq_results C D calls (auth_query_source_new config) ! i"
  shows "(\<exists>e. x = Err (Unavailable e)) \<or> (\<exists>r at j. x = Ok r \<and> j \<le> i \<and> calls ! j = (user, at) \<and>
      aq_results C D calls (auth_query_source_new config) ! j = Ok r \<and> (\<exists>k. db_answer C D (aqc_query config) k user = Some r) \<and>
      now - at \<le> answer_ttl (aqc_cache_ttl config) (aqc_negative_ttl config) r)"
proof -
  let ?s = "auth_query_source_new config"
  have new: "aq_ok config ?s" "remembered ?s \<subseteq> {}"
    by (auto simp: aq_ok_def auth_query_source_new_def cache_limits_def remembered_def cache_known_def)
       (simp_all add: cache_with_capacity_def)
  consider r where "x = Ok r" | e where "x = Err (Unavailable e)"
    using aq_results_values[OF new(1) assms(1), of C D] assms(3) by blast
  then show ?thesis
  proof cases
    case (1 r)
    then show ?thesis using aq_results_sound[OF new assms(1,2), of C D r] assms(3) by auto
  qed blast
qed

definition demo_db :: lookup_db where
  "demo_db = \<lparr>db_connect = (\<lambda>_ n. if n = 0 then Some ''connection refused'' else None), db_query = (\<lambda>_ n user. Inr None)\<rparr>"

definition demo_aq_config :: auth_query_config where
  "demo_aq_config = \<lparr>aqc_host = ''127.0.0.1'', aqc_port = 5432, aqc_user = ''lookup'', aqc_password = [], aqc_database = ''postgres'',
     aqc_query = ''SELECT usename, passwd FROM f($1)'', aqc_cache_ttl = DEFAULT_CACHE_TTL, aqc_negative_ttl = NEGATIVE_CACHE_TTL,
     aqc_max_entries = DEFAULT_MAX_ENTRIES\<rparr>"

theorem auth_query_answers_are_the_databases_witness:
  "fst (aq_lookup toy_crypto demo_db 0 ''u'' (auth_query_source_new demo_aq_config)) = Err (Unavailable ''connection refused'') \<and>
   (\<exists>k. db_answer toy_crypto demo_db (aqc_query demo_aq_config) k ''u'' = Some None)"
proof -
  let ?x = "aq_results toy_crypto demo_db [(''u'', 0), (''u'', 3)] (auth_query_source_new demo_aq_config) ! 1"
  have "?x = Ok None"
    by (simp add: aq_lookup_def auth_query_source_new_def on_aq_cache_def cache_get_def cache_with_capacity_def query_backend_def query_client_def answer_row_def
        ensure_connected_def next_use_def demo_db_def bnd_def prog_simps)
  moreover have "fst (aq_lookup toy_crypto demo_db 0 ''u'' (auth_query_source_new demo_aq_config)) = Err (Unavailable ''connection refused'')"
    by (simp add: aq_lookup_def auth_query_source_new_def on_aq_cache_def cache_get_def cache_with_capacity_def query_backend_def query_client_def answer_row_def
        ensure_connected_def next_use_def demo_db_def bnd_def prog_simps)
  ultimately show ?thesis
    using auth_query_answers_are_the_databases[of 1 "[(''u'', 0), (''u'', 3)]" "''u''" 3 ?x toy_crypto demo_db demo_aq_config] by auto
qed

end
