(* ===== verification/Metrics.thy ===== *)
theory Metrics
  imports Rust_Std
begin

section \<open>Credential counters (\<open>auth/credentials/metrics.rs\<close>)\<close>

text \<open>
  The counters of a credential store. They are \<open>AtomicU64\<close>s that wrap around; each update is one atomic
  operation, so a run of the system is a sequence of updates. The text of \<open>gather\<close> is a function of the
  six numbers alone, which is why it cannot carry user names.
\<close>

datatype lookup_result = Hit | Miss | LookupUnavailable

record credential_metrics =
  m_lookup_hit :: u64
  m_lookup_miss :: u64
  m_lookup_unavailable :: u64
  m_reload_ok :: u64
  m_reload_error :: u64
  m_generation :: u64

definition metrics_default :: credential_metrics where
  "metrics_default = \<lparr>m_lookup_hit = 0, m_lookup_miss = 0, m_lookup_unavailable = 0, m_reload_ok = 0,
     m_reload_error = 0, m_generation = 0\<rparr>"

fun record_lookup :: "lookup_result \<Rightarrow> credential_metrics \<Rightarrow> credential_metrics" where
  "record_lookup Hit m = m\<lparr>m_lookup_hit := m_lookup_hit m + 1\<rparr>"
| "record_lookup Miss m = m\<lparr>m_lookup_miss := m_lookup_miss m + 1\<rparr>"
| "record_lookup LookupUnavailable m = m\<lparr>m_lookup_unavailable := m_lookup_unavailable m + 1\<rparr>"

definition record_reload :: "bool \<Rightarrow> credential_metrics \<Rightarrow> credential_metrics" where
  "record_reload succeeded m =
     (if succeeded then m\<lparr>m_reload_ok := m_reload_ok m + 1\<rparr> else m\<lparr>m_reload_error := m_reload_error m + 1\<rparr>)"

definition metrics_set_generation :: "u64 \<Rightarrow> credential_metrics \<Rightarrow> credential_metrics" where
  "metrics_set_generation g m = m\<lparr>m_generation := g\<rparr>"

definition show_u64 :: "u64 \<Rightarrow> string" where
  "show_u64 w = show_nat (unat w)"

definition newline :: string where
  "newline = [CHR 0x0A]"

definition metrics_gather :: "credential_metrics \<Rightarrow> string" where
  "metrics_gather m =
     ''# TYPE credentials_lookup_total counter'' @ newline
     @ ''credentials_lookup_total{result=\"hit\"} '' @ show_u64 (m_lookup_hit m) @ newline
     @ ''credentials_lookup_total{result=\"miss\"} '' @ show_u64 (m_lookup_miss m) @ newline
     @ ''credentials_lookup_total{result=\"unavailable\"} '' @ show_u64 (m_lookup_unavailable m) @ newline
     @ ''# TYPE credentials_reload_total counter'' @ newline
     @ ''credentials_reload_total{result=\"ok\"} '' @ show_u64 (m_reload_ok m) @ newline
     @ ''credentials_reload_total{result=\"error\"} '' @ show_u64 (m_reload_error m) @ newline
     @ ''# TYPE credentials_generation gauge'' @ newline
     @ ''credentials_generation '' @ show_u64 (m_generation m) @ newline"

fun lookup_result_debug :: "lookup_result \<Rightarrow> string" where
  "lookup_result_debug Hit = ''hit''"
| "lookup_result_debug Miss = ''miss''"
| "lookup_result_debug LookupUnavailable = ''unavailable''"

end
