(* ===== verification/Config.thy ===== *)
theory Config
  imports Config_Report Conn_Slots
begin

section \<open>Configuration (\<open>proxy/config.rs\<close>)\<close>

text \<open>
  The startup-relevant part of \<open>wirechaos.yaml\<close> after deserialisation. \<open>serde_yaml\<close> is a library, so
  \<open>Config::from_yaml\<close> itself is not modelled; the records, their defaults and the functions that
  interpret them are. Durations are in milliseconds. The two policy enumerations are ordered by
  strictness, which makes "a stricter mode" a statement of the library's \<open>linorder\<close>. The
  credentials block is a type variable, filled in by the credential theories.
\<close>

datatype backend_tls_mode = TlsDisable | TlsPrefer | TlsRequire | TlsVerifyFull

datatype channel_binding_mode = CbDisable | CbPrefer | CbRequire

fun tls_rank :: "backend_tls_mode \<Rightarrow> nat" where
  "tls_rank TlsDisable = 0"
| "tls_rank TlsPrefer = 1"
| "tls_rank TlsRequire = 2"
| "tls_rank TlsVerifyFull = 3"

fun cb_rank :: "channel_binding_mode \<Rightarrow> nat" where
  "cb_rank CbDisable = 0"
| "cb_rank CbPrefer = 1"
| "cb_rank CbRequire = 2"

lemma tls_rank_inj: "tls_rank a = tls_rank b \<longleftrightarrow> a = b"
  by (cases a; cases b) simp_all

lemma cb_rank_inj: "cb_rank a = cb_rank b \<longleftrightarrow> a = b"
  by (cases a; cases b) simp_all

instantiation backend_tls_mode :: linorder
begin

definition less_eq_backend_tls_mode :: "backend_tls_mode \<Rightarrow> backend_tls_mode \<Rightarrow> bool" where
  "less_eq_backend_tls_mode a b \<longleftrightarrow> tls_rank a \<le> tls_rank b"

definition less_backend_tls_mode :: "backend_tls_mode \<Rightarrow> backend_tls_mode \<Rightarrow> bool" where
  "less_backend_tls_mode a b \<longleftrightarrow> tls_rank a < tls_rank b"

instance
  by standard
     (auto simp: less_eq_backend_tls_mode_def less_backend_tls_mode_def tls_rank_inj[symmetric])

end

instantiation channel_binding_mode :: linorder
begin

definition less_eq_channel_binding_mode :: "channel_binding_mode \<Rightarrow> channel_binding_mode \<Rightarrow> bool" where
  "less_eq_channel_binding_mode a b \<longleftrightarrow> cb_rank a \<le> cb_rank b"

definition less_channel_binding_mode :: "channel_binding_mode \<Rightarrow> channel_binding_mode \<Rightarrow> bool" where
  "less_channel_binding_mode a b \<longleftrightarrow> cb_rank a < cb_rank b"

instance
  by standard
     (auto simp: less_eq_channel_binding_mode_def less_channel_binding_mode_def cb_rank_inj[symmetric])

end

record backend_tls_config =
  tls_mode :: backend_tls_mode
  root_cert_file :: "string option"
  channel_binding :: channel_binding_mode
  tls_config_domain :: "string option"

record backend_config =
  address :: string
  connect_timeout_ms :: u64
  startup_timeout_ms :: u64
  backend_tls :: backend_tls_config
  legacy_tls_domain :: "string option"

record limits_config =
  max_connections :: u32
  authentication_timeout_ms :: u64
  max_startup_bytes :: nat
  max_message_size :: nat
  idle_timeout_ms :: u64

record 'c config =
  listen_frontend :: string
  limits :: limits_config
  credentials :: 'c
  backend :: backend_config

definition default_tls_config :: backend_tls_config where
  "default_tls_config = \<lparr>tls_mode = TlsPrefer, root_cert_file = None, channel_binding = CbPrefer,
     tls_config_domain = None\<rparr>"

definition default_backend_config :: backend_config where
  "default_backend_config = \<lparr>address = ''127.0.0.1:5432'', connect_timeout_ms = 2000,
     startup_timeout_ms = 5000, backend_tls = default_tls_config, legacy_tls_domain = None\<rparr>"

definition default_limits :: limits_config where
  "default_limits = \<lparr>max_connections = DEFAULT_MAX_CONNECTIONS, authentication_timeout_ms = 60000,
     max_startup_bytes = 10000, max_message_size = 2 ^ 30, idle_timeout_ms = 0\<rparr>"

definition default_config :: "'c \<Rightarrow> 'c config" where
  "default_config c = \<lparr>listen_frontend = ''127.0.0.1:6432'', limits = default_limits,
     credentials = c, backend = default_backend_config\<rparr>"

text \<open>\<open>Duration\<close>s are in milliseconds.\<close>

definition backend_connect_timeout :: "backend_config \<Rightarrow> u64" where
  [simp]: "backend_connect_timeout b = connect_timeout_ms b"

definition backend_startup_timeout :: "backend_config \<Rightarrow> u64" where
  [simp]: "backend_startup_timeout b = startup_timeout_ms b"

definition tls_server_name :: "backend_config \<Rightarrow> string \<Rightarrow> string option" where
  "tls_server_name b host =
     (case tls_config_domain (backend_tls b) of
        Some d \<Rightarrow> Some d
      | None \<Rightarrow> (case legacy_tls_domain b of Some d \<Rightarrow> Some d | None \<Rightarrow> Some host))"

definition backend_address_error :: config_error where
  "backend_address_error = config_error_single ''backend.address'' ''must be a host:port socket address''"

definition backend_host_port :: "'c config \<Rightarrow> config_error + string \<times> u16" where
  "backend_host_port cfg =
     and_then (ok_or (rsplit_once (CHR '':'') (address (backend cfg))) backend_address_error) (\<lambda>(host, port).
       if host = [] then Inl backend_address_error
       else and_then (ok_or (parse_u16 port) backend_address_error) (\<lambda>port. Inr (host, port)))"

text \<open>\<open>SocketAddr::from_str\<close> is the parameter \<open>parse_addr\<close>.\<close>

definition frontend_addr :: "(string \<Rightarrow> 'a option) \<Rightarrow> 'c config \<Rightarrow> config_error + 'a" where
  "frontend_addr parse_addr cfg =
     ok_or (parse_addr (listen_frontend cfg))
       (config_error_single ''listen.frontend'' ''must be a host:port socket address'')"

definition show_u16 :: "u16 \<Rightarrow> string" where
  "show_u16 w = show_nat (unat w)"

lemma parse_u16_show_u16 [simp]: "parse_u16 (show_u16 w) = Some w"
  using unsigned_less[of w, where 'a = nat]
  by (simp add: parse_u16_def show_u16_def parse_unsigned_show_nat)

lemma show_u16_free: "CHR '':'' \<notin> set (show_u16 w)"
  by (auto simp: show_u16_def is_digit_def dest!: show_nat_digits)

text \<open>
  \<open>host:port\<close> is read back exactly for every non-empty host, hosts with colons (IPv6) included,
  and every port; and an accepted address always has a non-empty host and the text of a port after
  its last colon.
\<close>

theorem backend_address_round_trip:
  assumes "host \<noteq> []"
  shows "backend_host_port (cfg\<lparr>backend := (backend cfg)\<lparr>address := host @ '':'' @ show_u16 port\<rparr>\<rparr>) = Inr (host, port) \<and>
    (\<forall>h p. backend_host_port cfg = Inr (h, p) \<longrightarrow>
       h \<noteq> [] \<and> (\<exists>t. address (backend cfg) = h @ '':'' @ t \<and> CHR '':'' \<notin> set t \<and> parse_u16 t = Some p))"
proof -
  have "rsplit_once (CHR '':'') (host @ '':'' @ show_u16 port) = Some (host, show_u16 port)"
    by (simp add: rsplit_once_Some show_u16_free)
  then show ?thesis
    using assms by (auto simp: backend_host_port_def sum_Inr rsplit_once_Some split: if_splits)
qed

theorem backend_address_round_trip_witness:
  "backend_host_port ((default_config ())\<lparr>backend := default_backend_config\<lparr>address := ''::1:5432''\<rparr>\<rparr>) = Inr (''::1'', 5432)"
proof -
  have "show_u16 5432 = ''5432''"
    by (simp add: show_u16_def show_nat.simps digit_char_def) code_simp
  then show ?thesis
    using backend_address_round_trip[where host = "''::1''" and cfg = "default_config ()" and port = 5432]
    by (simp add: default_config_def)
qed

end
