(* ===== verification/Backend_Policy.thy ===== *)
theory Backend_Policy
  imports Config Crypto Errors
begin

section \<open>Policies of the backend link (\<open>proxy/backend/mod.rs\<close>)\<close>

text \<open>
  The two policy tables of the proxy's client role, how \<open>backend.tls.mode\<close> judges the reply to an
  \<open>SSLRequest\<close> and which SASL mechanism \<open>channel_binding\<close> selects, with the mechanism-list parser
  and the MD5 response.
\<close>

definition md5_response :: "crypto \<Rightarrow> string \<Rightarrow> bytes \<Rightarrow> bytes \<Rightarrow> string" where
  "md5_response C user password salt =
     (let inner = md5_hex C (password @ as_bytes user) in
      ''md5'' @ md5_hex C (as_bytes inner @ salt))"

datatype sasl_mechanism = ScramSha256 | ScramSha256Plus

fun mechanism_name :: "sasl_mechanism \<Rightarrow> string" where
  "mechanism_name ScramSha256 = ''SCRAM-SHA-256''"
| "mechanism_name ScramSha256Plus = ''SCRAM-SHA-256-PLUS''"

definition mechanism_of_name :: "bytes \<Rightarrow> sasl_mechanism option" where
  "mechanism_of_name name =
     (if name = as_bytes ''SCRAM-SHA-256'' then Some ScramSha256
      else if name = as_bytes ''SCRAM-SHA-256-PLUS'' then Some ScramSha256Plus
      else None)"

definition parse_sasl_mechanisms :: "bytes \<Rightarrow> sasl_mechanism list" where
  "parse_sasl_mechanisms body = List.map_filter mechanism_of_name (split_on 0 body)"

datatype ssl_reply = NotRequested | SslNo | SslYes

datatype tls_outcome = Plaintext | Tls bool | TlsFail

fun decide_tls :: "backend_tls_mode \<Rightarrow> ssl_reply \<Rightarrow> tls_outcome" where
  "decide_tls TlsDisable NotRequested = Plaintext"
| "decide_tls TlsPrefer NotRequested = Plaintext"
| "decide_tls TlsPrefer SslNo = Plaintext"
| "decide_tls TlsPrefer SslYes = Tls False"
| "decide_tls TlsRequire SslYes = Tls False"
| "decide_tls TlsVerifyFull SslYes = Tls True"
| "decide_tls TlsRequire SslNo = TlsFail"
| "decide_tls TlsRequire NotRequested = TlsFail"
| "decide_tls TlsVerifyFull SslNo = TlsFail"
| "decide_tls TlsVerifyFull NotRequested = TlsFail"
| "decide_tls TlsDisable SslNo = TlsFail"
| "decide_tls TlsDisable SslYes = TlsFail"

definition select_mechanism ::
    "channel_binding_mode \<Rightarrow> bool \<Rightarrow> sasl_mechanism list \<Rightarrow> pg_error + sasl_mechanism" where
  "select_mechanism mode channel_binding_available offered =
     (let plus_offered = ScramSha256Plus \<in> set offered; plain_offered = ScramSha256 \<in> set offered in
      case mode of
        CbDisable \<Rightarrow>
          if plain_offered then Inr ScramSha256
          else Inl (PgUnsupportedAuth ''backend requires channel binding, but channel_binding is disabled'')
      | CbPrefer \<Rightarrow>
          if plus_offered \<and> channel_binding_available then Inr ScramSha256Plus
          else if plain_offered then Inr ScramSha256
          else Inl (PgUnsupportedAuth ''backend offered no SCRAM-SHA-256 mechanism the proxy can use'')
      | CbRequire \<Rightarrow>
          if \<not> channel_binding_available then
            Inl (PgChannelBindingRequired ''the backend connection is not TLS or its certificate has no defined tls-server-end-point hash'')
          else if plus_offered then Inr ScramSha256Plus
          else Inl (PgChannelBindingRequired ''the backend does not offer SCRAM-SHA-256-PLUS''))"

subsection \<open>Lemmas\<close>

text \<open>The list as a server writes it: names that end in a NUL, and a final NUL.\<close>

definition mechanism_list :: "sasl_mechanism list \<Rightarrow> bytes" where
  "mechanism_list ms = concat (map (\<lambda>m. as_bytes (mechanism_name m) @ [0]) ms) @ [0]"

lemma mechanism_of_name_name [simp]: "mechanism_of_name (as_bytes (mechanism_name m)) = Some m"
  by (cases m) (simp_all add: mechanism_of_name_def del: as_bytes_simps)

lemma mechanism_name_no_nul: "0 \<notin> set (as_bytes (mechanism_name m))"
  by (cases m) (simp_all add: zero_in_as_bytes del: as_bytes_simps)

lemma mechanism_of_name_Nil [simp]: "mechanism_of_name [] = None"
  by (simp add: mechanism_of_name_def)

lemma split_mechanism_list:
  "split_on 0 (mechanism_list ms) = map (as_bytes \<circ> mechanism_name) ms @ [[], []]"
  by (induction ms) (simp_all add: mechanism_list_def split_on_append mechanism_name_no_nul)

lemma parse_mechanism_list: "parse_sasl_mechanisms (mechanism_list ms) = ms"
proof -
  have "List.map_filter mechanism_of_name (map (as_bytes \<circ> mechanism_name) ms @ xs) =
      ms @ List.map_filter mechanism_of_name xs" for xs
    by (induction ms) (simp_all add: List.map_filter_def)
  then show ?thesis
    by (simp add: parse_sasl_mechanisms_def split_mechanism_list List.map_filter_def)
qed

fun tls_strength :: "tls_outcome \<Rightarrow> nat" where
  "tls_strength Plaintext = 0"
| "tls_strength (Tls verify_host) = (if verify_host then 2 else 1)"
| "tls_strength TlsFail = 3"

subsection \<open>Properties\<close>

text \<open>
  The TLS table is monotone: of the modes that ask the backend for TLS, a stricter one never
  ends with a weaker link for the same reply (failing counts as strongest), no mode ever ends in
  TLS the backend did not agree to, and only \<open>disable\<close> and \<open>prefer\<close> ever allow plaintext.
\<close>

theorem stricter_tls_mode_is_not_weaker:
  assumes "TlsPrefer \<le> m" and "m \<le> m'"
  shows "tls_strength (decide_tls m reply) \<le> tls_strength (decide_tls m' reply) \<and>
         (decide_tls m reply = Tls v \<longrightarrow> reply = SslYes) \<and>
         (decide_tls m' reply = Plaintext \<longrightarrow> m' = TlsPrefer)"
  using assms
  by (cases m; cases m'; cases reply) (simp_all add: less_eq_backend_tls_mode_def)

theorem stricter_tls_mode_is_not_weaker_witness:
  "tls_strength (decide_tls TlsPrefer SslNo) \<le> tls_strength (decide_tls TlsVerifyFull SslNo)"
  using stricter_tls_mode_is_not_weaker[of TlsPrefer TlsVerifyFull SslNo False]
  by (simp add: less_eq_backend_tls_mode_def)

text \<open>
  Mechanism selection. The mechanism chosen was offered; \<open>-PLUS\<close> is chosen only when the link can
  be bound and the policy allows it, always under \<open>require\<close>, and under \<open>prefer\<close> whenever it is
  offered and can be bound. A policy step towards \<open>require\<close> never turns \<open>-PLUS\<close> into plain SCRAM.
\<close>

theorem mechanism_selection_follows_the_policy:
  assumes "select_mechanism mode available offered = Inr chosen"
  shows "chosen \<in> set offered \<and> (chosen = ScramSha256Plus \<longrightarrow> available \<and> mode \<noteq> CbDisable) \<and>
         (mode = CbRequire \<longrightarrow> chosen = ScramSha256Plus) \<and>
         (mode = CbPrefer \<and> available \<and> ScramSha256Plus \<in> set offered \<longrightarrow> chosen = ScramSha256Plus) \<and>
         (\<forall>mode' chosen'. mode \<le> mode' \<longrightarrow> select_mechanism mode' available offered = Inr chosen' \<longrightarrow>
            chosen = ScramSha256Plus \<longrightarrow> chosen' = ScramSha256Plus)"
proof (intro conjI allI impI)
  show "chosen \<in> set offered"
    using assms by (auto simp: select_mechanism_def Let_def split: channel_binding_mode.splits if_splits)
  show "mode = CbRequire \<Longrightarrow> chosen = ScramSha256Plus"
    and "mode = CbPrefer \<and> available \<and> ScramSha256Plus \<in> set offered \<Longrightarrow> chosen = ScramSha256Plus"
    and "chosen = ScramSha256Plus \<Longrightarrow> available"
    and "chosen = ScramSha256Plus \<Longrightarrow> mode \<noteq> CbDisable"
    using assms by (auto simp: select_mechanism_def Let_def split: channel_binding_mode.splits if_splits)
  fix mode' chosen'
  assume "mode \<le> mode'" "select_mechanism mode' available offered = Inr chosen'" "chosen = ScramSha256Plus"
  then show "chosen' = ScramSha256Plus"
    using assms
    by (cases mode; cases mode')
       (auto simp: select_mechanism_def less_eq_channel_binding_mode_def split: if_splits)
qed

theorem mechanism_selection_follows_the_policy_witness:
  "ScramSha256Plus \<in> set (parse_sasl_mechanisms (mechanism_list [ScramSha256Plus, ScramSha256]))"
  using mechanism_selection_follows_the_policy[of CbRequire True
      "parse_sasl_mechanisms (mechanism_list [ScramSha256Plus, ScramSha256])" ScramSha256Plus]
  by (simp add: parse_mechanism_list select_mechanism_def)

end
