(* ===== verification/Cert_Hash.thy ===== *)
theory Cert_Hash
  imports Crypto
begin

section \<open>Certificate hashes (\<open>proxy/tls.rs\<close>)\<close>

text \<open>
  The \<open>tls-server-end-point\<close> channel binding of RFC 5929: the hash function follows the signature
  algorithm of the leaf certificate, and the digest is over the certificate's DER bytes. Parsing
  the DER is the \<open>x509-parser\<close> crate, here the field \<open>x509_signature_oid\<close> of the parameter record.
\<close>

datatype hash_algorithm = Sha256 | Sha384 | Sha512

record cert_hash =
  hash_alg :: hash_algorithm
  digest :: bytes

datatype cert_hash_error = Malformed

definition TLS_SERVER_END_POINT_HEADER :: bytes where
  "TLS_SERVER_END_POINT_HEADER = as_bytes ''p=tls-server-end-point,,''"

definition hash_algorithm_for_oid_str :: "string \<Rightarrow> hash_algorithm option" where
  "hash_algorithm_for_oid_str oid =
     (if oid \<in> set [''1.2.840.113549.1.1.4'', ''1.2.840.113549.1.1.5'', ''1.2.840.10045.4.1'',
                    ''1.2.840.10040.4.3'', ''1.2.840.113549.1.1.11'', ''1.2.840.10045.4.3.2'',
                    ''2.16.840.1.101.3.4.3.2''] then Some Sha256
      else if oid \<in> set [''1.2.840.113549.1.1.12'', ''1.2.840.10045.4.3.3''] then Some Sha384
      else if oid \<in> set [''1.2.840.113549.1.1.13'', ''1.2.840.10045.4.3.4''] then Some Sha512
      else None)"

definition cert_hash_new :: "crypto \<Rightarrow> bytes \<Rightarrow> cert_hash_error + cert_hash option" where
  "cert_hash_new C der =
     (case x509_signature_oid C der of
        None \<Rightarrow> Inl Malformed
      | Some oid \<Rightarrow>
          (case hash_algorithm_for_oid_str oid of
             None \<Rightarrow> Inr None
           | Some alg \<Rightarrow>
               Inr (Some \<lparr>hash_alg = alg,
                 digest = (case alg of Sha256 \<Rightarrow> sha256 C der | Sha384 \<Rightarrow> sha384 C der
                           | Sha512 \<Rightarrow> sha512 C der)\<rparr>)))"

definition cbind_input :: "cert_hash \<Rightarrow> bytes" where
  "cbind_input h = TLS_SERVER_END_POINT_HEADER @ digest h"

definition expected_c :: "crypto \<Rightarrow> cert_hash \<Rightarrow> string" where
  "expected_c C h = b64_encode C (cbind_input h)"

fun alg_size :: "hash_algorithm \<Rightarrow> nat" where
  "alg_size Sha256 = 32"
| "alg_size Sha384 = 48"
| "alg_size Sha512 = 64"

lemma expected_c_inj: "crypto_laws C \<Longrightarrow> expected_c C h = expected_c C h' \<longleftrightarrow> digest h = digest h'"
  by (simp add: expected_c_def cbind_input_def)

lemma expected_c_decode:
  "crypto_laws C \<Longrightarrow> b64_decode C (expected_c C h) = Some (TLS_SERVER_END_POINT_HEADER @ digest h)"
  by (simp add: expected_c_def cbind_input_def)

text \<open>
  A certificate gets a channel-binding hash exactly when its DER parses and its signature
  algorithm selects one hash function; the digest then has that function's length, and two
  certificates have the same \<open>c=\<close> value only if their digests are equal.
\<close>

theorem channel_binding_identifies_the_certificate:
  assumes "crypto_laws C" and "cert_hash_new C der = Inr (Some h)"
    and "cert_hash_new C der' = Inr (Some h')"
  shows "length (digest h) = alg_size (hash_alg h) \<and>
         (expected_c C h = expected_c C h' \<longleftrightarrow> digest h = digest h') \<and>
         (expected_c C h = expected_c C h' \<longrightarrow> hash_alg h = hash_alg h')"
proof -
  have len: "cert_hash_new C d = Inr (Some k) \<Longrightarrow> length (digest k) = alg_size (hash_alg k)" for d k
    using assms(1)
    by (auto simp: cert_hash_new_def split: option.splits hash_algorithm.splits if_splits)
  have "alg_size a = alg_size b \<Longrightarrow> a = b" for a b
    by (cases a; cases b) simp_all
  then show ?thesis
    using len[OF assms(2)] len[OF assms(3)] assms(1) by (auto simp: expected_c_inj)
qed

theorem channel_binding_identifies_the_certificate_witness:
  "let h = \<lparr>hash_alg = Sha256, digest = fit 32 [48, 3]\<rparr>; h' = \<lparr>hash_alg = Sha256, digest = fit 32 [48, 4]\<rparr> in
   length (digest h) = alg_size (hash_alg h) \<and>
   (expected_c toy_crypto h = expected_c toy_crypto h' \<longleftrightarrow> digest h = digest h') \<and>
   (expected_c toy_crypto h = expected_c toy_crypto h' \<longrightarrow> hash_alg h = hash_alg h')"
  unfolding Let_def
  by (rule channel_binding_identifies_the_certificate[OF toy_crypto_laws, of "[48, 3]" _ "[48, 4]"])
     (simp_all add: cert_hash_new_def toy_crypto_def hash_algorithm_for_oid_str_def)

end
