(* ===== verification/Pg_Link.thy ===== *)
theory Pg_Link
  imports Backend_Policy Cert_Hash
begin

section \<open>The link to the backend (\<open>backend/timeout_stream.rs\<close>, TLS part of \<open>backend/pg_client.rs\<close>)\<close>

text \<open>
  A \<open>link\<close> is one TCP or TLS connection as the proxy sees it: the bytes that arrive before the
  deadline of the read that waits for them, whether the peer then closes or falls silent, the
  writes that went out, and how many more the peer takes. Quantifying over links covers every
  peer, whatever it bases its bytes on. The network, the file system and \<open>rustls\<close> are the fields
  of the parameter record \<open>net\<close>.
\<close>

datatype link_fault = Silent | IoFault io_kind

record link =
  lk_rx :: bytes
  lk_eof :: bool
  lk_tx :: "bytes list"
  lk_left :: "nat option"

definition link_read :: "nat \<Rightarrow> (link, bytes, link_fault) prog" where
  "link_read n l =
     (if n \<le> length (lk_rx l) then (Ok (take n (lk_rx l)), l\<lparr>lk_rx := drop n (lk_rx l)\<rparr>)
      else (Err (if lk_eof l then IoFault UnexpectedEof else Silent), l\<lparr>lk_rx := []\<rparr>))"

definition link_write :: "bytes \<Rightarrow> (link, unit, link_fault) prog" where
  "link_write bs l =
     (case lk_left l of
        None \<Rightarrow> (Ok (), l\<lparr>lk_tx := lk_tx l @ [bs]\<rparr>)
      | Some 0 \<Rightarrow> (Err (if lk_eof l then IoFault BrokenPipe else Silent), l)
      | Some (Suc n) \<Rightarrow> (Ok (), l\<lparr>lk_tx := lk_tx l @ [bs], lk_left := Some n\<rparr>))"

text \<open>\<open>TimeoutStream\<close>: an elapsed deadline is \<open>StartupTimeout\<close>, an I/O error is \<open>Io\<close>.\<close>

fun stream_error :: "link_fault \<Rightarrow> pg_error" where
  "stream_error Silent = PgStartupTimeout"
| "stream_error (IoFault k) = PgIo k"

definition ts_read_exact :: "nat \<Rightarrow> (link, bytes, pg_error) prog" where
  "ts_read_exact n = map_err stream_error (link_read n)"

definition ts_write_all :: "bytes \<Rightarrow> (link, unit, pg_error) prog" where
  "ts_write_all bs = map_err stream_error (link_write bs)"

subsection \<open>Configuration of one backend connection\<close>

record pg_config =
  cf_client_key :: "bytes option"
  cf_server_key :: "bytes option"
  cf_stored_key :: "bytes option"
  cf_password :: "bytes option"
  cf_user :: string
  cf_database :: string
  cf_connect_timeout :: u64
  cf_startup_timeout :: u64
  cf_host :: string
  cf_port :: u16
  cf_tls :: backend_tls_config
  cf_salt :: bytes
  cf_iterations :: u32
  cf_startup_params :: "(string \<times> string) list"

definition pg_config_new :: "bytes option \<Rightarrow> bytes option \<Rightarrow> bytes option \<Rightarrow> bytes option \<Rightarrow> string \<Rightarrow> string \<Rightarrow> u64 \<Rightarrow> u64 \<Rightarrow> string \<Rightarrow> u16 \<Rightarrow>
    backend_tls_config \<Rightarrow> bytes \<Rightarrow> u32 \<Rightarrow> (string \<times> string) list \<Rightarrow> pg_config" where
  [simp]: "pg_config_new client_key server_key stored_key password user database connect_timeout startup_timeout host port tls salt
       iterations startup_params =
     \<lparr>cf_client_key = client_key, cf_server_key = server_key, cf_stored_key = stored_key, cf_password = password, cf_user = user,
      cf_database = database, cf_connect_timeout = connect_timeout, cf_startup_timeout = startup_timeout, cf_host = host,
      cf_port = port, cf_tls = tls, cf_salt = salt, cf_iterations = iterations, cf_startup_params = startup_params\<rparr>"

definition cf_server_name :: "pg_config \<Rightarrow> string option" where
  "cf_server_name cfg =
     (case tls_config_domain (cf_tls cfg) of Some d \<Rightarrow> Some d | None \<Rightarrow> Some (cf_host cfg))"

subsection \<open>Trust roots and certificate verification\<close>

datatype root_store = WebPkiRoots | FileRoots "bytes list"

datatype tls_verification =
    NoCertificateVerification
  | ChainOnlyVerification root_store
  | FullVerification root_store

record net =
  net_connect :: "string \<Rightarrow> link_fault + link"
  net_server_name_ok :: "string \<Rightarrow> bool"
  net_protocol_error :: "string option"
  net_read_file :: "string \<Rightarrow> string + bytes"
  net_pem_certs :: "bytes \<Rightarrow> (string + bytes) list"
  net_add_root :: "bytes \<Rightarrow> string option"
  net_parse_cert :: "bytes \<Rightarrow> string option"
  net_chain_error :: "root_store \<Rightarrow> bytes \<Rightarrow> bytes list \<Rightarrow> string option"
  net_tls_connect :: "tls_verification \<Rightarrow> string \<Rightarrow> link \<Rightarrow> link_fault + link \<times> bytes list option"
  net_debug_str :: "string \<Rightarrow> string"
  net_debug_byte :: "u8 \<Rightarrow> string"

fun load_roots :: "net \<Rightarrow> string \<Rightarrow> (string + bytes) list \<Rightarrow> bytes list \<Rightarrow> pg_error + bytes list" where
  "load_roots N path [] roots = Inr roots"
| "load_roots N path (Inl error # certs) roots =
     Inl (PgTls (''invalid certificate in backend.tls.root_cert_file '' @ path @ '': '' @ error))"
| "load_roots N path (Inr cert # certs) roots =
     (case net_add_root N cert of
        Some error \<Rightarrow>
          Inl (PgTls (''unusable certificate in backend.tls.root_cert_file '' @ path @ '': '' @ error))
      | None \<Rightarrow> load_roots N path certs (roots @ [cert]))"

definition load_root_store :: "net \<Rightarrow> pg_config \<Rightarrow> pg_error + root_store" where
  "load_root_store N cfg =
     (case root_cert_file (cf_tls cfg) of
        None \<Rightarrow> Inr WebPkiRoots
      | Some path \<Rightarrow>
          (case net_read_file N path of
             Inl error \<Rightarrow> Inl (PgTls (''cannot read backend.tls.root_cert_file '' @ path @ '': '' @ error))
           | Inr pem \<Rightarrow>
               and_then (load_roots N path (net_pem_certs N pem) []) (\<lambda>roots.
                 if roots = [] then
                   Inl (PgTls (''backend.tls.root_cert_file '' @ path @ '' contains no certificates''))
                 else Inr (FileRoots roots))))"

definition build_tls_config :: "net \<Rightarrow> pg_config \<Rightarrow> pg_error + tls_verification" where
  "build_tls_config N cfg =
     (case net_protocol_error N of
        Some error \<Rightarrow> Inl (PgTls (''invalid TLS protocol configuration: '' @ error))
      | None \<Rightarrow>
          (case tls_mode (cf_tls cfg) of
             TlsDisable \<Rightarrow> Inl (PgTls ''TLS was requested but backend.tls.mode is disable'')
           | TlsPrefer \<Rightarrow> Inr NoCertificateVerification
           | TlsRequire \<Rightarrow> and_then (load_root_store N cfg) (\<lambda>roots. Inr (ChainOnlyVerification roots))
           | TlsVerifyFull \<Rightarrow> and_then (load_root_store N cfg) (\<lambda>roots. Inr (FullVerification roots))))"

text \<open>The two \<open>ServerCertVerifier\<close> implementations of the source; \<open>None\<close> accepts.\<close>

definition no_certificate_verification :: "bytes \<Rightarrow> bytes list \<Rightarrow> string \<Rightarrow> string option" where
  "no_certificate_verification end_entity intermediates server_name = None"

definition chain_only_verification ::
    "net \<Rightarrow> root_store \<Rightarrow> bytes \<Rightarrow> bytes list \<Rightarrow> string \<Rightarrow> string option" where
  "chain_only_verification N roots end_entity intermediates server_name =
     (case net_parse_cert N end_entity of
        Some error \<Rightarrow> Some error
      | None \<Rightarrow> net_chain_error N roots end_entity intermediates)"

subsection \<open>\<open>try_tls\<close>\<close>

definition SSL_REQUEST_CODE :: u32 where
  "SSL_REQUEST_CODE = push_bit 16 1234 OR 5679"

fun tls_fault :: "link_fault \<Rightarrow> pg_error" where
  "tls_fault Silent = PgTlsTimeout"
| "tls_fault (IoFault k) = PgIo k"

definition ssl_request :: "(link, bool, link_fault) prog" where
  "ssl_request =
     andthen (link_write (to_be32 8)) (
     andthen (link_write (to_be32 SSL_REQUEST_CODE)) (
     bnd (link_read 1) (\<lambda>reply. ret (reply = [0x53]))))"

definition leaf_cert_hash :: "crypto \<Rightarrow> bytes list option \<Rightarrow> cert_hash option" where
  "leaf_cert_hash C chain =
     (case chain of
        Some (leaf # _) \<Rightarrow> (case cert_hash_new C leaf of Inr h \<Rightarrow> h | Inl _ \<Rightarrow> None)
      | _ \<Rightarrow> None)"

definition after_ssl_reply :: "crypto \<Rightarrow> net \<Rightarrow> pg_config \<Rightarrow> bool \<Rightarrow> (link, cert_hash option, pg_error) prog" where
  "after_ssl_reply C N cfg server_supports_tls =
     (if \<not> server_supports_tls then
        (case tls_mode (cf_tls cfg) of
           TlsPrefer \<Rightarrow> ret None
         | TlsDisable \<Rightarrow> ret None
         | _ \<Rightarrow> throw (PgTls ''backend does not support TLS, but the configured tls mode requires it''))
      else
        bnd (of_opt
           (PgTls (''invalid backend TLS server name for '' @
             (case cf_server_name cfg of None \<Rightarrow> ''None''
              | Some n \<Rightarrow> ''Some('' @ net_debug_str N n @ '')'')))
           (case cf_server_name cfg of None \<Rightarrow> None
            | Some n \<Rightarrow> if net_server_name_ok N n then Some n else None)) (\<lambda>server_name.
        bnd (of_sum (build_tls_config N cfg)) (\<lambda>verification.
        bnd (gets id) (\<lambda>l.
        case net_tls_connect N verification server_name l of
          Inl fault \<Rightarrow> throw (tls_fault fault)
        | Inr (l', chain) \<Rightarrow> andthen (modify (\<lambda>_. l')) (ret (leaf_cert_hash C chain))))))"

definition try_tls :: "crypto \<Rightarrow> net \<Rightarrow> pg_config \<Rightarrow> (link, cert_hash option, pg_error) prog" where
  "try_tls C N cfg =
     (if tls_mode (cf_tls cfg) = TlsDisable then ret None
      else bnd (map_err tls_fault ssl_request) (after_ssl_reply C N cfg))"

subsection \<open>Lemmas\<close>

fun checks_host :: "tls_verification \<Rightarrow> bool" where
  "checks_host (FullVerification _) = True"
| "checks_host _ = False"

fun checks_chain :: "tls_verification \<Rightarrow> bool" where
  "checks_chain NoCertificateVerification = False"
| "checks_chain _ = True"

lemma load_roots_Inr: "load_roots N path certs roots = Inr rs \<Longrightarrow> length rs = length roots + length certs"
  by (induction N path certs roots rule: load_roots.induct) (auto split: option.splits)

lemma load_root_store_Inr:
  "load_root_store N cfg = Inr (FileRoots rs) \<Longrightarrow> rs \<noteq> []"
  by (auto simp: load_root_store_def sum_Inr split: option.splits sum.splits if_splits)

lemma build_tls_config_Inr:
  "build_tls_config N cfg = Inr v \<Longrightarrow>
     checks_host v = (tls_mode (cf_tls cfg) = TlsVerifyFull) \<and>
     checks_chain v = (TlsRequire \<le> tls_mode (cf_tls cfg))"
  by (auto simp: build_tls_config_def sum_Inr less_eq_backend_tls_mode_def
      split: option.splits backend_tls_mode.splits)

lemma link_read_rx:
  "link_read n l = (r, l') \<Longrightarrow> length (lk_rx l') \<le> length (lk_rx l) \<and>
     (\<forall>bs. r = Ok bs \<longrightarrow> length bs = n \<and> lk_rx l = bs @ lk_rx l') \<and> lk_tx l' = lk_tx l \<and> lk_left l' = lk_left l"
  by (auto simp: link_read_def split: if_splits)

lemma link_write_rx: "link_write bs l = (r, l') \<Longrightarrow> lk_rx l' = lk_rx l"
  by (auto simp: link_write_def split: option.splits nat.splits)

lemma ts_read_exact_cases:
  "ts_read_exact n l =
     (if n \<le> length (lk_rx l) then (Ok (take n (lk_rx l)), l\<lparr>lk_rx := drop n (lk_rx l)\<rparr>)
      else (Err (if lk_eof l then PgIo UnexpectedEof else PgStartupTimeout), l\<lparr>lk_rx := []\<rparr>))"
  by (simp add: ts_read_exact_def map_err_def link_read_def)

lemma ts_write_all_cases:
  "ts_write_all bs l =
     (case lk_left l of
        None \<Rightarrow> (Ok (), l\<lparr>lk_tx := lk_tx l @ [bs]\<rparr>)
      | Some 0 \<Rightarrow> (Err (if lk_eof l then PgIo BrokenPipe else PgStartupTimeout), l)
      | Some (Suc n) \<Rightarrow> (Ok (), l\<lparr>lk_tx := lk_tx l @ [bs], lk_left := Some n\<rparr>))"
  by (auto simp: ts_write_all_def map_err_def link_write_def split: option.splits nat.splits)

lemma try_tls_total: "fst (try_tls C N cfg l) \<notin> {Panic, Pending}"
  by (auto simp: try_tls_def after_ssl_reply_def ssl_request_def bnd_def map_err_def link_read_def link_write_def prog_simps
      split: option.splits nat.splits sum.splits prod.splits outcome.splits backend_tls_mode.splits if_splits)

subsection \<open>Properties\<close>

text \<open>
  C34. The negotiation code implements the policy table \<open>decide_tls\<close>. Where the table says plaintext
  the link stays as it is, where it says fail nothing but the request was sent, and where it says
  TLS the link is the one the TLS library made after verifying the peer for the configured name,
  with the host name checked exactly when the table asks for it.
\<close>

theorem try_tls_implements_decide_tls:
  assumes "(if tls_mode (cf_tls cfg) = TlsDisable then reply = NotRequested \<and> l0 = l
            else ssl_request l = (Ok yes, l0) \<and> reply = (if yes then SslYes else SslNo))"
  shows "case decide_tls (tls_mode (cf_tls cfg)) reply of
      Plaintext \<Rightarrow> try_tls C N cfg l = (Ok None, l0)
    | TlsFail \<Rightarrow> (\<exists>e. try_tls C N cfg l = (Err (PgTls e), l0))
    | Tls verify_host \<Rightarrow> (\<forall>h l'. try_tls C N cfg l = (Ok h, l') \<longrightarrow>
        (\<exists>v name chain. build_tls_config N cfg = Inr v \<and> checks_host v = verify_host \<and>
           checks_chain v = (TlsRequire \<le> tls_mode (cf_tls cfg)) \<and> cf_server_name cfg = Some name \<and>
           net_tls_connect N v name l0 = Inr (l', chain) \<and> h = leaf_cert_hash C chain))"
proof (cases "tls_mode (cf_tls cfg) = TlsDisable")
  case True
  then show ?thesis using assms by (simp add: try_tls_def prog_simps)
next
  case False
  then have run: "map_err tls_fault ssl_request l = (Ok yes, l0)" and r: "reply = (if yes then SslYes else SslNo)"
    using assms by (simp_all add: map_err_def)
  have go: "try_tls C N cfg l = after_ssl_reply C N cfg yes l0"
    using False bnd_Ok[where m = "map_err tls_fault ssl_request" and s = l, OF run] by (simp add: try_tls_def)
  show ?thesis
  proof (cases yes)
    case no: False
    then show ?thesis
      using False r go by (cases "tls_mode (cf_tls cfg)") (auto simp: after_ssl_reply_def prog_simps)
  next
    case True
    have found: "\<exists>v name chain. build_tls_config N cfg = Inr v \<and> cf_server_name cfg = Some name \<and>
        net_tls_connect N v name l0 = Inr (l', chain) \<and> h = leaf_cert_hash C chain"
      if "try_tls C N cfg l = (Ok h, l')" for h l'
      using that True unfolding go
      by (auto simp: after_ssl_reply_def bnd_def prog_simps split: option.splits sum.splits prod.splits if_splits)
    have d: "decide_tls (tls_mode (cf_tls cfg)) reply = Tls (tls_mode (cf_tls cfg) = TlsVerifyFull)"
      using False True r by (cases "tls_mode (cf_tls cfg)") simp_all
    show ?thesis
      unfolding d using found build_tls_config_Inr[of N cfg] by simp meson
  qed
qed

definition demo_net :: net where
  "demo_net = \<lparr>net_connect = (\<lambda>_. Inl Silent), net_server_name_ok = (\<lambda>_. True), net_protocol_error = None,
     net_read_file = (\<lambda>_. Inl ''no file''), net_pem_certs = (\<lambda>_. []), net_add_root = (\<lambda>_. None),
     net_parse_cert = (\<lambda>_. None), net_chain_error = (\<lambda>_ _ _. None),
     net_tls_connect = (\<lambda>v name l. Inr (l, Some [[48, 1]])), net_debug_str = id, net_debug_byte = (\<lambda>_. [])\<rparr>"

definition demo_pg_config :: pg_config where
  "demo_pg_config = \<lparr>cf_client_key = None, cf_server_key = None, cf_stored_key = None, cf_password = Some [112, 119],
     cf_user = ''alice'', cf_database = ''db'', cf_connect_timeout = 2000, cf_startup_timeout = 5000,
     cf_host = ''db'', cf_port = 5432, cf_tls = default_tls_config, cf_salt = [], cf_iterations = 4096,
     cf_startup_params = [(''user'', ''alice'')]\<rparr>"

theorem try_tls_implements_decide_tls_witness:
  "try_tls toy_crypto demo_net demo_pg_config \<lparr>lk_rx = [0x4E], lk_eof = False, lk_tx = [], lk_left = None\<rparr>
     = (Ok None, \<lparr>lk_rx = [], lk_eof = False, lk_tx = [to_be32 8, to_be32 SSL_REQUEST_CODE], lk_left = None\<rparr>)"
  using try_tls_implements_decide_tls[of demo_pg_config SslNo
      "\<lparr>lk_rx = [], lk_eof = False, lk_tx = [to_be32 8, to_be32 SSL_REQUEST_CODE], lk_left = None\<rparr>"
      "\<lparr>lk_rx = [0x4E], lk_eof = False, lk_tx = [], lk_left = None\<rparr>" False toy_crypto demo_net]
  by (simp add: demo_pg_config_def default_tls_config_def ssl_request_def bnd_def link_write_def link_read_def prog_simps)

end
