(* ===== verification/Scram_Server.thy ===== *)
theory Scram_Server
  imports Verifier Cert_Hash
begin

section \<open>The server side of SCRAM (\<open>auth/scram/scram_authenticator.rs\<close>)\<close>

text \<open>
  \<open>ScramAuthenticator\<close> is a state machine with the two steps \<open>handle_client_first\<close> and
  \<open>handle_client_final\<close>. Both take \<open>&mut self\<close>, so each is a program over the authenticator record.
  The 32 random bytes of the server nonce are an argument. \<open>ct_eq\<close> is equality; its timing is
  not modelled.
\<close>

datatype scram_state = Started | ClientFirstReceived | Done

definition malformed :: scram_error where
  "malformed = ScramProtocol ''malformed SCRAM message''"

definition SCRAM_SHA_256 :: string where
  "SCRAM_SHA_256 = ''SCRAM-SHA-256''"

definition PLUS :: string where
  "PLUS = ''-PLUS''"

definition SERVER_NONCE_LENGTH :: nat where
  "SERVER_NONCE_LENGTH = 32"

record scram_authenticator =
  sa_verifier :: verifier
  sa_state :: scram_state
  client_nonce :: string
  combined_nonce :: string
  client_first_bare :: string
  server_first :: string
  gs2_header :: string
  extracted_client_key :: "bytes option"
  choosed_mechanism :: string
  sa_cert_hash :: "cert_hash option"

definition authenticator_new :: "verifier \<Rightarrow> cert_hash option \<Rightarrow> scram_authenticator" where
  "authenticator_new v h =
     \<lparr>sa_verifier = v, sa_state = Started, client_nonce = [], combined_nonce = [],
      client_first_bare = [], server_first = [], gs2_header = [], extracted_client_key = None,
      choosed_mechanism = [], sa_cert_hash = h\<rparr>"

definition mechanisms :: "scram_authenticator \<Rightarrow> string list" where
  "mechanisms a = (if sa_cert_hash a \<noteq> None then [PLUS, SCRAM_SHA_256] else [SCRAM_SHA_256])"

subsection \<open>The checks\<close>

definition validate_params :: "scram_authenticator \<Rightarrow> string \<Rightarrow> string \<Rightarrow> scram_error + unit" where
  "validate_params a mechanism startup_user =
     (if sa_state a \<noteq> Started then Inl malformed
      else if startup_user = [] then Inl (ScramProtocol ''startup user must not be empty'')
      else if mechanism \<notin> set (mechanisms a)
        then Inl (ScramProtocol (''unsupported SASL mechanism: '' @ mechanism))
      else Inr ())"

text \<open>\<open>splitn(3, ',')\<close> with the test for three parts.\<close>

definition extract_data_from_client_first :: "string \<Rightarrow> scram_error + string \<times> string \<times> string" where
  "extract_data_from_client_first s =
     (case split_once (CHR '','') s of
        None \<Rightarrow> Inl malformed
      | Some (flag, rest) \<Rightarrow>
          (case split_once (CHR '','') rest of
             None \<Rightarrow> Inl malformed
           | Some (authzid, bare) \<Rightarrow> Inr (flag, authzid, bare)))"

definition validate_gs2_flag_for_scram :: "scram_authenticator \<Rightarrow> string \<Rightarrow> scram_error + unit" where
  "validate_gs2_flag_for_scram a flag =
     (if flag = ''n'' then Inr ()
      else if flag = ''y'' then
        (if sa_cert_hash a \<noteq> None then Inl ChannelBindingDowngrade else Inr ())
      else if starts_with flag ''p='' then
        Inl (ScramProtocol ''client requested channel binding, but SCRAM-SHA-256-PLUS was not offered'')
      else Inl malformed)"

definition validate_gs2_flag_for_plus :: "string \<Rightarrow> scram_error + unit" where
  "validate_gs2_flag_for_plus flag =
     (if flag = ''p=tls-server-end-point'' then Inr ()
      else if flag = ''n'' \<or> flag = ''y'' then
        Inl (ScramProtocol ''SCRAM-SHA-256-PLUS selected without channel binding data'')
      else if starts_with flag ''p='' then Inl (ScramProtocol ''unsupported channel binding type'')
      else Inl malformed)"

definition validate_gs2_flag :: "scram_authenticator \<Rightarrow> string \<Rightarrow> string \<Rightarrow> scram_error + unit" where
  "validate_gs2_flag a mechanism flag =
     (if mechanism = SCRAM_SHA_256 then validate_gs2_flag_for_scram a flag
      else if mechanism = PLUS then validate_gs2_flag_for_plus flag
      else Inl malformed)"

definition validate_authzid_part :: "string \<Rightarrow> scram_error + unit" where
  "validate_authzid_part authzid =
     (if starts_with authzid ''a='' \<and> length authzid > 2 then
        Inl (ScramProtocol ''client uses authorization identity, but it is not supported '')
      else if authzid \<noteq> [] \<and> \<not> starts_with authzid ''a='' then Inl malformed
      else Inr ())"

text \<open>The loop over the attributes of the bare message: the last \<open>r=\<close> wins.\<close>

definition find_client_nonce :: "string \<Rightarrow> string" where
  "find_client_nonce bare =
     fold (\<lambda>attr nonce. case strip_prefix ''r='' attr of Some v \<Rightarrow> v | None \<Rightarrow> nonce)
       (split_on (CHR '','') bare) []"

definition expected_cbind :: "crypto \<Rightarrow> scram_authenticator \<Rightarrow> string" where
  "expected_cbind C a =
     (case (choosed_mechanism a = PLUS, sa_cert_hash a) of
        (True, Some h) \<Rightarrow> expected_c C h
      | _ \<Rightarrow> b64_encode C (as_bytes (gs2_header a)))"

definition channel_binding_error :: "scram_authenticator \<Rightarrow> scram_error" where
  "channel_binding_error a = (if choosed_mechanism a = PLUS then ChannelBindingMismatch else malformed)"

subsection \<open>\<open>handle_client_first\<close>\<close>

definition server_first_text :: "crypto \<Rightarrow> string \<Rightarrow> verifier \<Rightarrow> string" where
  "server_first_text C combined v =
     ''r='' @ combined @ '',s='' @ b64_encode C (v_salt v) @ '',i='' @ show_u32 (v_iterations v)"

definition handle_client_first ::
    "crypto \<Rightarrow> bytes \<Rightarrow> string \<Rightarrow> string \<Rightarrow> string \<Rightarrow> (scram_authenticator, string, scram_error) prog" where
  "handle_client_first C nonce_bytes mechanism client_first startup_user =
     bnd (gets id) (\<lambda>a.
     andthen (of_sum (validate_params a mechanism startup_user)) (
     bnd (of_sum (extract_data_from_client_first client_first)) (\<lambda>(flag, authzid, bare).
     andthen (of_sum (validate_gs2_flag a mechanism flag)) (
     andthen (of_sum (validate_authzid_part authzid)) (
     andthen (modify (\<lambda>a. a\<lparr>gs2_header := flag @ '','' @ authzid @ '',''\<rparr>)) (
     let cnonce = find_client_nonce bare in
     andthen (guard (cnonce \<noteq> []) malformed) (
     let server_nonce = b64_encode C nonce_bytes;
         combined = cnonce @ ''-'' @ server_nonce;
         reply = server_first_text C combined (sa_verifier a) in
     andthen (modify (\<lambda>a. a\<lparr>client_nonce := cnonce, combined_nonce := combined,
       client_first_bare := bare, server_first := reply, sa_state := ClientFirstReceived,
       choosed_mechanism := mechanism\<rparr>)) (
     ret reply))))))))"

subsection \<open>\<open>handle_client_final\<close>\<close>

definition set_once :: "string \<Rightarrow> string \<Rightarrow> string option \<Rightarrow> scram_error + string option" where
  "set_once p attr cur =
     (case strip_prefix p attr of
        None \<Rightarrow> Inr cur
      | Some v \<Rightarrow> if cur \<noteq> None then Inl malformed else Inr (Some v))"

fun scan_final :: "string list \<Rightarrow> string option \<Rightarrow> string option \<Rightarrow> string option \<Rightarrow>
    scram_error + string option \<times> string option \<times> string option" where
  "scan_final [] cbind nonce proof_b64 = Inr (cbind, nonce, proof_b64)"
| "scan_final (attr # rest) cbind nonce proof_b64 =
     and_then (set_once ''c='' attr cbind) (\<lambda>cbind.
     and_then (set_once ''r='' attr nonce) (\<lambda>nonce.
     and_then (set_once ''p='' attr proof_b64) (\<lambda>proof_b64.
       scan_final rest cbind nonce proof_b64)))"

definition auth_message :: "scram_authenticator \<Rightarrow> string \<Rightarrow> string" where
  "auth_message a without_proof = client_first_bare a @ '','' @ server_first a @ '','' @ without_proof"

definition auth_failed :: "string \<Rightarrow> scram_error" where
  "auth_failed user = AuthenticationFailed (''password authentication failed for user \"'' @ user @ ''\"'')"

text \<open>The checks that come before the proof, none of which looks at the verifier.\<close>

definition check_client_final ::
    "crypto \<Rightarrow> scram_authenticator \<Rightarrow> string \<Rightarrow> scram_error + string \<times> bytes" where
  "check_client_final C a client_final =
     and_then (scan_final (split_on (CHR '','') client_final) None None None) (\<lambda>(cbind, nonce, proof_b64).
     and_then (ok_or cbind malformed) (\<lambda>cbind.
     and_then (ok_or nonce malformed) (\<lambda>nonce.
     and_then (ok_or proof_b64 malformed) (\<lambda>proof_b64.
       if cbind \<noteq> expected_cbind C a then Inl (channel_binding_error a)
       else if nonce \<noteq> combined_nonce a then Inl malformed
       else if \<not> starts_with nonce (client_nonce a) then Inl malformed
       else and_then (ok_or (rfind '',p='' client_final) malformed) (\<lambda>proof_start.
         and_then (ok_or (b64_decode C proof_b64) malformed) (\<lambda>proof_bytes.
           if length proof_bytes \<noteq> 32 then Inl malformed
           else Inr (auth_message a (take proof_start client_final), proof_bytes)))))))"

definition handle_client_final ::
    "crypto \<Rightarrow> string \<Rightarrow> string \<Rightarrow> (scram_authenticator, string, scram_error) prog" where
  "handle_client_final C client_final user =
     bnd (gets id) (\<lambda>a.
     andthen (guard (sa_state a = ClientFirstReceived) malformed) (
     andthen (modify (\<lambda>a. a\<lparr>sa_state := Done\<rparr>)) (
     bnd (of_sum (check_client_final C a client_final)) (\<lambda>(message, proof_bytes).
     let v = sa_verifier a;
         client_sig = hmac_sha256 C (v_stored_key v) (as_bytes message);
         recovered_client_key = xor_bytes proof_bytes client_sig in
     andthen (guard (sha256 C recovered_client_key = v_stored_key v) (auth_failed user)) (
     andthen (guard (\<not> v_dummy v) (auth_failed user)) (
     andthen (modify (\<lambda>a. a\<lparr>extracted_client_key := Some recovered_client_key\<rparr>)) (
     ret (''v='' @ b64_encode C (hmac_sha256 C (v_server_key v) (as_bytes message))))))))))"

subsection \<open>Lemmas\<close>

lemmas scram_step_defs = handle_client_first_def handle_client_final_def

lemma scan_final_Inr:
  assumes "scan_final attrs c n p = Inr (c', n', p')"
  shows "(c' = Some v \<longrightarrow> c = Some v \<or> ''c='' @ v \<in> set attrs) \<and>
         (n' = Some v \<longrightarrow> n = Some v \<or> ''r='' @ v \<in> set attrs) \<and>
         (p' = Some v \<longrightarrow> p = Some v \<or> ''p='' @ v \<in> set attrs)"
  using assms
proof (induction attrs arbitrary: c n p)
  case (Cons a attrs)
  have once: "set_once q a cur = Inr x \<Longrightarrow> x = cur \<or> (\<exists>w. x = Some w \<and> a = q @ w)" for q cur x
    by (auto simp: set_once_def strip_prefix_Some split: option.splits if_splits)
  from Cons.prems obtain c1 n1 p1 where
    s: "set_once ''c='' a c = Inr c1" "set_once ''r='' a n = Inr n1" "set_once ''p='' a p = Inr p1"
      "scan_final attrs c1 n1 p1 = Inr (c', n', p')"
    by (auto simp: sum_Inr)
  show ?case using Cons.IH[OF s(4)] once[OF s(1)] once[OF s(2)] once[OF s(3)] by auto
qed simp

text \<open>What an accepted client-final carries.\<close>

definition final_bound :: "crypto \<Rightarrow> scram_authenticator \<Rightarrow> string \<Rightarrow> string \<Rightarrow> bytes \<Rightarrow> bool" where
  "final_bound C a client_final message proof_bytes \<longleftrightarrow>
     ''c='' @ expected_cbind C a \<in> set (split_on (CHR '','') client_final) \<and>
     ''r='' @ combined_nonce a \<in> set (split_on (CHR '','') client_final) \<and>
     (\<exists>p64. ''p='' @ p64 \<in> set (split_on (CHR '','') client_final) \<and> b64_decode C p64 = Some proof_bytes) \<and>
     length proof_bytes = 32 \<and>
     (\<exists>i \<le> length client_final. message = auth_message a (take i client_final) \<and>
        prefix '',p='' (drop i client_final))"

lemma check_client_final_Inr:
  assumes "check_client_final C a cf = Inr (message, proof_bytes)"
  shows "final_bound C a cf message proof_bytes"
proof -
  from assms obtain p64 i where
    scan: "scan_final (split_on (CHR '','') cf) None None None =
        Inr (Some (expected_cbind C a), Some (combined_nonce a), Some p64)" and
    i: "rfind '',p='' cf = Some i" and p: "b64_decode C p64 = Some proof_bytes" "length proof_bytes = 32" and
    m: "message = auth_message a (take i cf)"
    by (auto simp: check_client_final_def sum_Inr split: if_splits prod.splits)
  show ?thesis
    unfolding final_bound_def
    using scan_final_Inr[OF scan, of "expected_cbind C a"] scan_final_Inr[OF scan, of "combined_nonce a"]
      scan_final_Inr[OF scan, of p64] rfind_Some[OF i] p m by auto
qed

lemma handle_client_final_Ok:
  "handle_client_final C cf user a = (Ok reply, a') \<longleftrightarrow>
     sa_state a = ClientFirstReceived \<and>
     (\<exists>message proof_bytes. check_client_final C a cf = Inr (message, proof_bytes) \<and>
        (let v = sa_verifier a;
             key = xor_bytes proof_bytes (hmac_sha256 C (v_stored_key v) (as_bytes message)) in
         sha256 C key = v_stored_key v \<and> \<not> v_dummy v \<and>
         reply = ''v='' @ b64_encode C (hmac_sha256 C (v_server_key v) (as_bytes message)) \<and>
         a' = a\<lparr>sa_state := Done, extracted_client_key := Some key\<rparr>))"
  by (auto simp: handle_client_final_def bnd_def prog_simps Let_def split: sum.splits prod.splits)

lemma handle_client_final_state:
  "handle_client_final C cf user a = (r, a') \<Longrightarrow>
     sa_verifier a' = sa_verifier a \<and> sa_cert_hash a' = sa_cert_hash a \<and>
     (sa_state a' = (if sa_state a = ClientFirstReceived then Done else sa_state a))"
  by (auto simp: handle_client_final_def bnd_def prog_simps Let_def split: sum.splits prod.splits if_splits)

lemma handle_client_final_total: "fst (handle_client_final C cf user a) \<notin> {Panic, Pending}"
  by (auto simp: handle_client_final_def bnd_def prog_simps Let_def split: sum.splits prod.splits)

lemma handle_client_final_closed:
  "sa_state a \<noteq> ClientFirstReceived \<Longrightarrow> handle_client_final C cf user a = (Err malformed, a)"
  by (simp add: handle_client_final_def bnd_def prog_simps)

lemma handle_client_first_closed:
  "sa_state a \<noteq> Started \<Longrightarrow> handle_client_first C nb mech cf user a = (Err malformed, a)"
  by (simp add: handle_client_first_def validate_params_def bnd_def prog_simps)

lemma handle_client_first_Ok:
  "handle_client_first C nb mech cf user a = (Ok reply, a') \<longleftrightarrow>
     sa_state a = Started \<and> user \<noteq> [] \<and> mech \<in> set (mechanisms a) \<and>
     (\<exists>flag authzid bare cnonce. extract_data_from_client_first cf = Inr (flag, authzid, bare) \<and>
        validate_gs2_flag a mech flag = Inr () \<and> validate_authzid_part authzid = Inr () \<and>
        cnonce = find_client_nonce bare \<and> cnonce \<noteq> [] \<and>
        reply = server_first_text C (cnonce @ ''-'' @ b64_encode C nb) (sa_verifier a) \<and>
        a' = a\<lparr>gs2_header := flag @ '','' @ authzid @ '','', client_nonce := cnonce,
          combined_nonce := cnonce @ ''-'' @ b64_encode C nb, client_first_bare := bare,
          server_first := reply, sa_state := ClientFirstReceived, choosed_mechanism := mech\<rparr>)"
  by (auto simp: handle_client_first_def validate_params_def bnd_def prog_simps Let_def
      split: sum.splits prod.splits if_splits)

lemma handle_client_first_total: "fst (handle_client_first C nb mech cf user a) \<notin> {Panic, Pending}"
  by (auto simp: handle_client_first_def bnd_def prog_simps Let_def split: sum.splits prod.splits)

lemma handle_client_first_state:
  "handle_client_first C nb mech cf user a = (r, a') \<Longrightarrow>
     sa_verifier a' = sa_verifier a \<and> sa_cert_hash a' = sa_cert_hash a \<and>
     extracted_client_key a' = extracted_client_key a \<and>
     (sa_state a' = (case r of Ok _ \<Rightarrow> ClientFirstReceived | _ \<Rightarrow> sa_state a))"
  by (auto simp: handle_client_first_def bnd_def prog_simps Let_def split: sum.splits prod.splits if_splits)

lemma first_Ok_state: "handle_client_first C nb mech cf user a = (Ok reply, a') \<Longrightarrow> sa_state a = Started"
  by (simp add: handle_client_first_Ok)

lemma final_Ok_state: "handle_client_final C cf user a = (Ok reply, a') \<Longrightarrow> sa_state a = ClientFirstReceived"
  by (simp add: handle_client_final_Ok)

lemma auth_gs2:
  "extract_data_from_client_first cf = Inr (flag, authzid, bare) \<longleftrightarrow>
     cf = flag @ '','' @ authzid @ '','' @ bare \<and> CHR '','' \<notin> set flag \<and> CHR '','' \<notin> set authzid"
proof
  assume "extract_data_from_client_first cf = Inr (flag, authzid, bare)"
  then show "cf = flag @ '','' @ authzid @ '','' @ bare \<and> CHR '','' \<notin> set flag \<and> CHR '','' \<notin> set authzid"
    by (auto simp: extract_data_from_client_first_def split_once_Some split: option.splits)
qed (simp add: extract_data_from_client_first_def split_once_append)

lemma validate_gs2_flag_Inr:
  "validate_gs2_flag a mech flag = Inr () \<longleftrightarrow>
     mech = SCRAM_SHA_256 \<and> (flag = ''n'' \<or> flag = ''y'' \<and> sa_cert_hash a = None) \<or>
     mech = PLUS \<and> flag = ''p=tls-server-end-point''"
  by (auto simp: validate_gs2_flag_def validate_gs2_flag_for_scram_def validate_gs2_flag_for_plus_def
      SCRAM_SHA_256_def PLUS_def)

lemma check_ignores_verifier: "check_client_final C (a\<lparr>sa_verifier := d\<rparr>) cf = check_client_final C a cf"
proof -
  have "expected_cbind C (a\<lparr>sa_verifier := d\<rparr>) = expected_cbind C a"
    "channel_binding_error (a\<lparr>sa_verifier := d\<rparr>) = channel_binding_error a"
    "auth_message (a\<lparr>sa_verifier := d\<rparr>) = auth_message a"
    "combined_nonce (a\<lparr>sa_verifier := d\<rparr>) = combined_nonce a"
    "client_nonce (a\<lparr>sa_verifier := d\<rparr>) = client_nonce a"
    by (auto simp: expected_cbind_def channel_binding_error_def auth_message_def fun_eq_iff
        split: bool.splits option.splits)
  then show ?thesis unfolding check_client_final_def by (simp only:)
qed

subsection \<open>An honest client\<close>

text \<open>The client-final a client that knows ClientKey sends to the authenticator \<open>a\<close>.\<close>

definition final_without_proof :: "crypto \<Rightarrow> scram_authenticator \<Rightarrow> string" where
  "final_without_proof C a = ''c='' @ expected_cbind C a @ '',r='' @ combined_nonce a"

definition honest_final :: "crypto \<Rightarrow> scram_authenticator \<Rightarrow> bytes \<Rightarrow> string" where
  "honest_final C a key =
     (let without = final_without_proof C a in
      without @ '',p='' @ b64_encode C (xor_bytes key
        (hmac_sha256 C (v_stored_key (sa_verifier a)) (as_bytes (auth_message a without)))))"

lemma expected_cbind_free [simp]: "crypto_laws C \<Longrightarrow> CHR '','' \<notin> set (expected_cbind C a)"
  by (simp add: expected_cbind_def expected_c_def split: bool.splits option.splits)

lemma check_client_final_honest:
  assumes "crypto_laws C" and "CHR '','' \<notin> set (combined_nonce a)"
    and "prefix (client_nonce a) (combined_nonce a)" and "length proof_bytes = 32"
  shows "check_client_final C a (final_without_proof C a @ '',p='' @ b64_encode C proof_bytes) =
    Inr (auth_message a (final_without_proof C a), proof_bytes)"
proof -
  let ?c = "''c='' @ expected_cbind C a" and ?r = "''r='' @ combined_nonce a"
    and ?p = "''p='' @ b64_encode C proof_bytes"
  let ?m = "final_without_proof C a @ '',p='' @ b64_encode C proof_bytes"
  have m: "?m = ?c @ CHR '','' # ?r @ CHR '','' # ?p"
    by (simp add: final_without_proof_def)
  have free: "CHR '','' \<notin> set ?c" "CHR '','' \<notin> set ?r" "CHR '','' \<notin> set ?p"
    using assms(1,2) by simp_all
  have attrs: "split_on (CHR '','') ?m = [?c, ?r, ?p]"
    unfolding m split_on_append[OF free(1)] split_on_append[OF free(2)] split_on_no_sep[OF free(3)]
    by (rule refl)
  have "rfind (CHR '','' # ''p='') (final_without_proof C a @ (CHR '','' # ''p='') @ b64_encode C proof_bytes)
      = Some (length (final_without_proof C a))"
    using assms(1) by (intro rfind_last) simp_all
  then have i: "rfind '',p='' ?m = Some (length (final_without_proof C a))"
    by simp
  have scan: "scan_final [?c, ?r, ?p] None None None =
      Inr (Some (expected_cbind C a), Some (combined_nonce a), Some (b64_encode C proof_bytes))"
    by (simp add: set_once_def strip_prefix_def)
  show ?thesis
    unfolding check_client_final_def attrs scan i
    using assms by (simp add: starts_with_def)
qed

lemma honest_final_accepted:
  assumes "crypto_laws C" and "sa_state a = ClientFirstReceived"
    and "CHR '','' \<notin> set (combined_nonce a)" and "prefix (client_nonce a) (combined_nonce a)"
    and "sha256 C key = v_stored_key (sa_verifier a)" and "length key = 32"
    and "\<not> v_dummy (sa_verifier a)"
  shows "handle_client_final C (honest_final C a key) user a =
    (Ok (''v='' @ b64_encode C (hmac_sha256 C (v_server_key (sa_verifier a))
       (as_bytes (auth_message a (final_without_proof C a))))),
     a\<lparr>sa_state := Done, extracted_client_key := Some key\<rparr>)"
  unfolding handle_client_final_Ok Let_def
  using assms check_client_final_honest[OF assms(1,3,4),
      of "xor_bytes key (hmac_sha256 C (v_stored_key (sa_verifier a))
        (as_bytes (auth_message a (final_without_proof C a))))"]
  by (simp add: honest_final_def Let_def)

text \<open>The client-first with the given GS2 flag, no authorization identity and an empty \<open>n=\<close>.\<close>

definition honest_first :: "string \<Rightarrow> string \<Rightarrow> string" where
  "honest_first flag nonce = flag @ '',,n=,r='' @ nonce"

definition first_accepted :: "crypto \<Rightarrow> bytes \<Rightarrow> string \<Rightarrow> string \<Rightarrow> string \<Rightarrow> scram_authenticator \<Rightarrow> scram_authenticator" where
  "first_accepted C nb mech flag nonce a =
     a\<lparr>gs2_header := flag @ '',,'', client_nonce := nonce,
       combined_nonce := nonce @ ''-'' @ b64_encode C nb, client_first_bare := ''n=,r='' @ nonce,
       server_first := server_first_text C (nonce @ ''-'' @ b64_encode C nb) (sa_verifier a),
       sa_state := ClientFirstReceived, choosed_mechanism := mech\<rparr>"

lemma honest_first_accepted:
  assumes "sa_state a = Started" and "user \<noteq> []" and "mech \<in> set (mechanisms a)"
    and "validate_gs2_flag a mech flag = Inr ()" and "CHR '','' \<notin> set flag"
    and "nonce \<noteq> []" and "CHR '','' \<notin> set nonce"
  shows "handle_client_first C nb mech (honest_first flag nonce) user a =
    (Ok (server_first_text C (nonce @ ''-'' @ b64_encode C nb) (sa_verifier a)),
     first_accepted C nb mech flag nonce a)"
proof -
  have e: "extract_data_from_client_first (honest_first flag nonce) = Inr (flag, [], ''n=,r='' @ nonce)"
    using assms(5) by (simp add: auth_gs2 honest_first_def)
  have s: "split_on (CHR '','') (''n=,r='' @ nonce) = [''n='', ''r='' @ nonce]"
    using assms(7) by (simp add: split_on_no_sep)
  have n: "find_client_nonce (''n=,r='' @ nonce) = nonce"
    unfolding find_client_nonce_def s by (simp add: strip_prefix_def)
  have z: "validate_authzid_part [] = Inr ()"
    by (simp add: validate_authzid_part_def starts_with_def)
  show ?thesis
    unfolding handle_client_first_Ok
    using assms(1-4,6) e n z
    by (intro conjI exI[of _ flag] exI[of _ "[]"] exI[of _ "''n=,r='' @ nonce"] exI[of _ nonce])
       (simp_all add: first_accepted_def)
qed

subsection \<open>Runs of calls\<close>

datatype scram_call = Client_First bytes string string string | Client_Final string string

fun scram_step :: "crypto \<Rightarrow> scram_call \<Rightarrow> (scram_authenticator, string, scram_error) prog" where
  "scram_step C (Client_First nb mech msg user) = handle_client_first C nb mech msg user"
| "scram_step C (Client_Final msg user) = handle_client_final C msg user"

fun scram_calls :: "crypto \<Rightarrow> scram_call list \<Rightarrow> scram_authenticator \<Rightarrow>
    (scram_call \<times> (string, scram_error) outcome) list" where
  "scram_calls C [] a = []"
| "scram_calls C (c # cs) a = (case scram_step C c a of (r, a') \<Rightarrow> (c, r) # scram_calls C cs a')"

fun is_final :: "scram_call \<Rightarrow> bool" where
  "is_final (Client_First _ _ _ _) = False"
| "is_final (Client_Final _ _) = True"

fun accepted :: "('a, 'e) outcome \<Rightarrow> bool" where
  "accepted (Ok _) = True"
| "accepted _ = False"

definition accepted_kinds :: "(scram_call \<times> (string, scram_error) outcome) list \<Rightarrow> bool list" where
  "accepted_kinds rs = map (is_final \<circ> fst) (filter (accepted \<circ> snd) rs)"

lemma accepted_kinds_by_state:
  "accepted_kinds (scram_calls C cs a) \<in>
     (case sa_state a of Started \<Rightarrow> {[], [False], [False, True]}
      | ClientFirstReceived \<Rightarrow> {[], [True]} | Done \<Rightarrow> {[]})"
proof (induction cs arbitrary: a)
  case Nil
  then show ?case by (cases "sa_state a") (simp_all add: accepted_kinds_def)
next
  case (Cons c cs)
  obtain r a' where step: "scram_step C c a = (r, a')" by fastforce
  have kinds: "accepted_kinds (scram_calls C (c # cs) a) =
      (if accepted r then [is_final c] else []) @ accepted_kinds (scram_calls C cs a')"
    by (simp add: accepted_kinds_def step)
  have st: "(if is_final c
        then (if accepted r then sa_state a = ClientFirstReceived \<and> sa_state a' = Done
              else sa_state a' = (if sa_state a = ClientFirstReceived then Done else sa_state a))
        else (if accepted r then sa_state a = Started \<and> sa_state a' = ClientFirstReceived
              else sa_state a' = sa_state a))"
  proof (cases c)
    case (Client_First nb mech msg user)
    then show ?thesis
      using step handle_client_first_state[of C nb mech msg user a r a'] first_Ok_state[of C nb mech msg user a _ a']
      by (cases r) auto
  next
    case (Client_Final msg user)
    then show ?thesis
      using step handle_client_final_state[of C msg user a r a'] final_Ok_state[of C msg user a _ a']
      by (cases r) auto
  qed
  show ?case
    using Cons.IH[of a'] st unfolding kinds
    by (cases "sa_state a"; cases "is_final c"; cases "accepted r") auto
qed

subsection \<open>Properties\<close>

text \<open>
  C6. Whatever a client sends and in whatever order, an authenticator accepts at most one
  client-first and, after it, at most one client-final: no exchange can be replayed, retried with
  another password, or finished before it started.
\<close>

theorem scram_exchange_is_one_shot:
  "accepted_kinds (scram_calls C cs (authenticator_new v h)) \<in> {[], [False], [False, True]}"
  using accepted_kinds_by_state[of C cs "authenticator_new v h"] by (simp add: authenticator_new_def)



text \<open>
  C7. User enumeration. For a user that does not exist the exchange runs against a dummy verifier:
  its client-final always fails, with exactly the error a real user's exchange gives unless the
  proof is right, whatever the client sent.
\<close>

theorem dummy_exchange_is_indistinguishable:
  assumes "v_dummy d"
  shows "\<exists>e. fst (handle_client_final C cf user (a\<lparr>sa_verifier := d\<rparr>)) = Err e \<and>
           (fst (handle_client_final C cf user a) = Err e \<or>
            (\<exists>reply. fst (handle_client_final C cf user a) = Ok reply \<and> e = auth_failed user))"
proof (cases "sa_state a = ClientFirstReceived")
  case False
  then show ?thesis by (simp add: handle_client_final_closed)
next
  case True
  then show ?thesis
    using assms
    by (auto simp: handle_client_final_def bnd_def prog_simps Let_def check_ignores_verifier
        split: sum.splits prod.splits)
qed

subsection \<open>One exchange\<close>

text \<open>A concrete exchange under the example instance of the libraries, used to apply the properties.\<close>

definition demo_verifier :: verifier where
  "demo_verifier = from_password toy_crypto [112, 119] (replicate 16 7) 4096"

definition demo_key :: bytes where
  "demo_key = hmac_sha256 toy_crypto (pbkdf2_sha256 toy_crypto [112, 119] (replicate 16 7) 4096) (as_bytes ''Client Key'')"

definition demo_auth :: scram_authenticator where
  "demo_auth = first_accepted toy_crypto (replicate 32 9) SCRAM_SHA_256 ''n'' ''abc''
     (authenticator_new demo_verifier None)"

lemma fit_same [simp]: "length m = n \<Longrightarrow> fit n m = m"
  by (simp add: fit_def)

lemma demo_key_facts:
  "sha256 toy_crypto demo_key = v_stored_key demo_verifier" "length demo_key = 32" "\<not> v_dummy demo_verifier"
  using crypto_lawsD(4)[OF toy_crypto_laws]
  by (simp_all add: demo_key_def demo_verifier_def from_password_def Let_def)

lemma demo_first:
  "handle_client_first toy_crypto (replicate 32 9) SCRAM_SHA_256 (honest_first ''n'' ''abc'') ''u''
     (authenticator_new demo_verifier None) = (Ok (server_first demo_auth), demo_auth)"
  using honest_first_accepted[of "authenticator_new demo_verifier None" "''u''" SCRAM_SHA_256 "''n''" "''abc''"
      toy_crypto "replicate 32 9"]
  by (simp add: authenticator_new_def mechanisms_def validate_gs2_flag_Inr demo_auth_def first_accepted_def)

lemma demo_final:
  "\<exists>reply a'. handle_client_final toy_crypto (honest_final toy_crypto demo_auth demo_key) ''u'' demo_auth = (Ok reply, a')"
proof -
  have "sa_state demo_auth = ClientFirstReceived" "CHR '','' \<notin> set (combined_nonce demo_auth)"
    "prefix (client_nonce demo_auth) (combined_nonce demo_auth)" "sa_verifier demo_auth = demo_verifier"
    by (simp_all add: demo_auth_def first_accepted_def authenticator_new_def toy_crypto_laws)
  then show ?thesis
    using honest_final_accepted[OF toy_crypto_laws, of demo_auth demo_key] demo_key_facts by simp
qed



theorem dummy_exchange_is_indistinguishable_witness:
  "\<exists>e. fst (handle_client_final toy_crypto (honest_final toy_crypto demo_auth demo_key) ''u''
         (demo_auth\<lparr>sa_verifier := dummy_verifier toy_crypto ''u'' (replicate 32 1)\<rparr>)) = Err e"
  using dummy_exchange_is_indistinguishable[of "dummy_verifier toy_crypto ''u'' (replicate 32 1)"]
  by (fastforce simp: dummy_verifier_def)

end
