(* ===== verification/Scram_Client.thy ===== *)
theory Scram_Client
  imports Scram_Server Backend_Policy
begin

section \<open>The client side of SCRAM (\<open>backend/scram_client.rs\<close>)\<close>

text \<open>
  \<open>ScramClient\<close> proves a user's identity to the backend, either from the password or from the keys
  captured in the frontend exchange. The theory ends with the two exchanges run against each
  other: the proxy's own client is accepted by the proxy's own server, and the ClientKey that a
  frontend exchange yields opens a backend with the same secret.
\<close>

datatype scram_mechanism = Sha256Mech | Sha256PlusMech

fun mech_gs2_header :: "scram_mechanism \<Rightarrow> string" where
  "mech_gs2_header Sha256Mech = ''n,,''"
| "mech_gs2_header Sha256PlusMech = ''p=tls-server-end-point,,''"

record scram_client =
  cl_nonce :: string
  cl_auth_message :: string
  cl_client_key :: "bytes option"
  cl_server_key :: "bytes option"
  cl_stored_key :: "bytes option"
  cl_password :: "bytes option"
  cl_mechanism :: scram_mechanism
  cl_channel_binding :: "bytes option"

definition scram_client_new ::
    "crypto \<Rightarrow> bytes \<Rightarrow> bytes option \<Rightarrow> bytes option \<Rightarrow> bytes option \<Rightarrow> bytes option \<Rightarrow> scram_client" where
  "scram_client_new C random client_key server_key stored_key password =
     \<lparr>cl_nonce = b64url_encode C random, cl_auth_message = [], cl_client_key = client_key,
      cl_server_key = server_key, cl_stored_key = stored_key, cl_password = password,
      cl_mechanism = Sha256Mech, cl_channel_binding = None\<rparr>"

definition use_channel_binding :: "bytes \<Rightarrow> scram_client \<Rightarrow> scram_client" where
  "use_channel_binding cbind cl = cl\<lparr>cl_mechanism := Sha256PlusMech, cl_channel_binding := Some cbind\<rparr>"

definition client_first_message :: "scram_client \<Rightarrow> string" where
  "client_first_message cl = mech_gs2_header (cl_mechanism cl) @ ''n=,r='' @ cl_nonce cl"

definition client_cbind_input :: "scram_client \<Rightarrow> bytes" where
  "client_cbind_input cl =
     (case cl_channel_binding cl of Some b \<Rightarrow> b | None \<Rightarrow> as_bytes (mech_gs2_header (cl_mechanism cl)))"

definition kv_pair :: "string \<Rightarrow> (char \<times> string) option" where
  "kv_pair pair =
     (case split_once (CHR ''='') pair of
        None \<Rightarrow> None
      | Some (key, value) \<Rightarrow> (case key of [] \<Rightarrow> None | c # _ \<Rightarrow> Some (c, value)))"

text \<open>The \<open>HashMap\<close> that \<open>collect\<close> builds: the last pair with a key wins.\<close>

definition parse_scram_kv :: "string \<Rightarrow> char \<Rightarrow> string option" where
  "parse_scram_kv msg = map_of (rev (List.map_filter kv_pair (split_on (CHR '','') msg)))"

text \<open>The \<open>match &self.password\<close>: the keys for this exchange.\<close>

definition client_keys :: "crypto \<Rightarrow> scram_client \<Rightarrow> bytes \<Rightarrow> u32 \<Rightarrow> bytes \<Rightarrow> u32 \<Rightarrow>
    pg_error + bytes \<times> bytes \<times> bytes option" where
  "client_keys C cl salt iterations stored_salt stored_iterations =
     (case cl_password cl of
        Some password \<Rightarrow>
          (let salted = pbkdf2_sha256 C password salt iterations;
               client_key = hmac_sha256 C salted (as_bytes ''Client Key'');
               server_key = hmac_sha256 C salted (as_bytes ''Server Key'');
               stored_key = sha256 C client_key
           in Inr (client_key, stored_key, Some server_key))
      | None \<Rightarrow>
          if salt \<noteq> stored_salt then Inl PgSaltMismatch
          else if stored_iterations \<noteq> iterations then Inl (PgAuth ''Invalid iteration count'')
          else and_then (ok_or (cl_client_key cl) (PgUnsupportedAuth ''backend requested SCRAM, but no ClientKey was captured from the client'')) (\<lambda>client_key.
               and_then (ok_or (cl_stored_key cl) (PgAuth ''stored SCRAM secret is unavailable'')) (\<lambda>stored_key.
               Inr (client_key, stored_key, cl_server_key cl))))"

definition client_final_message :: "crypto \<Rightarrow> string \<Rightarrow> bytes \<Rightarrow> u32 \<Rightarrow> (scram_client, string, pg_error) prog" where
  "client_final_message C server_msg stored_salt stored_iterations =
     bnd (gets id) (\<lambda>cl.
     let params = parse_scram_kv server_msg in
     bnd (of_opt (PgAuth ''Missing nonce ('r') in SCRAM response'') (params (CHR ''r''))) (\<lambda>combined.
     bnd (of_opt (PgAuth ''Missing salt ('s') in SCRAM response'') (params (CHR ''s''))) (\<lambda>salt_b64.
     bnd (of_opt (PgAuth ''Missing iterations ('i') in SCRAM response'') (params (CHR ''i''))) (\<lambda>iters.
     bnd (of_opt (PgAuth ''invalid iterations count'') (parse_u32 iters)) (\<lambda>iterations.
     andthen (guard (starts_with combined (cl_nonce cl) \<and> length (cl_nonce cl) < length combined)
       (PgAuth ''Server nonce mismatch'')) (
     bnd (of_opt (PgAuth ''invalid salt encoding'') (b64_decode C salt_b64)) (\<lambda>salt.
     bnd (of_sum (client_keys C cl salt iterations stored_salt stored_iterations)) (\<lambda>(client_key, stored_key, server_key).
     let without = ''c='' @ b64_encode C (client_cbind_input cl) @ '',r='' @ combined;
         bare = ''n=,r='' @ cl_nonce cl;
         message = bare @ '','' @ server_msg @ '','' @ without;
         signature = hmac_sha256 C stored_key (as_bytes message) in
     andthen (modify (\<lambda>cl. cl\<lparr>cl_auth_message := message\<rparr>)) (
     andthen (guard (length client_key = length signature) (PgAuth ''invalid client key length'')) (
     andthen (modify (\<lambda>cl. cl\<lparr>cl_server_key := server_key\<rparr>)) (
     ret (without @ '',p='' @ b64_encode C (xor_bytes client_key signature)))))))))))))"

definition verify_server_final :: "crypto \<Rightarrow> scram_client \<Rightarrow> string \<Rightarrow> pg_error + bool" where
  "verify_server_final C cl server_final =
     (let params = parse_scram_kv server_final in
      case params (CHR ''e'') of
        Some err \<Rightarrow> Inl (PgAuth (''SCRAM error: '' @ err))
      | None \<Rightarrow>
          (case cl_server_key cl of
             None \<Rightarrow> Inr False
           | Some server_key \<Rightarrow>
               and_then (ok_or (params (CHR ''v'')) (PgAuth ''invalid server signature'')) (\<lambda>sig.
               and_then (ok_or (b64_decode C sig) (PgAuth ''invalid server signature'')) (\<lambda>sig.
               if hmac_sha256 C server_key (as_bytes (cl_auth_message cl)) = sig then Inr True
               else Inl (PgAuth ''invalid server signature'')))))"

subsection \<open>Lemmas\<close>

lemma kv_pair_simple: "kv_pair (c # CHR ''='' # v) = (if c = CHR ''='' then None else Some (c, v))"
  by (simp add: kv_pair_def)

lemma parse_server_first:
  assumes "crypto_laws C" and "CHR '','' \<notin> set combined"
  shows "parse_scram_kv (server_first_text C combined v) (CHR ''r'') = Some combined"
    "parse_scram_kv (server_first_text C combined v) (CHR ''s'') = Some (b64_encode C (v_salt v))"
    "parse_scram_kv (server_first_text C combined v) (CHR ''i'') = Some (show_u32 (v_iterations v))"
proof -
  have t: "server_first_text C combined v = (''r='' @ combined) @ CHR '','' # (''s='' @ b64_encode C (v_salt v))
      @ CHR '','' # ''i='' @ show_u32 (v_iterations v)"
    by (simp add: server_first_text_def)
  have free: "CHR '','' \<notin> set (''r='' @ combined)" "CHR '','' \<notin> set (''s='' @ b64_encode C (v_salt v))"
      "CHR '','' \<notin> set (''i='' @ show_u32 (v_iterations v))"
    using assms by simp_all
  have "split_on (CHR '','') (server_first_text C combined v) =
      [''r='' @ combined, ''s='' @ b64_encode C (v_salt v), ''i='' @ show_u32 (v_iterations v)]"
    unfolding t split_on_append[OF free(1)] split_on_append[OF free(2)] split_on_no_sep[OF free(3)] by (rule refl)
  then show "parse_scram_kv (server_first_text C combined v) (CHR ''r'') = Some combined"
    "parse_scram_kv (server_first_text C combined v) (CHR ''s'') = Some (b64_encode C (v_salt v))"
    "parse_scram_kv (server_first_text C combined v) (CHR ''i'') = Some (show_u32 (v_iterations v))"
    by (simp_all add: parse_scram_kv_def List.map_filter_def kv_pair_simple)
qed

lemma parse_server_final:
  assumes "crypto_laws C"
  shows "parse_scram_kv (CHR ''v'' # CHR ''='' # b64_encode C s) (CHR ''v'') = Some (b64_encode C s)"
    "parse_scram_kv (CHR ''v'' # CHR ''='' # b64_encode C s) (CHR ''e'') = None"
  using assms by (simp_all add: parse_scram_kv_def split_on_no_sep List.map_filter_def kv_pair_simple)

lemma verify_server_final_True:
  assumes "crypto_laws C" and "cl_server_key cl = Some sk"
  shows "verify_server_final C cl (''v='' @ b64_encode C (hmac_sha256 C sk (as_bytes (cl_auth_message cl)))) = Inr True"
  using assms by (simp add: verify_server_final_def parse_server_final)

text \<open>How a client and an authenticator that agree on the mechanism match up.\<close>

definition binding_agrees :: "crypto \<Rightarrow> scram_client \<Rightarrow> string \<Rightarrow> cert_hash option \<Rightarrow> bool" where
  "binding_agrees C cl mech h \<longleftrightarrow>
     mech = SCRAM_SHA_256 \<and> cl_mechanism cl = Sha256Mech \<and> cl_channel_binding cl = None \<or>
     mech = PLUS \<and> cl_mechanism cl = Sha256PlusMech \<and>
       (\<exists>k. h = Some k \<and> cl_channel_binding cl = Some (cbind_input k))"

definition client_flag :: "scram_client \<Rightarrow> string" where
  "client_flag cl = (case cl_mechanism cl of Sha256Mech \<Rightarrow> ''n'' | Sha256PlusMech \<Rightarrow> ''p=tls-server-end-point'')"

lemma client_first_is_honest: "client_first_message cl = honest_first (client_flag cl) (cl_nonce cl)"
  by (cases "cl_mechanism cl") (simp_all add: client_first_message_def honest_first_def client_flag_def)

definition good_nonce :: "scram_client \<Rightarrow> bool" where
  "good_nonce cl \<longleftrightarrow> cl_nonce cl \<noteq> [] \<and> CHR '','' \<notin> set (cl_nonce cl)"

lemma good_nonce_new:
  "crypto_laws C \<Longrightarrow> random \<noteq> [] \<Longrightarrow> good_nonce (scram_client_new C random ck sk st pw)"
  by (simp add: good_nonce_def scram_client_new_def)

lemma first_step:
  assumes "good_nonce cl" and "binding_agrees C cl mech h" and "user \<noteq> []"
  shows "handle_client_first C nb mech (client_first_message cl) user (authenticator_new v h) =
    (Ok (server_first_text C (cl_nonce cl @ ''-'' @ b64_encode C nb) v),
     first_accepted C nb mech (client_flag cl) (cl_nonce cl) (authenticator_new v h))"
proof -
  let ?a = "authenticator_new v h"
  have "mech \<in> set (mechanisms ?a)" "validate_gs2_flag ?a mech (client_flag cl) = Inr ()" "CHR '','' \<notin> set (client_flag cl)"
    using assms(2) by (auto simp: binding_agrees_def mechanisms_def authenticator_new_def validate_gs2_flag_Inr client_flag_def)
  then show ?thesis
    unfolding client_first_is_honest
    using honest_first_accepted[of ?a user mech "client_flag cl" "cl_nonce cl" C nb] assms(1,3)
    by (simp add: good_nonce_def authenticator_new_def)
qed

lemma expected_cbind_agrees:
  assumes "binding_agrees C cl mech h"
  shows "expected_cbind C (first_accepted C nb mech (client_flag cl) nonce (authenticator_new v h)) =
    b64_encode C (client_cbind_input cl)"
  using assms
  by (auto simp: binding_agrees_def expected_cbind_def first_accepted_def authenticator_new_def
      client_cbind_input_def client_flag_def expected_c_def PLUS_def SCRAM_SHA_256_def)

lemma client_final_step:
  assumes "crypto_laws C" and "good_nonce cl" and "binding_agrees C cl mech h"
    and keys: "client_keys C cl (v_salt v) (v_iterations v) salt iters = Inr (key, v_stored_key v, sk)"
    and "length key = 32"
    and a: "a = first_accepted C nb mech (client_flag cl) (cl_nonce cl) (authenticator_new v h)"
  shows "client_final_message C (server_first a) salt iters cl =
    (Ok (honest_final C a key),
     cl\<lparr>cl_auth_message := auth_message a (final_without_proof C a), cl_server_key := sk\<rparr>)"
proof -
  let ?n = "cl_nonce cl @ ''-'' @ b64_encode C nb"
  have n: "CHR '','' \<notin> set ?n"
    using assms(1,2) by (simp add: good_nonce_def)
  have sf: "server_first a = server_first_text C ?n v" "combined_nonce a = ?n"
    "client_first_bare a = ''n=,r='' @ cl_nonce cl" "sa_verifier a = v"
    by (simp_all add: a first_accepted_def authenticator_new_def)
  have cb: "expected_cbind C a = b64_encode C (client_cbind_input cl)"
    unfolding a by (rule expected_cbind_agrees[OF assms(3)])
  have w: "final_without_proof C a = ''c='' @ b64_encode C (client_cbind_input cl) @ '',r='' @ ?n"
    by (simp add: final_without_proof_def cb sf)
  have m: "auth_message a (final_without_proof C a) =
      (''n=,r='' @ cl_nonce cl) @ '','' @ server_first_text C ?n v @ '','' @
      ''c='' @ b64_encode C (client_cbind_input cl) @ '',r='' @ ?n"
    by (simp add: auth_message_def sf w)
  show ?thesis
    unfolding client_final_message_def sf(1) honest_final_def Let_def sf(4) m
    using parse_server_first[OF assms(1) n, of v] keys assms(1,5)
    by (simp add: bnd_def prog_simps starts_with_def w)
qed

text \<open>The whole exchange, for any keys that fit the verifier.\<close>

lemma exchange_completes:
  assumes "crypto_laws C" and "good_nonce cl" and "binding_agrees C cl mech h" and "user \<noteq> []"
    and "client_keys C cl (v_salt v) (v_iterations v) salt iters = Inr (key, v_stored_key v, Some (v_server_key v))"
    and "length key = 32" and "sha256 C key = v_stored_key v" and "\<not> v_dummy v"
  shows "\<exists>s1 a c2 cl' s2 a'.
    handle_client_first C nb mech (client_first_message cl) user (authenticator_new v h) = (Ok s1, a) \<and>
    client_final_message C s1 salt iters cl = (Ok c2, cl') \<and>
    handle_client_final C c2 user a = (Ok s2, a') \<and>
    verify_server_final C cl' s2 = Inr True \<and> extracted_client_key a' = Some key"
proof -
  define a where "a = first_accepted C nb mech (client_flag cl) (cl_nonce cl) (authenticator_new v h)"
  have a: "sa_state a = ClientFirstReceived" "CHR '','' \<notin> set (combined_nonce a)"
    "prefix (client_nonce a) (combined_nonce a)" "sa_verifier a = v"
    "server_first a = server_first_text C (cl_nonce cl @ ''-'' @ b64_encode C nb) v"
    using assms(1,2) by (simp_all add: a_def first_accepted_def authenticator_new_def good_nonce_def)
  have 1: "handle_client_first C nb mech (client_first_message cl) user (authenticator_new v h) =
      (Ok (server_first a), a)"
    using first_step[OF assms(2,3,4)] by (simp add: a a_def[symmetric])
  note 2 = client_final_step[OF assms(1,2,3,5,6) a_def]
  have 3: "handle_client_final C (honest_final C a key) user a =
      (Ok (''v='' @ b64_encode C (hmac_sha256 C (v_server_key v) (as_bytes (auth_message a (final_without_proof C a))))),
       a\<lparr>sa_state := Done, extracted_client_key := Some key\<rparr>)"
    using honest_final_accepted[OF assms(1) a(1,2,3), of key user] assms(6,7,8) by (simp add: a(4))
  have 4: "verify_server_final C (cl\<lparr>cl_auth_message := auth_message a (final_without_proof C a),
        cl_server_key := Some (v_server_key v)\<rparr>)
      (''v='' @ b64_encode C (hmac_sha256 C (v_server_key v) (as_bytes (auth_message a (final_without_proof C a))))) = Inr True"
    using verify_server_final_True[OF assms(1), of "cl\<lparr>cl_auth_message := auth_message a (final_without_proof C a),
        cl_server_key := Some (v_server_key v)\<rparr>"] by simp
  show ?thesis
    by (intro exI conjI, rule 1, rule 2, rule 3, rule 4, simp)
qed

lemma password_keys:
  "cl_password cl = Some p \<Longrightarrow>
   client_keys C cl s i salt iters =
     Inr (hmac_sha256 C (pbkdf2_sha256 C p s i) (as_bytes ''Client Key''),
          v_stored_key (from_password C p s i), Some (v_server_key (from_password C p s i)))"
  by (simp add: client_keys_def from_password_def Let_def)

lemma captured_keys:
  "cl_password cl = None \<Longrightarrow> cl_client_key cl = Some key \<Longrightarrow> cl_stored_key cl = Some st \<Longrightarrow>
   client_keys C cl s i s i = Inr (key, st, cl_server_key cl)"
  by (simp add: client_keys_def)

lemma server_signature_is_checked_iff:
  "verify_server_final C cl msg = Inr True \<longleftrightarrow>
     parse_scram_kv msg (CHR ''e'') = None \<and>
     (\<exists>key text. cl_server_key cl = Some key \<and> parse_scram_kv msg (CHR ''v'') = Some text \<and>
        b64_decode C text = Some (hmac_sha256 C key (as_bytes (cl_auth_message cl))))"
  by (auto simp: verify_server_final_def Let_def and_then_def ok_or_def split: option.splits sum.splits if_splits)

lemma client_final_total:
  "fst (client_final_message C sf salt iters cl) \<notin> {Panic, Pending}"
  by (auto simp: client_final_message_def bnd_def prog_simps Let_def split: option.splits sum.splits prod.splits)

text \<open>
  The list the authenticator advertises names \<open>-PLUS\<close>, which is not the registered mechanism name:
  the proxy's own list parser finds only plain SCRAM in it, certificate hash or not.
\<close>

lemma advertised_plus_is_not_recognised:
  "parse_sasl_mechanisms (concat (map (\<lambda>m. as_bytes m @ [0]) (mechanisms a)) @ [0]) = [ScramSha256]"
proof -
  have n: "0 \<notin> set (as_bytes SCRAM_SHA_256)" "0 \<notin> set (as_bytes PLUS)"
    by (simp_all add: zero_in_as_bytes SCRAM_SHA_256_def PLUS_def del: as_bytes_simps)
  have m: "mechanism_of_name (as_bytes SCRAM_SHA_256) = Some ScramSha256" "mechanism_of_name (as_bytes PLUS) = None"
    by (simp_all add: mechanism_of_name_def SCRAM_SHA_256_def PLUS_def del: as_bytes_simps)
  show ?thesis
    by (simp add: parse_sasl_mechanisms_def mechanisms_def List.map_filter_def split_on_append n m)
qed

lemma extracted_key:
  assumes "crypto_laws C" and "handle_client_final C c2 user a = (Ok s2, a')"
  shows "\<exists>key. extracted_client_key a' = Some key \<and> sha256 C key = v_stored_key (sa_verifier a) \<and> length key = 32"
proof -
  from assms(2) obtain message proof_bytes where
    c: "check_client_final C a c2 = Inr (message, proof_bytes)" and
    k: "sha256 C (xor_bytes proof_bytes (hmac_sha256 C (v_stored_key (sa_verifier a)) (as_bytes message))) =
        v_stored_key (sa_verifier a)"
      "extracted_client_key a' = Some (xor_bytes proof_bytes (hmac_sha256 C (v_stored_key (sa_verifier a)) (as_bytes message)))"
    unfolding handle_client_final_Ok Let_def by auto
  have "length proof_bytes = 32" using check_client_final_Inr[OF c] by (simp add: final_bound_def)
  then show ?thesis using k assms(1) by simp
qed

subsection \<open>Properties\<close>

text \<open>
  C4. Completeness. A client that knows the password, or is given nothing else, finishes the exchange
  with the proxy's authenticator for that password, whatever random bytes either side draws, with
  plain SCRAM and with channel binding: both messages are accepted, the client accepts the server
  signature, and the authenticator ends with the user's ClientKey.
\<close>

theorem password_exchange_completes:
  assumes "crypto_laws C" and "user \<noteq> []" and "good_nonce cl" and "cl_password cl = Some password"
    and "binding_agrees C cl mech h" and "v = from_password C password salt iterations"
  shows "\<exists>s1 a c2 cl' s2 a'.
    handle_client_first C nb mech (client_first_message cl) user (authenticator_new v h) = (Ok s1, a) \<and>
    client_final_message C s1 stored_salt stored_iterations cl = (Ok c2, cl') \<and>
    handle_client_final C c2 user a = (Ok s2, a') \<and> verify_server_final C cl' s2 = Inr True \<and>
    extracted_client_key a' = Some (hmac_sha256 C (pbkdf2_sha256 C password salt iterations) (as_bytes ''Client Key''))"
proof -
  have v: "v_salt v = salt" "v_iterations v = iterations" "\<not> v_dummy v"
    using assms(1,6) by (simp_all add: from_password_keys)
  have keys: "client_keys C cl (v_salt v) (v_iterations v) stored_salt stored_iterations =
      Inr (hmac_sha256 C (pbkdf2_sha256 C password salt iterations) (as_bytes ''Client Key''),
           v_stored_key v, Some (v_server_key v))"
    unfolding v using password_keys[OF assms(4)] assms(6) by simp
  show ?thesis
    by (rule exchange_completes[OF assms(1,3,5,2) keys])
       (use assms(1,6) v in \<open>simp_all add: from_password_def Let_def\<close>)
qed

theorem password_exchange_completes_witness:
  "\<exists>s1 a c2 cl' s2 a'.
    handle_client_first toy_crypto (replicate 32 9) PLUS
      (client_first_message (use_channel_binding (cbind_input \<lparr>hash_alg = Sha256, digest = replicate 32 5\<rparr>)
         (scram_client_new toy_crypto (replicate 18 3) None None None (Some [112, 119])))) ''alice''
      (authenticator_new demo_verifier (Some \<lparr>hash_alg = Sha256, digest = replicate 32 5\<rparr>)) = (Ok s1, a) \<and>
    client_final_message toy_crypto s1 [] 0
      (use_channel_binding (cbind_input \<lparr>hash_alg = Sha256, digest = replicate 32 5\<rparr>)
         (scram_client_new toy_crypto (replicate 18 3) None None None (Some [112, 119]))) = (Ok c2, cl') \<and>
    handle_client_final toy_crypto c2 ''alice'' a = (Ok s2, a') \<and> verify_server_final toy_crypto cl' s2 = Inr True"
proof -
  let ?k = "\<lparr>hash_alg = Sha256, digest = replicate 32 5\<rparr>"
  let ?cl = "use_channel_binding (cbind_input ?k)
    (scram_client_new toy_crypto (replicate 18 3) None None None (Some [112, 119]))"
  have "good_nonce ?cl" "cl_password ?cl = Some [112, 119]" "binding_agrees toy_crypto ?cl PLUS (Some ?k)"
    using good_nonce_new[OF toy_crypto_laws, of "replicate 18 3" None None None "Some [112, 119]"]
    by (simp_all add: good_nonce_def use_channel_binding_def scram_client_new_def binding_agrees_def)
  from password_exchange_completes[OF toy_crypto_laws _ this demo_verifier_def, of "''alice''" "replicate 32 9" "[]" 0]
  show ?thesis by blast
qed

text \<open>
  C2. Pass-through. The ClientKey recovered from any successful frontend exchange, together with the
  StoredKey and ServerKey of the user's secret, authenticates the proxy to a backend that holds
  the same secret, and the proxy verifies that backend's signature: the proxy never needs the
  password when the salts agree.
\<close>

theorem captured_key_opens_the_backend:
  assumes "crypto_laws C" and "random \<noteq> []" and "backend_user \<noteq> []" and "\<not> v_dummy w"
    and "handle_client_first C nb mech c1 user (authenticator_new v h) = (Ok s1, a)"
    and "handle_client_final C c2 user a = (Ok s2, a')"
    and "v_salt w = v_salt v \<and> v_iterations w = v_iterations v \<and>
         v_stored_key w = v_stored_key v \<and> v_server_key w = v_server_key v"
  shows "\<exists>t1 b d2 cl' t2 b'.
    (let cl = scram_client_new C random (extracted_client_key a') (Some (v_server_key v)) (Some (v_stored_key v)) None in
     handle_client_first C nb' SCRAM_SHA_256 (client_first_message cl) backend_user (authenticator_new w h') = (Ok t1, b) \<and>
     client_final_message C t1 (v_salt v) (v_iterations v) cl = (Ok d2, cl') \<and>
     handle_client_final C d2 backend_user b = (Ok t2, b') \<and> verify_server_final C cl' t2 = Inr True)"
proof -
  have "sa_verifier a = v"
    using handle_client_first_state[OF assms(5)] by (simp add: authenticator_new_def)
  then obtain key where key: "extracted_client_key a' = Some key" "sha256 C key = v_stored_key w" "length key = 32"
    using extracted_key[OF assms(1,6)] assms(7) by auto
  define cl where "cl = scram_client_new C random (extracted_client_key a') (Some (v_server_key v)) (Some (v_stored_key v)) None"
  have cl: "good_nonce cl" "binding_agrees C cl SCRAM_SHA_256 h'"
    using good_nonce_new[OF assms(1,2)] by (simp_all add: cl_def binding_agrees_def scram_client_new_def)
  have keys: "client_keys C cl (v_salt w) (v_iterations w) (v_salt v) (v_iterations v) =
      Inr (key, v_stored_key w, Some (v_server_key w))"
    using captured_keys[of cl key "v_stored_key v"] assms(7) key(1) by (simp add: cl_def scram_client_new_def)
  from exchange_completes[OF assms(1) cl assms(3) keys key(3,2) assms(4), of nb']
  show ?thesis unfolding cl_def[symmetric] Let_def by blast
qed

theorem captured_key_opens_the_backend_witness:
  "\<exists>s2 a' t1 b d2 cl' t2 b'.
    handle_client_final toy_crypto (honest_final toy_crypto demo_auth demo_key) ''u'' demo_auth = (Ok s2, a') \<and>
    (let cl = scram_client_new toy_crypto (replicate 18 3) (extracted_client_key a')
           (Some (v_server_key demo_verifier)) (Some (v_stored_key demo_verifier)) None in
     handle_client_first toy_crypto (replicate 32 4) SCRAM_SHA_256 (client_first_message cl) ''alice''
       (authenticator_new demo_verifier None) = (Ok t1, b) \<and>
     client_final_message toy_crypto t1 (v_salt demo_verifier) (v_iterations demo_verifier) cl = (Ok d2, cl') \<and>
     handle_client_final toy_crypto d2 ''alice'' b = (Ok t2, b') \<and> verify_server_final toy_crypto cl' t2 = Inr True)"
proof -
  obtain s2 a' where f: "handle_client_final toy_crypto (honest_final toy_crypto demo_auth demo_key) ''u'' demo_auth = (Ok s2, a')"
    using demo_final by blast
  have r: "replicate 18 (3 :: u8) \<noteq> []" "''alice'' \<noteq> []" by simp_all
  from captured_key_opens_the_backend[OF toy_crypto_laws r demo_key_facts(3) demo_first f, of "replicate 32 4" None] f
  show ?thesis by blast
qed

text \<open>
  The client believes the backend's signature only when it holds ServerKey and the \<open>v=\<close> attribute
  decodes to ServerKey's signature of the transcript this client built; a message that reports an
  error is never believed, and \<open>false\<close> is returned exactly when there is no ServerKey to check with.
\<close>

theorem server_signature_is_checked:
  "(verify_server_final C cl msg = Inr True \<longleftrightarrow>
      parse_scram_kv msg (CHR ''e'') = None \<and>
      (\<exists>key text. cl_server_key cl = Some key \<and> parse_scram_kv msg (CHR ''v'') = Some text \<and>
         b64_decode C text = Some (hmac_sha256 C key (as_bytes (cl_auth_message cl))))) \<and>
   (verify_server_final C cl msg = Inr False \<longleftrightarrow>
      parse_scram_kv msg (CHR ''e'') = None \<and> cl_server_key cl = None)"
  unfolding server_signature_is_checked_iff
  by (auto simp: verify_server_final_def Let_def and_then_def ok_or_def split: option.splits sum.splits if_splits)



end
