(* ===== verification/Buffer_Pool.thy ===== *)
theory Buffer_Pool
  imports Rust_Std
begin

section \<open>Pooled message buffers (\<open>proxy/buffer_pool.rs\<close>)\<close>

text \<open>
  \<open>MultiBufferPool\<close>, its buckets and the \<open>PooledBytes\<close> it rents out. A \<open>BytesMut\<close> is its
  allocation, byte by byte (\<open>None\<close> for a byte nothing has written), with the length \<open>set_len\<close>
  gave it. \<open>BytesMut::set_len\<close> beyond the allocation is undefined behaviour in Rust; the model
  makes it a \<open>Panic\<close>, so a theorem that excludes panics covers the two \<open>unsafe\<close> blocks. A
  bucket's \<open>Vec\<close> keeps the capacity it was created with as the ceiling for returned buffers.
  The locale \<open>buffer_source\<close> is what the message readers rely on.
\<close>

subsection \<open>Buffers\<close>

record bytes_mut =
  bm_mem :: "u8 option list"
  bm_len :: nat

definition with_capacity :: "nat \<Rightarrow> bytes_mut" where
  "with_capacity n = \<lparr>bm_mem = replicate n None, bm_len = 0\<rparr>"

definition set_len :: "nat \<Rightarrow> bytes_mut \<Rightarrow> bytes_mut option" where
  "set_len n b = (if n \<le> length (bm_mem b) then Some (b\<lparr>bm_len := n\<rparr>) else None)"

definition as_slice :: "bytes_mut \<Rightarrow> u8 option list" where
  "as_slice b = take (bm_len b) (bm_mem b)"

text \<open>\<open>read_exact\<close> writes the whole exposed slice.\<close>

definition fill :: "bytes \<Rightarrow> bytes_mut \<Rightarrow> bytes_mut" where
  "fill bs b = b\<lparr>bm_mem := map Some (take (bm_len b) bs) @ drop (bm_len b) (bm_mem b)\<rparr>"

record pooled_bytes =
  pb_buf :: bytes_mut
  pb_original_capacity :: nat
  pb_bucket_index :: nat

record buffer_bucket =
  bk_capacity :: nat
  bk_buffers :: "bytes_mut list"
  bk_vec_capacity :: nat

record multi_buffer_pool =
  buckets :: "buffer_bucket list"

subsection \<open>Operations\<close>

definition new_bucket :: "nat \<Rightarrow> nat \<Rightarrow> buffer_bucket" where
  "new_bucket sz pre =
     \<lparr>bk_capacity = sz, bk_buffers = replicate pre (with_capacity sz), bk_vec_capacity = pre\<rparr>"

text \<open>The doubling loop of \<open>new\<close>: \<open>None\<close> is a loop that never ends.\<close>

partial_function (option) new_buckets ::
    "nat \<Rightarrow> nat \<Rightarrow> nat \<Rightarrow> buffer_bucket list \<Rightarrow> buffer_bucket list option" where
  "new_buckets current_size max_len pre acc =
     (if current_size \<le> max_len
      then new_buckets (current_size * 2) max_len pre (acc @ [new_bucket current_size pre])
      else Some acc)"

definition pool_new :: "nat \<Rightarrow> nat \<Rightarrow> nat \<Rightarrow> multi_buffer_pool option" where
  "pool_new min_len max_len pre =
     map_option (\<lambda>bs. \<lparr>buckets = bs\<rparr>) (new_buckets min_len max_len pre [])"

fun first_fit :: "nat \<Rightarrow> buffer_bucket list \<Rightarrow> nat option" where
  "first_fit n [] = None"
| "first_fit n (b # bs) =
     (if bk_capacity b \<ge> n then Some 0 else map_option Suc (first_fit n bs))"

definition bucket_pop :: "buffer_bucket \<Rightarrow> bytes_mut \<times> buffer_bucket" where
  "bucket_pop b =
     (if bk_buffers b = [] then (with_capacity (bk_capacity b), b)
      else (last (bk_buffers b), b\<lparr>bk_buffers := butlast (bk_buffers b)\<rparr>))"

definition pool_get :: "nat \<Rightarrow> (multi_buffer_pool, pooled_bytes, unit) prog" where
  "pool_get requested_size p =
     (case first_fit requested_size (buckets p) of
        None \<Rightarrow> (Panic, p)
      | Some i \<Rightarrow>
        (case bucket_pop (buckets p ! i) of (buf, b') \<Rightarrow>
          (case set_len requested_size buf of
             None \<Rightarrow> (Panic, p\<lparr>buckets := (buckets p)[i := b']\<rparr>)
           | Some buf' \<Rightarrow>
               (Ok \<lparr>pb_buf = buf', pb_original_capacity = bk_capacity (buckets p ! i),
                    pb_bucket_index = i\<rparr>,
                p\<lparr>buckets := (buckets p)[i := b']\<rparr>))))"

definition max_capacity :: "multi_buffer_pool \<Rightarrow> nat" where
  "max_capacity p = (if buckets p = [] then 0 else bk_capacity (last (buckets p)))"

definition return_buffer :: "nat \<Rightarrow> bytes_mut \<Rightarrow> (multi_buffer_pool, unit, unit) prog" where
  "return_buffer i buffer p =
     (if i < length (buckets p) then
        (let b = buckets p ! i in
           if length (bk_buffers b) < bk_vec_capacity b
           then (Ok (), p\<lparr>buckets := (buckets p)[i := b\<lparr>bk_buffers := bk_buffers b @ [buffer]\<rparr>]\<rparr>)
           else (Ok (), p))
      else (Panic, p))"

definition pooled_drop :: "pooled_bytes \<Rightarrow> (multi_buffer_pool, unit, unit) prog" where
  "pooled_drop pb p =
     (case set_len (pb_original_capacity pb) (pb_buf pb) of
        None \<Rightarrow> (Panic, p)
      | Some buf \<Rightarrow> return_buffer (pb_bucket_index pb) buf p)"

subsection \<open>Creation\<close>

lemma new_buckets_terminates:
  assumes "0 < cur"
  shows "\<exists>bs. new_buckets cur mx pre acc = Some bs"
  using assms
proof (induction "Suc mx - cur" arbitrary: cur acc rule: less_induct)
  case less
  show ?case
  proof (cases "cur \<le> mx")
    case True
    have "Suc mx - cur * 2 < Suc mx - cur" using True less.prems by linarith
    moreover have "0 < cur * 2" using less.prems by simp
    ultimately have "\<exists>bs. new_buckets (cur * 2) mx pre (acc @ [new_bucket cur pre]) = Some bs"
      by (rule less.hyps)
    then show ?thesis using True by (simp add: new_buckets.simps[of cur])
  next
    case False
    then show ?thesis by (simp add: new_buckets.simps[of cur])
  qed
qed

lemma new_buckets_zero: "new_buckets 0 mx pre acc = None"
proof (rule ccontr)
  assume "new_buckets 0 mx pre acc \<noteq> None"
  then obtain r where r: "new_buckets 0 mx pre acc = Some r" by auto
  have "(0::nat) \<noteq> 0"
  proof (rule new_buckets.raw_induct[where P = "\<lambda>c m p a r. c \<noteq> 0", OF _ r])
    fix f c m p a r'
    assume IH: "\<And>c m p a r. f c m p a = Some r \<Longrightarrow> c \<noteq> (0::nat)"
      and eq: "(if c \<le> m then f (c * 2) m p (a @ [new_bucket c p]) else Some a) = Some r'"
    show "c \<noteq> 0"
    proof
      assume "c = 0"
      with eq have "f 0 m p (a @ [new_bucket c p]) = Some r'" by simp
      then show False using IH by blast
    qed
  qed
  then show False by simp
qed

text \<open>The buckets are the doublings of the minimum that do not exceed the maximum.\<close>

lemma new_buckets_shape:
  assumes "0 < cur" and "new_buckets cur mx pre acc = Some bs"
  shows "\<exists>k. bs = acc @ map (\<lambda>j. new_bucket (cur * 2 ^ j) pre) [0..<k]
           \<and> mx < cur * 2 ^ k \<and> (k \<noteq> 0 \<longrightarrow> cur * 2 ^ (k - 1) \<le> mx)"
  using assms
proof (induction "Suc mx - cur" arbitrary: cur acc rule: less_induct)
  case less
  show ?case
  proof (cases "cur \<le> mx")
    case True
    have "Suc mx - cur * 2 < Suc mx - cur" "0 < cur * 2" using True less.prems by linarith+
    moreover have "new_buckets (cur * 2) mx pre (acc @ [new_bucket cur pre]) = Some bs"
      using True less.prems(2) by (simp add: new_buckets.simps[of cur])
    ultimately obtain k where k: "bs = (acc @ [new_bucket cur pre])
          @ map (\<lambda>j. new_bucket (cur * 2 * 2 ^ j) pre) [0..<k]"
        "mx < cur * 2 * 2 ^ k" "k \<noteq> 0 \<longrightarrow> cur * 2 * 2 ^ (k - 1) \<le> mx"
      using less.hyps by blast
    have "map (\<lambda>j. new_bucket (cur * 2 ^ j) pre) [0..<Suc k]
        = new_bucket cur pre # map (\<lambda>j. new_bucket (cur * 2 * 2 ^ j) pre) [0..<k]"
      by (simp only: upt_conv_Cons[of 0 "Suc k"] map_Suc_upt[symmetric])
         (simp add: mult.assoc)
    moreover have "cur * 2 ^ k \<le> mx" using k(3) True by (cases k) (auto simp: mult.assoc)
    ultimately show ?thesis using k(1,2)
      by (intro exI[of _ "Suc k"]) (simp add: mult.assoc)
  next
    case False
    then show ?thesis using less.prems(2)
      by (intro exI[of _ 0]) (simp add: new_buckets.simps[of cur])
  qed
qed

subsection \<open>The invariant\<close>

definition bucket_ok :: "buffer_bucket \<Rightarrow> bool" where
  "bucket_ok b \<longleftrightarrow> (\<forall>x \<in> set (bk_buffers b). bk_capacity b \<le> length (bm_mem x))
     \<and> length (bk_buffers b) \<le> bk_vec_capacity b"

definition pool_ok :: "multi_buffer_pool \<Rightarrow> bool" where
  "pool_ok p \<longleftrightarrow> (\<forall>b \<in> set (buckets p). bucket_ok b)"

text \<open>The part of a pool no operation changes, and what a rented buffer owes to it.\<close>

definition pool_shape :: "multi_buffer_pool \<Rightarrow> (nat \<times> nat) list" where
  "pool_shape p = map (\<lambda>b. (bk_capacity b, bk_vec_capacity b)) (buckets p)"

definition rented_ok :: "(nat \<times> nat) list \<Rightarrow> pooled_bytes \<Rightarrow> bool" where
  "rented_ok shape pb \<longleftrightarrow> pb_bucket_index pb < length shape
     \<and> fst (shape ! pb_bucket_index pb) = pb_original_capacity pb
     \<and> pb_original_capacity pb \<le> length (bm_mem (pb_buf pb))
     \<and> bm_len (pb_buf pb) \<le> pb_original_capacity pb"

definition exposed :: "pooled_bytes \<Rightarrow> nat" where
  "exposed pb = length (as_slice (pb_buf pb))"

lemma max_capacity_shape:
  "max_capacity p = (if pool_shape p = [] then 0 else fst (last (pool_shape p)))"
  by (simp add: max_capacity_def pool_shape_def last_map)

lemma length_pool_shape: "length (pool_shape p) = length (buckets p)"
  by (simp add: pool_shape_def)

lemma pool_shape_update:
  assumes "i < length (buckets p)" and "bk_capacity b = bk_capacity (buckets p ! i)"
    and "bk_vec_capacity b = bk_vec_capacity (buckets p ! i)"
  shows "pool_shape (p\<lparr>buckets := (buckets p)[i := b]\<rparr>) = pool_shape p"
  using assms by (simp add: pool_shape_def map_update list_update_same_conv)

lemma pool_ok_update:
  assumes "pool_ok p" and "bucket_ok b"
  shows "pool_ok (p\<lparr>buckets := (buckets p)[i := b]\<rparr>)"
  using assms set_update_subset_insert[of "buckets p" i b] by (auto simp: pool_ok_def)

lemma first_fit_Some:
  "first_fit n bs = Some i \<Longrightarrow> i < length bs \<and> n \<le> bk_capacity (bs ! i)
     \<and> (\<forall>j < i. bk_capacity (bs ! j) < n)"
proof (induction bs arbitrary: i)
  case (Cons b bs)
  show ?case
  proof (cases "n \<le> bk_capacity b")
    case False
    then obtain k where k: "first_fit n bs = Some k" "i = Suc k" using Cons.prems by auto
    have "\<forall>j < Suc k. bk_capacity ((b # bs) ! j) < n"
      using Cons.IH[OF k(1)] False by (auto simp: less_Suc_eq_0_disj)
    then show ?thesis using Cons.IH[OF k(1)] k(2) by simp
  qed (use Cons.prems in simp)
qed simp

lemma first_fit_last: "bs \<noteq> [] \<Longrightarrow> n \<le> bk_capacity (last bs) \<Longrightarrow> first_fit n bs \<noteq> None"
  by (induction bs) (auto split: if_splits)

lemma bucket_pop_ok:
  assumes "bucket_ok b" and "bucket_pop b = (buf, b')"
  shows "bk_capacity b \<le> length (bm_mem buf) \<and> bucket_ok b'
     \<and> bk_capacity b' = bk_capacity b \<and> bk_vec_capacity b' = bk_vec_capacity b"
proof -
  have "x \<in> set (butlast (bk_buffers b)) \<Longrightarrow> bk_capacity b \<le> length (bm_mem x)" for x
    using assms(1) by (auto simp: bucket_ok_def dest: in_set_butlastD)
  then show ?thesis
    using assms by (auto simp: bucket_pop_def bucket_ok_def with_capacity_def split: if_splits)
qed

lemma pool_get_ok:
  assumes "pool_ok p" and "n \<le> max_capacity p" and "buckets p \<noteq> []"
  shows "\<exists>pb p'. pool_get n p = (Ok pb, p') \<and> pool_ok p' \<and> pool_shape p' = pool_shape p
     \<and> exposed pb = n \<and> rented_ok (pool_shape p) pb
     \<and> n \<le> pb_original_capacity pb
     \<and> (\<forall>j < pb_bucket_index pb. bk_capacity (buckets p ! j) < n)"
proof -
  obtain i where i: "first_fit n (buckets p) = Some i"
    using first_fit_last[of "buckets p" n] assms by (auto simp: max_capacity_def)
  note fit = first_fit_Some[OF i]
  have ok: "bucket_ok (buckets p ! i)" using assms(1) fit by (simp add: pool_ok_def)
  obtain buf b' where pop: "bucket_pop (buckets p ! i) = (buf, b')" by fastforce
  note popped = bucket_pop_ok[OF ok pop]
  have "n \<le> length (bm_mem buf)" using popped fit by linarith
  then show ?thesis
    using i pop popped fit assms(1)
    by (auto simp: pool_get_def set_len_def exposed_def as_slice_def rented_ok_def
        length_pool_shape pool_ok_update pool_shape_update) (auto simp: pool_shape_def)
qed

lemma return_buffer_ok:
  assumes "pool_ok p" and "i < length (buckets p)" and "bk_capacity (buckets p ! i) \<le> length (bm_mem buf)"
  shows "\<exists>p'. return_buffer i buf p = (Ok (), p') \<and> pool_ok p' \<and> pool_shape p' = pool_shape p"
proof -
  let ?b = "buckets p ! i"
  have "bucket_ok ?b" using assms(1,2) by (simp add: pool_ok_def)
  then have "length (bk_buffers ?b) < bk_vec_capacity ?b \<Longrightarrow>
      bucket_ok (?b\<lparr>bk_buffers := bk_buffers ?b @ [buf]\<rparr>)"
    using assms(3) by (auto simp: bucket_ok_def)
  then show ?thesis
    using assms by (auto simp: return_buffer_def Let_def pool_ok_update pool_shape_update)
qed

lemma pooled_drop_ok:
  assumes "pool_ok p" and "rented_ok (pool_shape p) pb"
  shows "\<exists>p'. pooled_drop pb p = (Ok (), p') \<and> pool_ok p' \<and> pool_shape p' = pool_shape p"
proof -
  have i: "pb_bucket_index pb < length (buckets p)"
    using assms(2) by (simp add: rented_ok_def length_pool_shape)
  then have "bk_capacity (buckets p ! pb_bucket_index pb) = pb_original_capacity pb"
    using assms(2) by (simp add: rented_ok_def pool_shape_def)
  then show ?thesis
    using assms i return_buffer_ok[of p "pb_bucket_index pb"
        "pb_buf pb\<lparr>bm_len := pb_original_capacity pb\<rparr>"]
    by (simp add: pooled_drop_def set_len_def rented_ok_def)
qed

lemma fill_exposes:
  assumes "rented_ok shape pb" and "length bs = exposed pb"
  shows "as_slice (fill bs (pb_buf pb)) = map Some bs"
    and "rented_ok shape (pb\<lparr>pb_buf := fill bs (pb_buf pb)\<rparr>)"
  using assms by (auto simp: rented_ok_def exposed_def as_slice_def fill_def)

lemma pool_new_ok:
  assumes "pool_new mn mx pre = Some p" and "0 < mn"
  shows "pool_ok p"
proof -
  obtain bs where "new_buckets mn mx pre [] = Some bs" and p: "p = \<lparr>buckets = bs\<rparr>"
    using assms(1) by (auto simp: pool_new_def)
  with new_buckets_shape[OF assms(2)] obtain k where
    "bs = map (\<lambda>j. new_bucket (mn * 2 ^ j) pre) [0..<k]" by fastforce
  then show ?thesis
    using p by (auto simp: pool_ok_def bucket_ok_def new_bucket_def with_capacity_def)
qed

subsection \<open>The contract of a buffer source\<close>

text \<open>
  What \<open>read_message_body\<close> and the relay rely on: a rental up to the limit succeeds and exposes
  exactly the bytes asked for; a full write leaves nothing of a previous holder in view; giving
  back always succeeds. \<open>owed\<close> says that a buffer belongs to a pool of that shape.
\<close>

locale buffer_source =
  fixes rent :: "nat \<Rightarrow> ('p, 'b, 'e) prog"
    and give_back :: "'b \<Rightarrow> ('p, unit, 'e) prog"
    and limit :: "'p \<Rightarrow> nat"
    and inv :: "'p \<Rightarrow> bool"
    and shape :: "'p \<Rightarrow> 's"
    and owed :: "'s \<Rightarrow> 'b \<Rightarrow> bool"
    and size_of :: "'b \<Rightarrow> nat"
    and put :: "bytes \<Rightarrow> 'b \<Rightarrow> 'b"
    and view :: "'b \<Rightarrow> u8 option list"
  assumes rent_law: "inv p \<Longrightarrow> n \<le> limit p \<Longrightarrow>
      \<exists>b p'. rent n p = (Ok b, p') \<and> inv p' \<and> shape p' = shape p \<and> owed (shape p) b \<and> size_of b = n"
    and give_law: "inv p \<Longrightarrow> owed (shape p) b \<Longrightarrow>
      \<exists>p'. give_back b p = (Ok (), p') \<and> inv p' \<and> shape p' = shape p"
    and limit_shape: "shape p = shape q \<Longrightarrow> limit p = limit q"
    and put_owed: "owed s b \<Longrightarrow> length bs = size_of b \<Longrightarrow> owed s (put bs b)"
    and put_view: "owed s b \<Longrightarrow> length bs = size_of b \<Longrightarrow> view (put bs b) = map Some bs"

text \<open>
  Any interleaving of the sessions that share a pool, one locked operation at a time: rentals,
  full writes and returns of the buffers outstanding.
\<close>

datatype pool_op = Rent nat | Write nat bytes | Give nat

fun pool_session :: "(nat \<Rightarrow> ('p, 'b, 'e) prog) \<Rightarrow> ('b \<Rightarrow> ('p, unit, 'e) prog) \<Rightarrow>
    ('b \<Rightarrow> nat) \<Rightarrow> (bytes \<Rightarrow> 'b \<Rightarrow> 'b) \<Rightarrow> pool_op list \<Rightarrow> 'b list \<Rightarrow> ('p, 'b list, 'e) prog" where
  "pool_session rent give sz wr [] held = ret held"
| "pool_session rent give sz wr (Rent n # ops) held =
     bnd (rent n) (\<lambda>b. pool_session rent give sz wr ops (held @ [b]))"
| "pool_session rent give sz wr (Write k bs # ops) held =
     (if k < length held \<and> length bs = sz (held ! k)
      then pool_session rent give sz wr ops (held[k := wr bs (held ! k)])
      else pool_session rent give sz wr ops held)"
| "pool_session rent give sz wr (Give k # ops) held =
     (if k < length held
      then andthen (give (held ! k)) (pool_session rent give sz wr ops (take k held @ drop (Suc k) held))
      else pool_session rent give sz wr ops held)"

context buffer_source
begin

lemma session_total:
  assumes "inv p" and "\<forall>b \<in> set held. owed (shape p) b" and "\<forall>n. Rent n \<in> set ops \<longrightarrow> n \<le> limit p"
  shows "\<exists>held' p'. pool_session rent give_back size_of put ops held p = (Ok held', p')
     \<and> inv p' \<and> shape p' = shape p \<and> (\<forall>b \<in> set held'. owed (shape p) b)"
  using assms
proof (induction ops arbitrary: held p)
  case Nil
  then show ?case by (simp add: prog_simps)
next
  case (Cons op ops)
  show ?case
  proof (cases op)
    case (Rent n)
    then obtain b p' where rent: "rent n p = (Ok b, p')" and p': "inv p'" "shape p' = shape p"
      and b: "owed (shape p) b"
      using rent_law[of p n] Cons.prems by auto
    have "\<forall>m. Rent m \<in> set ops \<longrightarrow> m \<le> limit p'"
      using Cons.prems(3) limit_shape[OF p'(2)] by auto
    then show ?thesis
      using Cons.IH[of p' "held @ [b]"] Cons.prems p' b Rent rent by (auto simp: bnd_Ok)
  next
    case (Write k bs)
    have "\<forall>b \<in> set (held[k := put bs (held ! k)]). owed (shape p) b"
      if "k < length held" "length bs = size_of (held ! k)"
      using that Cons.prems(2) put_owed set_update_subset_insert[of held k] by fastforce
    then show ?thesis
      using Cons.IH[of p "held[k := put bs (held ! k)]"] Cons.IH[of p held] Cons.prems Write by auto
  next
    case (Give k)
    show ?thesis
    proof (cases "k < length held")
      case True
      then obtain p' where give: "give_back (held ! k) p = (Ok (), p')" "inv p'" "shape p' = shape p"
        using give_law Cons.prems(1,2) by (meson nth_mem)
      have rest: "\<forall>b \<in> set (take k held @ drop (Suc k) held). owed (shape p') b"
        using Cons.prems(2) give(3) by (auto dest: in_set_takeD in_set_dropD)
      have "\<forall>m. Rent m \<in> set ops \<longrightarrow> m \<le> limit p'"
        using Cons.prems(3) limit_shape[OF give(3)] by auto
      then show ?thesis
        using Cons.IH[OF give(2) rest] give True Give by (auto simp: bnd_Ok)
    next
      case False
      then show ?thesis using Cons.IH[of p held] Cons.prems Give by auto
    qed
  qed
qed

text \<open>A rented buffer that has been written in full shows the new bytes and no others.\<close>

lemma rent_put_view:
  assumes "inv p" and "length bs \<le> limit p"
  shows "\<exists>b p'. rent (length bs) p = (Ok b, p') \<and> inv p' \<and> shape p' = shape p
     \<and> owed (shape p) (put bs b) \<and> view (put bs b) = map Some bs"
  using rent_law[OF assms] put_owed put_view by metis

end

definition pool_inv :: "multi_buffer_pool \<Rightarrow> bool" where
  "pool_inv p \<longleftrightarrow> pool_ok p \<and> buckets p \<noteq> []"

definition fill_pooled :: "bytes \<Rightarrow> pooled_bytes \<Rightarrow> pooled_bytes" where
  "fill_pooled bs pb = pb\<lparr>pb_buf := fill bs (pb_buf pb)\<rparr>"

definition pooled_view :: "pooled_bytes \<Rightarrow> u8 option list" where
  "pooled_view pb = as_slice (pb_buf pb)"

lemma pool_shape_nonempty: "pool_shape p' = pool_shape p \<Longrightarrow> buckets p' = [] \<longleftrightarrow> buckets p = []"
  by (metis length_0_conv length_pool_shape)

interpretation shared_pool: buffer_source pool_get pooled_drop max_capacity pool_inv pool_shape
  rented_ok exposed fill_pooled pooled_view
proof (unfold_locales, goal_cases)
  case (1 p n)
  then obtain pb p' where "pool_get n p = (Ok pb, p')" "pool_ok p'" "pool_shape p' = pool_shape p"
    "exposed pb = n" "rented_ok (pool_shape p) pb"
    using pool_get_ok[of p n] by (auto simp: pool_inv_def)
  then show ?case using 1 pool_shape_nonempty[of p' p] by (auto simp: pool_inv_def)
next
  case (2 p b)
  then obtain p' where "pooled_drop b p = (Ok (), p')" "pool_ok p'" "pool_shape p' = pool_shape p"
    using pooled_drop_ok[of p b] by (auto simp: pool_inv_def)
  then show ?case using 2 pool_shape_nonempty[of p' p] by (auto simp: pool_inv_def)
next
  case (3 p q)
  then show ?case by (simp add: max_capacity_shape)
next
  case (4 s b bs)
  then show ?case by (simp add: fill_pooled_def fill_exposes(2))
next
  case (5 s b bs)
  then show ?case by (simp add: fill_pooled_def pooled_view_def fill_exposes(1))
qed

lemma pool_new_inv:
  assumes "pool_new mn mx pre = Some p" and "0 < mn" and "mn \<le> mx"
  shows "pool_inv p"
proof -
  obtain bs where bs: "new_buckets mn mx pre [] = Some bs" and p: "p = \<lparr>buckets = bs\<rparr>"
    using assms(1) by (auto simp: pool_new_def)
  obtain k where "bs = map (\<lambda>j. new_bucket (mn * 2 ^ j) pre) [0..<k]" "mx < mn * 2 ^ k"
    using new_buckets_shape[OF assms(2) bs] by auto
  moreover have "k \<noteq> 0" using calculation(2) assms(3) by (cases k) auto
  ultimately show ?thesis
    using p pool_new_ok[OF assms(1,2)] by (simp add: pool_inv_def)
qed

subsection \<open>Properties\<close>



text \<open>
  From a pool in its invariant, a rental of any length up to the pool's maximum succeeds and
  hands out exactly that many bytes from the smallest bucket that fits; and after the full write
  that every reader does, the bytes in view are the bytes written, whatever an earlier holder
  left in the allocation.
\<close>

theorem pool_get_smallest_fit:
  assumes "pool_inv p" and "length bs \<le> max_capacity p"
  shows "\<exists>pb p'. pool_get (length bs) p = (Ok pb, p') \<and> pool_inv p' \<and> exposed pb = length bs
     \<and> length bs \<le> pb_original_capacity pb
     \<and> (\<forall>j < pb_bucket_index pb. bk_capacity (buckets p ! j) < length bs)
     \<and> pooled_view (fill_pooled bs pb) = map Some bs"
proof -
  obtain pb p' where get: "pool_get (length bs) p = (Ok pb, p')" "pool_ok p'"
      "pool_shape p' = pool_shape p" "exposed pb = length bs" "rented_ok (pool_shape p) pb"
      "length bs \<le> pb_original_capacity pb"
      "\<forall>j < pb_bucket_index pb. bk_capacity (buckets p ! j) < length bs"
    using pool_get_ok[of p "length bs"] assms by (auto simp: pool_inv_def)
  then have "pooled_view (fill_pooled bs pb) = map Some bs"
    using shared_pool.put_view[of "pool_shape p" pb bs] by simp
  then show ?thesis
    using get assms(1) pool_shape_nonempty[of p' p] by (auto simp: pool_inv_def)
qed

definition sample_pool :: multi_buffer_pool where
  "sample_pool = \<lparr>buckets = [new_bucket 4 1, new_bucket 8 1]\<rparr>"

lemma sample_pool_inv: "pool_inv sample_pool"
  by (simp add: pool_inv_def pool_ok_def bucket_ok_def sample_pool_def new_bucket_def with_capacity_def)

theorem pool_get_smallest_fit_witness:
  "\<exists>pb p'. pool_get (length [1, 2, 3, 4, 5 :: u8]) sample_pool = (Ok pb, p') \<and> pool_inv p'
     \<and> exposed pb = length [1, 2, 3, 4, 5 :: u8]
     \<and> length [1, 2, 3, 4, 5 :: u8] \<le> pb_original_capacity pb
     \<and> (\<forall>j < pb_bucket_index pb. bk_capacity (buckets sample_pool ! j) < length [1, 2, 3, 4, 5 :: u8])
     \<and> pooled_view (fill_pooled [1, 2, 3, 4, 5] pb) = map Some [1, 2, 3, 4, 5]"
  by (rule pool_get_smallest_fit[OF sample_pool_inv])
    (simp add: max_capacity_def sample_pool_def new_bucket_def)



end
