(* ===== verification/Packet.thy ===== *)
theory Packet
  imports Errors
begin

section \<open>Reading message bodies (\<open>proxy/packet.rs\<close>, \<open>proxy/wire_util.rs\<close>)\<close>

text \<open>
  \<open>MessageReader\<close>: a cursor over the exposed bytes of a pooled buffer. Every slice access of the
  source goes through \<open>index_at\<close> or \<open>slice_at\<close>, which panic out of range, so that the absence
  of panics is a theorem about the guards. \<open>unread\<close> is the abstract view of a reader: the bytes
  it has not consumed; each operation is characterised as a function of that view.
\<close>

subsection \<open>Slice accesses\<close>

definition index_at :: "bytes \<Rightarrow> nat \<Rightarrow> ('s, u8, 'e) prog" where
  "index_at bs i = (if i < length bs then ret (bs ! i) else panic)"

definition slice_at :: "bytes \<Rightarrow> nat \<Rightarrow> nat \<Rightarrow> ('s, bytes, 'e) prog" where
  "slice_at bs i j = (if i \<le> j \<and> j \<le> length bs then ret (take (j - i) (drop i bs)) else panic)"

lemma triple_index_at [triple_rules]:
  "(\<And>s. P s \<Longrightarrow> i < length bs \<and> Q (bs ! i) s) \<Longrightarrow> triple P (index_at bs i) Q E W"
  by (auto simp: triple_def index_at_def prog_simps)

lemma triple_slice_at [triple_rules]:
  "(\<And>s. P s \<Longrightarrow> i \<le> j \<and> j \<le> length bs \<and> Q (take (j - i) (drop i bs)) s) \<Longrightarrow>
   triple P (slice_at bs i j) Q E W"
  by (auto simp: triple_def slice_at_def prog_simps)

subsection \<open>The reader\<close>

record message_reader =
  buf :: bytes
  pos :: nat

definition reader_new :: "bytes \<Rightarrow> message_reader" where
  "reader_new bs = \<lparr>buf = bs, pos = 0\<rparr>"

definition remaining :: "message_reader \<Rightarrow> nat" where
  "remaining r = length (buf r) - pos r"

definition advance :: "nat \<Rightarrow> (message_reader, unit, 'e) prog" where
  "advance n = modify (\<lambda>r. r\<lparr>pos := pos r + n\<rparr>)"

definition read_byte :: "(message_reader, u8, internal_error) prog" where
  "read_byte r =
     (if remaining r = 0 then (Err (IoInternal UnexpectedEof ''Message body is empty''), r)
      else bnd (index_at (buf r) (pos r)) (\<lambda>byte. andthen (advance 1) (ret byte)) r)"

definition read_u16 :: "(message_reader, u16, internal_error) prog" where
  "read_u16 r =
     (if remaining r < 2 then (Err (IoInternal UnexpectedEof ''Not enough bytes to read''), r)
      else bnd (index_at (buf r) (pos r)) (\<lambda>a.
           bnd (index_at (buf r) (pos r + 1)) (\<lambda>b.
           andthen (advance 2) (ret (from_be16 a b)))) r)"

definition read_u32 :: "(message_reader, u32, proxy_error) prog" where
  "read_u32 r =
     (if remaining r < 4 then (Err (connection_error InvalidMessageLength), r)
      else bnd (index_at (buf r) (pos r)) (\<lambda>a.
           bnd (index_at (buf r) (pos r + 1)) (\<lambda>b.
           bnd (index_at (buf r) (pos r + 2)) (\<lambda>c.
           bnd (index_at (buf r) (pos r + 3)) (\<lambda>d.
           andthen (advance 4) (ret (from_be32 a b c d)))))) r)"

function read_string_loop :: "nat \<Rightarrow> (message_reader, string, proxy_error) prog" where
  "read_string_loop start r =
     (if pos r < length (buf r) then
        (if buf r ! pos r = 0 then
           bnd (slice_at (buf r) start (pos r)) (\<lambda>bs.
           bnd (of_opt (Internal Utf8Internal) (from_utf8 bs)) (\<lambda>message.
           andthen (advance 1) (ret message))) r
         else read_string_loop start (r\<lparr>pos := pos r + 1\<rparr>))
      else (Err (connection_error InvalidMessageLength), r))"
  by pat_completeness auto
termination by (relation "measure (\<lambda>(start, r). length (buf r) - pos r)") auto

declare read_string_loop.simps [simp del]

definition read_string :: "(message_reader, string, proxy_error) prog" where
  "read_string r = read_string_loop (pos r) r"

text \<open>\<open>size as usize\<close> of an \<open>i32\<close> sign-extends to 64 bits.\<close>

definition i32_as_usize :: "i32 \<Rightarrow> nat" where
  "i32_as_usize sz = unat (scast sz :: u64)"

definition read_string_fixed_size :: "i32 \<Rightarrow> (message_reader, string, proxy_error) prog" where
  "read_string_fixed_size sz r =
     (if remaining r < i32_as_usize sz then (Err (connection_error InvalidMessageLength), r)
      else andthen (advance (i32_as_usize sz))
           (bnd (slice_at (buf r) (pos r) (pos r + i32_as_usize sz)) (\<lambda>bs.
            of_opt (Internal Utf8Internal) (from_utf8 bs))) r)"

definition put_cstr :: "bytes \<Rightarrow> string \<Rightarrow> bytes" where
  "put_cstr out s = out @ as_bytes s @ [0]"

subsection \<open>The abstract view\<close>

definition reader_ok :: "message_reader \<Rightarrow> bool" where
  "reader_ok r \<longleftrightarrow> pos r \<le> length (buf r)"

definition unread :: "message_reader \<Rightarrow> bytes" where
  "unread r = drop (pos r) (buf r)"

lemma reader_new_ok [simp]: "reader_ok (reader_new bs)" "unread (reader_new bs) = bs"
  by (simp_all add: reader_new_def reader_ok_def unread_def)

lemma remaining_unread: "remaining r = length (unread r)"
  by (simp add: remaining_def unread_def)

lemma unread_nth:
  assumes "unread r = a @ b # c"
  shows "pos r + length a < length (buf r)" and "buf r ! (pos r + length a) = b"
proof -
  have "length (buf r) - pos r = length a + Suc (length c)"
    using arg_cong[OF assms, of length] by (simp add: unread_def)
  then show lt: "pos r + length a < length (buf r)" by linarith
  have "drop (pos r) (buf r) ! length a = b"
    using assms by (simp add: unread_def)
  then show "buf r ! (pos r + length a) = b"
    using lt by simp
qed

lemma unread_advance: "unread (r\<lparr>pos := pos r + n\<rparr>) = drop n (unread r)"
  by (simp add: unread_def add.commute)

lemma unread_slice: "unread r = a @ c \<Longrightarrow> take (length a) (drop (pos r) (buf r)) = a"
  by (simp add: unread_def)

lemma index_at_Ok: "i < length bs \<Longrightarrow> index_at bs i s = (Ok (bs ! i), s)"
  by (simp add: index_at_def prog_simps)

lemma slice_at_Ok: "i \<le> j \<Longrightarrow> j \<le> length bs \<Longrightarrow> slice_at bs i j s = (Ok (take (j - i) (drop i bs)), s)"
  by (simp add: slice_at_def prog_simps)

lemma advance_Ok: "advance n r = (Ok (), r\<lparr>pos := pos r + n\<rparr>)"
  by (simp add: advance_def prog_simps)

lemma read_byte_unread:
  "unread r = b # t \<Longrightarrow> read_byte r = (Ok b, r\<lparr>pos := pos r + 1\<rparr>)"
  using unread_nth[of r "[]" b t]
  by (simp add: read_byte_def remaining_unread bnd_def index_at_Ok advance_Ok prog_simps)

lemma read_u16_unread:
  assumes "unread r = a # b # t"
  shows "read_u16 r = (Ok (from_be16 a b), r\<lparr>pos := pos r + 2\<rparr>)"
  using unread_nth[of r "[]" a "b # t"] unread_nth[of r "[a]" b t] assms
  by (simp add: read_u16_def remaining_unread bnd_def index_at_Ok advance_Ok prog_simps)

lemma read_u32_unread:
  assumes "unread r = a # b # c # d # t"
  shows "read_u32 r = (Ok (from_be32 a b c d), r\<lparr>pos := pos r + 4\<rparr>)"
  using unread_nth[of r "[]" a "b # c # d # t"] unread_nth[of r "[a]" b "c # d # t"]
    unread_nth[of r "[a, b]" c "d # t"] unread_nth[of r "[a, b, c]" d t] assms
  by (simp add: read_u32_def remaining_unread bnd_def index_at_Ok advance_Ok prog_simps
      numeral_2_eq_2 numeral_3_eq_3)

lemma read_u32_short:
  "length (unread r) < 4 \<Longrightarrow> read_u32 r = (Err (connection_error InvalidMessageLength), r)"
  by (simp add: read_u32_def remaining_unread)

lemma read_u32_to_be32:
  "unread r = to_be32 w @ t \<Longrightarrow> read_u32 r = (Ok w, r\<lparr>pos := pos r + 4\<rparr>)"
  by (simp add: to_be32_def read_u32_unread from_to_be32)

lemma read_string_loop_unread:
  assumes "unread r = s @ 0 # t" and "0 \<notin> set s" and "start \<le> pos r"
  shows "read_string_loop start r =
    (case from_utf8 (drop start (take (pos r + length s) (buf r))) of
       None \<Rightarrow> (Err (Internal Utf8Internal), r\<lparr>pos := pos r + length s\<rparr>)
     | Some m \<Rightarrow> (Ok m, r\<lparr>pos := pos r + length s + 1\<rparr>))"
  using assms
proof (induction s arbitrary: r)
  case Nil
  note nth = unread_nth[of r "[]" 0 t]
  have "read_string_loop start r =
     bnd (of_opt (Internal Utf8Internal) (from_utf8 (drop start (take (pos r) (buf r)))))
         (\<lambda>message. andthen (advance 1) (ret message)) r"
    using nth Nil.prems
    by (simp add: read_string_loop.simps[of start r] bnd_def slice_at_Ok take_drop)
  then show ?case
    by (simp add: bnd_def of_opt_def advance_Ok prog_simps split: option.splits)
next
  case (Cons b s)
  have b: "pos r < length (buf r)" "buf r ! pos r = b" "b \<noteq> 0"
    using unread_nth[of r "[]" b "s @ 0 # t"] Cons.prems by auto
  have next_unread: "unread (r\<lparr>pos := pos r + 1\<rparr>) = s @ 0 # t"
    using Cons.prems(1) by (simp only: unread_advance) simp
  have "read_string_loop start r = read_string_loop start (r\<lparr>pos := pos r + 1\<rparr>)"
    using b by (subst read_string_loop.simps) simp
  then show ?case
    using Cons.IH[OF next_unread] Cons.prems(2,3) by (simp split: option.splits)
qed

lemma read_string_unread:
  assumes "unread r = s @ 0 # t" and "0 \<notin> set s"
  shows "read_string r =
    (case from_utf8 s of
       None \<Rightarrow> (Err (Internal Utf8Internal), r\<lparr>pos := pos r + length s\<rparr>)
     | Some m \<Rightarrow> (Ok m, r\<lparr>pos := pos r + length s + 1\<rparr>))"
proof -
  have "drop (pos r) (take (pos r + length s) (buf r)) = s"
    using unread_slice[of r s "0 # t"] assms(1) by (simp add: drop_take)
  then show ?thesis
    using read_string_loop_unread[OF assms order_refl] by (simp add: read_string_def)
qed

lemma read_string_loop_no_nul:
  assumes "0 \<notin> set (unread r)" and "reader_ok r"
  shows "read_string_loop start r =
    (Err (connection_error InvalidMessageLength), r\<lparr>pos := length (buf r)\<rparr>)"
  using assms
proof (induction "unread r" arbitrary: r)
  case Nil
  then have "pos r = length (buf r)" by (simp add: unread_def reader_ok_def)
  then show ?case by (simp add: read_string_loop.simps[of start r])
next
  case (Cons b t)
  have b: "pos r < length (buf r)" "buf r ! pos r = b"
    using unread_nth[of r "[]" b t] Cons.hyps(2) by auto
  have "t = unread (r\<lparr>pos := pos r + 1\<rparr>)"
    by (simp only: unread_advance) (simp add: Cons.hyps(2)[symmetric])
  then have "read_string_loop start (r\<lparr>pos := pos r + 1\<rparr>) =
      (Err (connection_error InvalidMessageLength), r\<lparr>pos := length (buf r)\<rparr>)"
    using Cons.hyps(1)[of "r\<lparr>pos := pos r + 1\<rparr>"] Cons.prems b Cons.hyps(2)[symmetric]
    by (simp add: reader_ok_def)
  moreover have "b \<noteq> 0" using Cons.prems(1) Cons.hyps(2)[symmetric] by auto
  ultimately show ?case using b by (subst read_string_loop.simps) simp
qed

lemma read_string_no_nul:
  "0 \<notin> set (unread r) \<Longrightarrow> reader_ok r \<Longrightarrow> read_string r =
    (Err (connection_error InvalidMessageLength), r\<lparr>pos := length (buf r)\<rparr>)"
  by (simp add: read_string_def read_string_loop_no_nul)

text \<open>The two cases together: what \<open>read_string\<close> does to any unread input.\<close>

lemma read_string_cases:
  assumes "reader_ok r"
  obtains (Str) s t m where "unread r = s @ 0 # t" "0 \<notin> set s" "from_utf8 s = Some m"
      "read_string r = (Ok m, r\<lparr>pos := pos r + length s + 1\<rparr>)"
    | (Utf8) s t where "unread r = s @ 0 # t" "0 \<notin> set s" "from_utf8 s = None"
      "read_string r = (Err (Internal Utf8Internal), r\<lparr>pos := pos r + length s\<rparr>)"
    | (Unterminated) "0 \<notin> set (unread r)"
      "read_string r = (Err (connection_error InvalidMessageLength), r\<lparr>pos := length (buf r)\<rparr>)"
proof (cases "0 \<in> set (unread r)")
  case True
  then obtain s t where st: "unread r = s @ 0 # t" "0 \<notin> set s"
    by (meson split_list_first)
  show ?thesis
    using read_string_unread[OF st] st that(1,2) by (cases "from_utf8 s") auto
next
  case False
  then show ?thesis using read_string_no_nul[OF False assms] that(3) by blast
qed

lemma i32_as_usize_eq: "i32_as_usize sz = nat (sint sz mod 2 ^ 64)"
proof -
  have "(scast sz :: u64) = word_of_int (sint sz)" by (rule scast_eq)
  then have "uint (scast sz :: u64) = sint sz mod 2 ^ LENGTH(64)" by (simp only: uint_word_of_int)
  moreover have "LENGTH(64) = 64" by simp
  ultimately show ?thesis by (simp only: i32_as_usize_def unat_eq_nat_uint)
qed
lemma i32_bounds: "- (2 ^ 31) \<le> sint (sz :: i32)" "sint sz < 2 ^ 31"
  using sint_greater_eq[of sz] sint_less[of sz] by simp_all

lemma i32_as_usize_nonneg: "0 \<le> sint sz \<Longrightarrow> i32_as_usize sz = nat (sint sz)"
  using i32_bounds[of sz] by (simp add: i32_as_usize_eq)

lemma i32_as_usize_neg: "sint sz < 0 \<Longrightarrow> 2 ^ 63 \<le> i32_as_usize sz"
proof -
  assume "sint sz < 0"
  then have "sint sz mod 2 ^ 64 = (sint sz + 2 ^ 64) mod 2 ^ 64" by simp
  also have "\<dots> = sint sz + 2 ^ 64"
    using i32_bounds[of sz] \<open>sint sz < 0\<close> by (intro mod_pos_pos_trivial) auto
  finally show ?thesis using i32_bounds[of sz] by (simp add: i32_as_usize_eq nat_le_iff le_nat_iff)
qed

lemma read_string_fixed_size_unread:
  assumes "unread r = s @ t" and "length s = i32_as_usize sz" and "reader_ok r"
  shows "read_string_fixed_size sz r =
    ((case from_utf8 s of None \<Rightarrow> Err (Internal Utf8Internal) | Some m \<Rightarrow> Ok m),
     r\<lparr>pos := pos r + length s\<rparr>)"
proof -
  have "length (buf r) - pos r = length s + length t"
    using arg_cong[OF assms(1), of length] by (simp add: unread_def)
  then have "pos r + length s \<le> length (buf r)"
    using assms(3) by (simp add: reader_ok_def)
  moreover have "take (length s) (drop (pos r) (buf r)) = s"
    using unread_slice[OF assms(1)] .
  ultimately show ?thesis
    using assms
    by (auto simp: read_string_fixed_size_def remaining_unread bnd_def advance_Ok slice_at_def
        of_opt_def prog_simps split: option.splits)
qed

lemma read_string_fixed_size_short:
  "length (unread r) < i32_as_usize sz \<Longrightarrow>
   read_string_fixed_size sz r = (Err (connection_error InvalidMessageLength), r)"
  by (simp add: read_string_fixed_size_def remaining_unread)

lemma read_string_fixed_size_neg:
  assumes "sint sz < 0" and "length (unread r) < 2 ^ 63"
  shows "read_string_fixed_size sz r = (Err (connection_error InvalidMessageLength), r)"
  using i32_as_usize_neg[OF assms(1)] assms(2)
  by (intro read_string_fixed_size_short) linarith

subsection \<open>Totality: no read leaves the body, none panics\<close>

definition reader_of :: "bytes \<Rightarrow> message_reader \<Rightarrow> bool" where
  "reader_of bs r \<longleftrightarrow> reader_ok r \<and> buf r = bs"

lemma read_u32_total:
  "triple (reader_of bs) read_u32 (\<lambda>_. reader_of bs) (\<lambda>e r. e = connection_error InvalidMessageLength \<and> reader_of bs r) W"
proof (rule tripleI)
  fix r x r' assume r: "reader_of bs r" and run: "read_u32 r = (x, r')"
  show "case x of Ok _ \<Rightarrow> reader_of bs r'
      | Err e \<Rightarrow> e = connection_error InvalidMessageLength \<and> reader_of bs r' | Panic \<Rightarrow> False | Pending \<Rightarrow> W r'"
  proof (cases "length (unread r) < 4")
    case True
    then show ?thesis using run r read_u32_short[OF True] by auto
  next
    case False
    then obtain a b c d t where u: "unread r = a # b # c # d # t"
      by (cases "unread r" rule: list.exhaust; cases "tl (unread r)" rule: list.exhaust;
          cases "tl (tl (unread r))" rule: list.exhaust; cases "tl (tl (tl (unread r)))" rule: list.exhaust) auto
    have "pos r + 4 \<le> length (buf r)"
      using arg_cong[OF u, of length] by (simp add: unread_def)
    then show ?thesis
      using run r read_u32_unread[OF u] by (auto simp: reader_of_def reader_ok_def)
  qed
qed

lemma read_string_total:
  "triple (reader_of bs) read_string (\<lambda>_. reader_of bs) (\<lambda>_. reader_of bs) W"
proof (rule tripleI)
  fix r x r' assume r: "reader_of bs r" and run: "read_string r = (x, r')"
  then have ok: "reader_ok r" by (simp add: reader_of_def)
  show "case x of Ok _ \<Rightarrow> reader_of bs r' | Err e \<Rightarrow> reader_of bs r' | Panic \<Rightarrow> False | Pending \<Rightarrow> W r'"
    using ok
  proof (cases rule: read_string_cases)
    case (Str s t m)
    then show ?thesis using run r unread_nth(1)[OF Str(1)] by (auto simp: reader_of_def reader_ok_def)
  next
    case (Utf8 s t)
    then show ?thesis using run r unread_nth(1)[OF Utf8(1)] by (auto simp: reader_of_def reader_ok_def)
  next
    case Unterminated
    then show ?thesis using run r by (auto simp: reader_of_def reader_ok_def)
  qed
qed

lemma read_string_fixed_size_total:
  "triple (reader_of bs) (read_string_fixed_size sz) (\<lambda>_. reader_of bs) (\<lambda>_. reader_of bs) W"
proof (rule tripleI)
  fix r x r' assume r: "reader_of bs r" and run: "read_string_fixed_size sz r = (x, r')"
  let ?n = "i32_as_usize sz"
  show "case x of Ok _ \<Rightarrow> reader_of bs r' | Err e \<Rightarrow> reader_of bs r' | Panic \<Rightarrow> False | Pending \<Rightarrow> W r'"
  proof (cases "length (unread r) < ?n")
    case True
    then show ?thesis using run r read_string_fixed_size_short[OF True] by auto
  next
    case False
    then have "unread r = take ?n (unread r) @ drop ?n (unread r)" "length (take ?n (unread r)) = ?n"
      by auto
    moreover have "pos r + ?n \<le> length (buf r)"
      using False r by (auto simp: unread_def reader_of_def reader_ok_def)
    ultimately show ?thesis
      using run r read_string_fixed_size_unread[of r "take ?n (unread r)" "drop ?n (unread r)" sz]
      by (auto simp: reader_of_def reader_ok_def split: option.splits)
  qed
qed

text \<open>A read never looks at more than it consumes, and never moves the cursor back.\<close>

lemma read_string_pos_mono:
  assumes "reader_ok r" and "read_string r = (x, r')"
  shows "pos r \<le> pos r' \<and> buf r' = buf r"
  using assms(1) by (cases rule: read_string_cases) (use assms in \<open>auto simp: reader_ok_def\<close>)

subsection \<open>Properties\<close>



text \<open>
  A C string written by \<open>put_cstr\<close> is read back: for a valid string without a NUL, wherever it
  stands in a body, \<open>read_string\<close> returns it and leaves the cursor right after its terminator;
  and an unterminated rest of a body is an \<open>invalid message length\<close> error.
\<close>

theorem cstr_round_trip:
  assumes "unread r = put_cstr [] s @ t" and "CHR 0x00 \<notin> set s" and "utf8_valid (as_bytes s)"
  shows "\<exists>r'. read_string r = (Ok s, r') \<and> unread r' = t \<and> buf r' = buf r"
proof -
  have u: "unread r = as_bytes s @ 0 # t" using assms(1) by (simp add: put_cstr_def)
  have "read_string r = (Ok s, r\<lparr>pos := pos r + length (as_bytes s) + 1\<rparr>)"
    using read_string_unread[OF u] assms(2,3) zero_in_as_bytes[of s] by (simp add: from_utf8_def)
  moreover have "unread (r\<lparr>pos := pos r + (length (as_bytes s) + 1)\<rparr>) = t"
    by (simp only: unread_advance u) simp
  ultimately show ?thesis by (simp add: add.assoc)
qed

theorem cstr_round_trip_witness:
  "\<exists>r'. read_string (reader_new (put_cstr [] ''user'' @ [7])) = (Ok ''user'', r')
     \<and> unread r' = [7] \<and> buf r' = buf (reader_new (put_cstr [] ''user'' @ [7]))"
proof (rule cstr_round_trip[of "reader_new (put_cstr [] ''user'' @ [7])" "''user''" "[7]"])
  show "utf8_valid (as_bytes ''user'')" by (rule utf8_valid_str) simp
qed simp_all

end
