(* ===== verification/Buffer_Scope.thy ===== *)
theory Buffer_Scope
  imports Buffer_Pool Packet
begin

section \<open>Rented buffers and their scopes\<close>

text \<open>
  A message body lives in a \<open>PooledBytes\<close> that goes back to the shared pool when its owner's scope
  ends, on every path: a normal end, \<open>?\<close>, a panic or a future dropped by a timeout. Components that
  keep the pool as one field of their state rent with \<open>rent_buffer\<close> and run the owner's scope inside
  \<open>drop_after\<close>. The locale \<open>pool_holder\<close> is what such a component provides, a field that can be read
  and replaced, and what it gets: a scope gives back what it rented.
\<close>

definition rent_buffer :: "('s \<Rightarrow> multi_buffer_pool) \<Rightarrow> (multi_buffer_pool \<Rightarrow> 's \<Rightarrow> 's) \<Rightarrow> nat \<Rightarrow>
    ('s, pooled_bytes, 'e) prog" where
  "rent_buffer get put n s =
     (case pool_get n (get s) of
        (Ok pb, p) \<Rightarrow> (Ok pb, put p s)
      | (_, p) \<Rightarrow> (Panic, put p s))"

definition drop_after :: "('s \<Rightarrow> multi_buffer_pool) \<Rightarrow> (multi_buffer_pool \<Rightarrow> 's \<Rightarrow> 's) \<Rightarrow> pooled_bytes \<Rightarrow>
    ('s, 'a, 'e) prog \<Rightarrow> ('s, 'a, 'e) prog" where
  "drop_after get put pb body s =
     (case body s of (r, s') \<Rightarrow>
       (case pooled_drop pb (get s') of
          (Ok _, p) \<Rightarrow> (r, put p s')
        | (_, p) \<Rightarrow> (Panic, put p s')))"

text \<open>\<open>read_exact(&mut buf)\<close> on a rented buffer, by a reader of \<open>n\<close> bytes; a failed read drops it.\<close>

definition read_into :: "('s \<Rightarrow> multi_buffer_pool) \<Rightarrow> (multi_buffer_pool \<Rightarrow> 's \<Rightarrow> 's) \<Rightarrow>
    (nat \<Rightarrow> ('s, bytes, 'e) prog) \<Rightarrow> pooled_bytes \<Rightarrow> ('s, pooled_bytes, 'e) prog" where
  "read_into get put reader pb s =
     (case reader (exposed pb) s of
        (Ok bs, s') \<Rightarrow> (Ok (fill_pooled bs pb), s')
      | (Err e, s') \<Rightarrow> drop_after get put pb (throw e) s'
      | (Panic, s') \<Rightarrow> drop_after get put pb panic s'
      | (Pending, s') \<Rightarrow> drop_after get put pb hang s')"

text \<open>The bytes in view of a rented buffer; a byte nobody has written would read as 0.\<close>

definition body_of :: "pooled_bytes \<Rightarrow> bytes" where
  "body_of pb = map (\<lambda>b. case b of Some x \<Rightarrow> x | None \<Rightarrow> 0) (pooled_view pb)"

lemma body_of_fill: "rented_ok sh pb \<Longrightarrow> length bs = exposed pb \<Longrightarrow> body_of (fill_pooled bs pb) = bs"
  using shared_pool.put_view[of sh pb bs] by (simp add: body_of_def o_def)

lemma length_body_of: "length (body_of pb) = exposed pb"
  by (simp add: body_of_def pooled_view_def exposed_def)

text \<open>A step of a local reader inside a component.\<close>

definition on_reader :: "(message_reader, 'a, 'e) prog \<Rightarrow> message_reader \<Rightarrow> ('s, 'a \<times> message_reader, 'e) prog" where
  "on_reader m r s =
     (case m r of
        (Ok x, r') \<Rightarrow> (Ok (x, r'), s)
      | (Err e, r') \<Rightarrow> (Err e, s)
      | (Panic, r') \<Rightarrow> (Panic, s)
      | (Pending, r') \<Rightarrow> (Pending, s))"

lemma triple_on_reader:
  assumes "triple (\<lambda>x. x = r) m (\<lambda>x r'. R x r') (\<lambda>e r'. F e) (\<lambda>r'. False)"
    and "\<And>x r' s. P s \<Longrightarrow> R x r' \<Longrightarrow> Q (x, r') s" and "\<And>e s. P s \<Longrightarrow> F e \<Longrightarrow> E e s"
  shows "triple P (on_reader m r) Q E W"
proof (rule tripleI)
  fix s x s' assume P: "P s" and run: "on_reader m r s = (x, s')"
  obtain y r' where m: "m r = (y, r')" by fastforce
  show "case x of Ok x \<Rightarrow> Q x s' | Err e \<Rightarrow> E e s' | Panic \<Rightarrow> False | Pending \<Rightarrow> W s'"
    using triple_Ok[OF assms(1) refl] triple_Err[OF assms(1) refl] triple_Pending[OF assms(1) refl]
      triple_Panic[OF assms(1) refl] m run assms(2,3)[OF P]
    by (cases y) (auto simp: on_reader_def)
qed

locale pool_holder =
  fixes get :: "'s \<Rightarrow> multi_buffer_pool" and put :: "multi_buffer_pool \<Rightarrow> 's \<Rightarrow> 's"
  assumes get_put: "get (put p s) = p"
begin

definition holds :: "(nat \<times> nat) list \<Rightarrow> 's \<Rightarrow> bool" where
  "holds sh s \<longleftrightarrow> pool_inv (get s) \<and> pool_shape (get s) = sh"

lemma triple_rent:
  fixes E :: "'e \<Rightarrow> 's \<Rightarrow> bool"
  assumes "\<And>p s. I (put p s) = I s"
  shows "triple (\<lambda>s. I s \<and> holds sh s \<and> n \<le> max_capacity (get s)) (rent_buffer get put n)
    (\<lambda>pb s. I s \<and> holds sh s \<and> rented_ok sh pb \<and> exposed pb = n) E W"
proof (rule tripleI)
  fix s s' and r :: "(pooled_bytes, 'e) outcome"
  assume s: "I s \<and> holds sh s \<and> n \<le> max_capacity (get s)"
    and run: "rent_buffer get put n s = (r, s')"
  then obtain pb p where "pool_get n (get s) = (Ok pb, p)" "pool_inv p" "pool_shape p = sh"
    "rented_ok sh pb" "exposed pb = n"
    using shared_pool.rent_law[of "get s" n] by (auto simp: holds_def)
  then show "case r of Ok pb \<Rightarrow> I s' \<and> holds sh s' \<and> rented_ok sh pb \<and> exposed pb = n
      | Err e \<Rightarrow> E e s' | Panic \<Rightarrow> False | Pending \<Rightarrow> W s'"
    using s run assms by (auto simp: rent_buffer_def holds_def get_put)
qed

lemma drop_ok:
  assumes "holds sh s" and "rented_ok sh pb"
  shows "\<exists>p. pooled_drop pb (get s) = (Ok (), p) \<and> holds sh (put p s)"
  using shared_pool.give_law[of "get s" pb] assms by (auto simp: holds_def get_put)

lemma triple_drop_after:
  assumes "rented_ok sh pb"
    and "triple P body (\<lambda>x s. Q x s \<and> holds sh s) (\<lambda>e s. E e s \<and> holds sh s) (\<lambda>s. W s \<and> holds sh s)"
    and "\<And>x p s. Q x (put p s) = Q x s" "\<And>e p s. E e (put p s) = E e s" "\<And>p s. W (put p s) = W s"
  shows "triple P (drop_after get put pb body)
    (\<lambda>x s. Q x s \<and> holds sh s) (\<lambda>e s. E e s \<and> holds sh s) (\<lambda>s. W s \<and> holds sh s)"
proof (rule tripleI)
  fix s r s' assume P: "P s" and run: "drop_after get put pb body s = (r, s')"
  obtain r1 s1 where b: "body s = (r1, s1)" by fastforce
  have post: "case r1 of Ok x \<Rightarrow> Q x s1 \<and> holds sh s1 | Err e \<Rightarrow> E e s1 \<and> holds sh s1
      | Panic \<Rightarrow> False | Pending \<Rightarrow> W s1 \<and> holds sh s1"
    using assms(2) P b by (auto simp: triple_def)
  then have "holds sh s1" by (cases r1) simp_all
  then obtain p where p: "pooled_drop pb (get s1) = (Ok (), p)" "holds sh (put p s1)"
    using drop_ok assms(1) by blast
  then have "r = r1" "s' = put p s1" using run b by (auto simp: drop_after_def)
  then show "case r of Ok x \<Rightarrow> Q x s' \<and> holds sh s' | Err e \<Rightarrow> E e s' \<and> holds sh s'
      | Panic \<Rightarrow> False | Pending \<Rightarrow> W s' \<and> holds sh s'"
    using post p(2) assms(3-5) by (cases r1) simp_all
qed

lemma triple_read_into:
  assumes "rented_ok sh pb"
    and "triple P (reader (exposed pb)) (\<lambda>bs s. length bs = exposed pb \<and> Q bs s \<and> holds sh s)
      (\<lambda>e s. E e s \<and> holds sh s) (\<lambda>s. W s \<and> holds sh s)"
    and "\<And>e p s. E e (put p s) = E e s" "\<And>p s. W (put p s) = W s"
  shows "triple P (read_into get put reader pb)
    (\<lambda>pb' s. rented_ok sh pb' \<and> exposed pb' = exposed pb \<and> Q (body_of pb') s \<and> holds sh s)
    (\<lambda>e s. E e s \<and> holds sh s) (\<lambda>s. W s \<and> holds sh s)"
proof (rule tripleI)
  fix s r s' assume P: "P s" and run: "read_into get put reader pb s = (r, s')"
  obtain r1 s1 where b: "reader (exposed pb) s = (r1, s1)" by fastforce
  have post: "case r1 of Ok bs \<Rightarrow> length bs = exposed pb \<and> Q bs s1 \<and> holds sh s1 | Err e \<Rightarrow> E e s1 \<and> holds sh s1
      | Panic \<Rightarrow> False | Pending \<Rightarrow> W s1 \<and> holds sh s1"
    using assms(2) P b by (auto simp: triple_def)
  then have h: "holds sh s1" by (cases r1) simp_all
  obtain p where p: "pooled_drop pb (get s1) = (Ok (), p)" "holds sh (put p s1)"
    using drop_ok[OF h assms(1)] by blast
  show "case r of Ok pb' \<Rightarrow> rented_ok sh pb' \<and> exposed pb' = exposed pb \<and> Q (body_of pb') s' \<and> holds sh s'
      | Err e \<Rightarrow> E e s' \<and> holds sh s' | Panic \<Rightarrow> False | Pending \<Rightarrow> W s' \<and> holds sh s'"
  proof (cases r1)
    case (Ok bs)
    then have "length bs = exposed pb" using post by simp
    then have "rented_ok sh (fill_pooled bs pb)" "body_of (fill_pooled bs pb) = bs"
      "exposed (fill_pooled bs pb) = exposed pb"
      using assms(1) shared_pool.put_owed[of sh pb bs] body_of_fill[of sh pb bs]
        length_body_of[of "fill_pooled bs pb"] by simp_all
    then show ?thesis using Ok run b post by (auto simp: read_into_def)
  qed (use run b p post assms(3,4) in \<open>auto simp: read_into_def drop_after_def prog_simps\<close>)
qed

end

end
