(* ===== verification/Session_Registry.thy ===== *)
theory Session_Registry
  imports Rust_Std
begin

section \<open>Cancel keys (\<open>backend/registry.rs\<close>, \<open>backend/session_key_secret.rs\<close>)\<close>

text \<open>
  Each session publishes a key the proxy minted; a \<open>CancelRequest\<close> that carries the key is routed to
  the session's backend. \<open>Registry\<close> keeps two maps behind one lock, from the connection id and from
  the key to the backend, and the \<open>SessionGuard\<close> of a session takes its entries out when it drops.
  The backend is a type variable: the registry only stores it. \<open>thread_rng\<close> is the stream \<open>rng\<close> of
  the 32-bit values it is going to return, read at a position.
\<close>

unbundle bit_operations_syntax

subsection \<open>Keys\<close>

record session_key_secret =
  skey :: i32
  ssecret :: i32

fun key_draws :: "nat \<Rightarrow> (nat \<Rightarrow> i32) \<Rightarrow> nat \<Rightarrow> session_key_secret \<times> nat" where
  "key_draws 0 rng n = (\<lparr>skey = rng n, ssecret = rng (n + 1) OR 1\<rparr>, n + 2)"
| "key_draws (Suc tries) rng n =
     (let key = rng n; secret = rng (n + 1) in
      if secret \<noteq> 0 then (\<lparr>skey = key, ssecret = secret\<rparr>, n + 2) else key_draws tries rng (n + 2))"

definition session_key_new :: "(nat \<Rightarrow> i32) \<Rightarrow> nat \<Rightarrow> session_key_secret \<times> nat" where
  "session_key_new rng n = key_draws 64 rng n"

lemma or_one_nonzero: "(w :: i32) OR 1 \<noteq> 0"
proof
  assume "w OR 1 = 0"
  then have "bit (w OR 1) 0 = bit (0 :: i32) 0" by simp
  then show False by (simp add: bit_or_iff)
qed

lemma key_draws_secret: "key_draws t rng n = (k, n') \<Longrightarrow> ssecret k \<noteq> 0"
  by (induction t arbitrary: n) (auto simp: Let_def or_one_nonzero split: if_splits)

lemma key_draws_progress: "key_draws t rng n = (k, n') \<Longrightarrow> n < n' \<and> n' \<le> n + 2 * (t + 1)"
  by (induction t arbitrary: n) (fastforce simp: Let_def split: if_splits)+

subsection \<open>The registry\<close>

record 'b session_inner =
  conn_backend :: "i32 \<Rightarrow> 'b option"
  key_secret_backend :: "session_key_secret \<Rightarrow> 'b option"

definition registry_new :: "'b session_inner" where
  "registry_new = \<lparr>conn_backend = (\<lambda>_. None), key_secret_backend = (\<lambda>_. None)\<rparr>"

text \<open>\<open>None\<close> is \<open>Err(key_secret)\<close>: the key is taken and nothing changed.\<close>

definition register :: "'b session_inner \<Rightarrow> 'b \<Rightarrow> i32 \<Rightarrow> session_key_secret \<Rightarrow> 'b session_inner option" where
  "register s backend conn_id key =
     (if key_secret_backend s key \<noteq> None then None
      else Some (s\<lparr>conn_backend := (conn_backend s)(conn_id \<mapsto> backend),
                   key_secret_backend := (key_secret_backend s)(key \<mapsto> backend)\<rparr>))"

definition lookup_by_key :: "'b session_inner \<Rightarrow> session_key_secret \<Rightarrow> 'b option" where
  "lookup_by_key s key = key_secret_backend s key"

definition lookup_backend_key ::
    "('b \<Rightarrow> 'k option) \<Rightarrow> 'b session_inner \<Rightarrow> session_key_secret \<Rightarrow> 'k option" where
  "lookup_backend_key backend_key s key = Option.bind (lookup_by_key s key) backend_key"

definition guard_drop :: "'b session_inner \<Rightarrow> i32 \<Rightarrow> session_key_secret \<Rightarrow> 'b session_inner" where
  "guard_drop s conn_id key =
     (let s' = s\<lparr>conn_backend := (conn_backend s)(conn_id := None)\<rparr> in
      if conn_backend s conn_id \<noteq> None
      then s'\<lparr>key_secret_backend := (key_secret_backend s)(key := None)\<rparr> else s')"

subsection \<open>The contract of a cancel registry\<close>

locale cancel_registry =
  fixes reg :: "'s \<Rightarrow> 'b \<Rightarrow> i32 \<Rightarrow> 'k \<Rightarrow> 's option"
    and unreg :: "'s \<Rightarrow> i32 \<Rightarrow> 'k \<Rightarrow> 's"
    and resolve :: "'s \<Rightarrow> 'k \<Rightarrow> 'b option"
    and holds :: "'s \<Rightarrow> i32 \<Rightarrow> bool"
  assumes reg_refused: "reg s b c k = None \<longleftrightarrow> resolve s k \<noteq> None"
    and reg_resolve: "reg s b c k = Some s' \<Longrightarrow> resolve s' k' = (if k' = k then Some b else resolve s k')"
    and reg_holds: "reg s b c k = Some s' \<Longrightarrow> holds s' c' \<longleftrightarrow> c' = c \<or> holds s c'"
    and unreg_resolve:
      "resolve (unreg s c k) k' = (if k' = k \<and> holds s c then None else resolve s k')"
    and unreg_holds: "holds (unreg s c k) c' \<longleftrightarrow> c' \<noteq> c \<and> holds s c'"

text \<open>
  A run of the registry: sessions open with a key of their own minting and close in any order. The
  list of running sessions is the specification: connection id, key and backend of each.
\<close>

datatype ('k, 'b) cancel_event = Open_Session i32 'k 'b | Close_Session i32

fun cancel_run :: "('s \<Rightarrow> 'b \<Rightarrow> i32 \<Rightarrow> 'k \<Rightarrow> 's option) \<Rightarrow> ('s \<Rightarrow> i32 \<Rightarrow> 'k \<Rightarrow> 's) \<Rightarrow>
    ('k, 'b) cancel_event list \<Rightarrow> (i32 \<times> 'k \<times> 'b) list \<Rightarrow> 's \<Rightarrow> (i32 \<times> 'k \<times> 'b) list \<times> 's" where
  "cancel_run rg un [] running s = (running, s)"
| "cancel_run rg un (Open_Session c k b # es) running s =
     (case rg s b c k of
        Some s' \<Rightarrow> cancel_run rg un es ((c, k, b) # running) s'
      | None \<Rightarrow> cancel_run rg un es running s)"
| "cancel_run rg un (Close_Session c # es) running s =
     (case map_of running c of
        Some (k, b) \<Rightarrow>
          cancel_run rg un es (filter (\<lambda>r. fst r \<noteq> c) running) (un s c k)
      | None \<Rightarrow> cancel_run rg un es running s)"

fun opened_ids :: "('k, 'b) cancel_event list \<Rightarrow> i32 list" where
  "opened_ids [] = []"
| "opened_ids (Open_Session c k b # es) = c # opened_ids es"
| "opened_ids (Close_Session c # es) = opened_ids es"

context cancel_registry
begin

definition agrees :: "(i32 \<times> 'k \<times> 'b) list \<Rightarrow> 's \<Rightarrow> bool" where
  "agrees running s \<longleftrightarrow>
     distinct (map fst running) \<and> distinct (map (fst \<circ> snd) running) \<and>
     (\<forall>c. holds s c \<longleftrightarrow> c \<in> fst ` set running) \<and>
     (\<forall>k b. resolve s k = Some b \<longleftrightarrow> (\<exists>c. (c, k, b) \<in> set running))"

lemma agrees_open:
  assumes "agrees running s" and "reg s b c k = Some s'" and "c \<notin> fst ` set running"
  shows "agrees ((c, k, b) # running) s'"
proof -
  have free: "resolve s k = None"
    using reg_refused[of s b c k] assms(2) by simp
  have "k \<notin> (fst \<circ> snd) ` set running"
    using assms(1) free by (force simp: agrees_def)
  moreover have "resolve s' k' = Some b' \<longleftrightarrow> (\<exists>c'. (c', k', b') \<in> set ((c, k, b) # running))" for k' b'
  proof -
    have "(c', k, b') \<notin> set running" for c'
      using assms(1) free unfolding agrees_def by (metis option.distinct(1))
    moreover have "resolve s k' = Some b' \<longleftrightarrow> (\<exists>c'. (c', k', b') \<in> set running)"
      using assms(1) unfolding agrees_def by blast
    ultimately show ?thesis using reg_resolve[OF assms(2), of k'] by auto
  qed
  ultimately show ?thesis
    using assms(1,3) by (auto simp: agrees_def reg_holds[OF assms(2)])
qed

lemma agrees_close:
  assumes "agrees running s" and "map_of running c = Some (k, b)"
  shows "agrees (filter (\<lambda>r. fst r \<noteq> c) running) (unreg s c k)"
proof -
  have mem: "(c, k, b) \<in> set running" using assms(2) by (rule map_of_SomeD)
  have inj: "inj_on fst (set running)" "inj_on (fst \<circ> snd) (set running)"
    using assms(1) by (auto simp: agrees_def distinct_map)
  have same: "(c', k', b') \<in> set running \<Longrightarrow> (c' = c) = (k' = k)" for c' k' b'
    using inj_onD[OF inj(1) _ _ mem, of "(c', k', b')"] inj_onD[OF inj(2) _ _ mem, of "(c', k', b')"]
    by auto
  have "holds s c" using assms(1) mem by (force simp: agrees_def)
  moreover have "(\<exists>c'. (c', k', b') \<in> set (filter (\<lambda>r. fst r \<noteq> c) running)) \<longleftrightarrow>
      k' \<noteq> k \<and> (\<exists>c'. (c', k', b') \<in> set running)" for k' b'
    using same by auto
  ultimately show ?thesis
    using assms(1) unfolding agrees_def unreg_resolve unreg_holds
    by (auto simp: distinct_map_filter)
qed

lemma run_agrees:
  assumes "agrees running s" and "distinct (opened_ids es)"
    and "fst ` set running \<inter> set (opened_ids es) = {}"
    and "cancel_run reg unreg es running s = (running', s')"
  shows "agrees running' s'"
  using assms
proof (induction es arbitrary: running s)
  case (Cons e es)
  show ?case
  proof (cases e)
    case (Open_Session c k b)
    then show ?thesis
      using Cons.prems Cons.IH[of running s] Cons.IH[of "(c, k, b) # running"]
        agrees_open[of running s b c k]
      by (cases "reg s b c k") auto
  next
    case (Close_Session c)
    show ?thesis
    proof (cases "map_of running c")
      case None
      then show ?thesis using Close_Session Cons.prems Cons.IH[of running s] by simp
    next
      case (Some kb)
      obtain k b where kb: "kb = (k, b)" by (cases kb)
      have "fst ` set (filter (\<lambda>r. fst r \<noteq> c) running) \<inter> set (opened_ids es) = {}"
        using Cons.prems(3) Close_Session by auto
      then show ?thesis
        using Cons.IH agrees_close[of running s c k b] Close_Session Cons.prems Some kb by simp
    qed
  qed
qed simp

lemma agrees_resolve: "agrees running s \<Longrightarrow> resolve s k = Some b \<longleftrightarrow> (\<exists>c. (c, k, b) \<in> set running)"
  by (simp add: agrees_def)

end

interpretation cancel_keys: cancel_registry register guard_drop lookup_by_key
  "\<lambda>s c. conn_backend s c \<noteq> None"
  by unfold_locales
     (auto simp: register_def guard_drop_def lookup_by_key_def Let_def split: if_splits)

text \<open>
  Connection ids come from a counter that wraps around. If two running sessions share one, the end of the first
  takes the entry of the id away, and the end of the second then leaves its key behind.
\<close>

lemma reused_id_leaks_a_key:
  assumes "register s b c k = Some s'" and "register s' b' c k' = Some s''" and "k' \<noteq> k"
  shows "lookup_by_key (guard_drop (guard_drop s'' c k) c k') k' = Some b'"
  using assms by (auto simp: register_def guard_drop_def lookup_by_key_def Let_def split: if_splits)

subsection \<open>Properties\<close>

text \<open>
  A minted cancel key never has secret 0, whatever the random numbers are, and minting ends
  after at most 65 draws.
\<close>

theorem minted_secret_is_never_zero:
  "ssecret (fst (session_key_new rng n)) \<noteq> 0 \<and> snd (session_key_new rng n) \<le> n + 130"
  using key_draws_secret[of 64 rng n] key_draws_progress[of 64 rng n]
  by (cases "session_key_new rng n") (simp add: session_key_new_def)

text \<open>
  In every run of sessions with distinct connection ids, a cancel key resolves to a backend
  exactly if a session that is still running registered the key with that backend: no key is
  hijacked by a collision, survives its session, or is dropped by another session's end.
\<close>

theorem cancel_keys_route_to_live_sessions:
  assumes "distinct (opened_ids es)"
    and "cancel_run register guard_drop es [] registry_new = (running, s)"
  shows "lookup_by_key s k = Some b \<longleftrightarrow> (\<exists>c. (c, k, b) \<in> set running)"
proof -
  have "cancel_keys.agrees [] registry_new"
    unfolding cancel_keys.agrees_def by (simp add: registry_new_def lookup_by_key_def)
  then have "cancel_keys.agrees running s"
    by (rule cancel_keys.run_agrees[OF _ assms(1) _ assms(2)]) simp
  then show ?thesis by (rule cancel_keys.agrees_resolve)
qed

theorem cancel_keys_route_to_live_sessions_witness:
  "lookup_by_key
     (snd (cancel_run register guard_drop
        [Open_Session 1 \<lparr>skey = 7, ssecret = 9\<rparr> CHR ''a'', Open_Session 2 \<lparr>skey = 7, ssecret = 9\<rparr> CHR ''b'',
         Open_Session 3 \<lparr>skey = 8, ssecret = 9\<rparr> CHR ''c'', Close_Session 1] [] registry_new))
     \<lparr>skey = 8, ssecret = 9\<rparr> = Some CHR ''c''"
  (is "lookup_by_key (snd (cancel_run _ _ ?es _ _)) ?k = _")
proof -
  have "cancel_run register guard_drop ?es [] registry_new =
      ([(3, \<lparr>skey = 8, ssecret = 9\<rparr>, CHR ''c'')], snd (cancel_run register guard_drop ?es [] registry_new))"
    by (simp add: register_def guard_drop_def registry_new_def Let_def)
  from cancel_keys_route_to_live_sessions[OF _ this, of ?k "CHR ''c''"]
  show ?thesis by simp
qed

end
