(* ===== verification/Pg_Client.thy ===== *)
theory Pg_Client
  imports Pg_Link Scram_Client Buffer_Scope Session_Registry
begin

section \<open>The backend client (\<open>backend/pg_client.rs\<close>, \<open>Backend\<close> of \<open>backend/mod.rs\<close>)\<close>

text \<open>
  \<open>PgClient::connect\<close>: TCP, the TLS negotiation, the startup message and the authentication
  handshake up to \<open>ReadyForQuery\<close>. Message bodies are read into buffers of the pool all sessions
  share. The loop of \<open>handle_startup_handshake\<close> runs on fuel; each round consumes at least five of
  the bytes the link has, so one more than their number is enough, which
  \<open>handshake_loop_enough_fuel\<close> proves. The random bytes of the client nonces are the stream \<open>rnd\<close>.
\<close>

record backend_key_data =
  bk_pid :: i32
  bk_secret :: i32

datatype startup_notification = ParameterStatus string string | Notice bytes

record pg_client =
  pc_pool :: multi_buffer_pool
  pc_link :: link
  pc_notifications :: "startup_notification list"
  pc_backend_key :: "backend_key_data option"
  pc_ready_status :: "u8 option"
  pc_verified :: bool
  pc_cert_hash :: "cert_hash option"
  pc_host :: string
  pc_port :: u16
  pc_connect_timeout :: u64
  pc_draws :: nat

definition put_pc_pool :: "multi_buffer_pool \<Rightarrow> pg_client \<Rightarrow> pg_client" where
  "put_pc_pool p c = c\<lparr>pc_pool := p\<rparr>"

interpretation pg_pool: pool_holder pc_pool put_pc_pool
  by unfold_locales (simp add: put_pc_pool_def)

definition on_link :: "(link, 'a, 'e) prog \<Rightarrow> (pg_client, 'a, 'e) prog" where
  "on_link m c = (case m (pc_link c) of (r, l) \<Rightarrow> (r, c\<lparr>pc_link := l\<rparr>))"

definition PROTOCOL_VERSION_NUMBER :: u32 where
  "PROTOCOL_VERSION_NUMBER = push_bit 16 3 OR 0"

definition show_i32 :: "i32 \<Rightarrow> string" where
  "show_i32 w = (if sint w < 0 then CHR ''-'' # show_nat (nat (- sint w)) else show_nat (nat (sint w)))"

subsection \<open>Messages\<close>

definition pg_write_raw :: "bytes \<Rightarrow> (pg_client, unit, pg_error) prog" where
  "pg_write_raw bs = on_link (ts_write_all bs)"

definition pg_write_message :: "u8 \<Rightarrow> bytes \<Rightarrow> (pg_client, unit, pg_error) prog" where
  "pg_write_message tag body = pg_write_raw (tag # to_be32 (of_nat (4 + length body)) @ body)"

definition be32_at :: "bytes \<Rightarrow> u32" where
  "be32_at bs = from_be32 (bs ! 0) (bs ! 1) (bs ! 2) (bs ! 3)"

definition read_message_header :: "(pg_client, u8 \<times> nat, pg_error) prog" where
  "read_message_header =
     bnd (on_link (ts_read_exact 5)) (\<lambda>buff.
     let len = be32_at (drop 1 buff) in
     if sint len < 4 then throw (PgProtocol (''invalid frame length: '' @ show_i32 len))
     else ret (buff ! 0, i32_as_usize (len - 4)))"

definition pg_read_message_body :: "nat \<Rightarrow> (pg_client, pooled_bytes, pg_error) prog" where
  "pg_read_message_body payload_len =
     bnd (gets (\<lambda>c. max_capacity (pc_pool c))) (\<lambda>mx.
     if payload_len > mx then
       throw (PgProtocol (''backend message body '' @ show_nat payload_len @ '' exceeds the buffer pool capacity''))
     else
       bnd (rent_buffer pc_pool put_pc_pool payload_len)
         (read_into pc_pool put_pc_pool (\<lambda>n. on_link (ts_read_exact n))))"

function parse_error_fields :: "bytes \<Rightarrow> string \<times> string \<times> string \<Rightarrow> string \<times> string \<times> string" where
  "parse_error_fields [] acc = acc"
| "parse_error_fields (field # rest) (severity, code, message) =
     (if field = 0 then (severity, code, message)
      else
        (let value = from_utf8_lossy (takeWhile (\<lambda>b. b \<noteq> 0) rest);
             rest' = drop 1 (dropWhile (\<lambda>b. b \<noteq> 0) rest) in
         parse_error_fields rest'
           (if field = 0x53 \<or> field = 0x56 then (value, code, message)
            else if field = 0x43 then (severity, value, message)
            else if field = 0x4D then (severity, code, value)
            else (severity, code, message))))"
  by pat_completeness auto
termination
proof (relation "measure (length \<circ> fst)", goal_cases)
  case (2 field rest)
  have "length (dropWhile (\<lambda>b. b \<noteq> 0) rest) \<le> length rest" by (rule length_dropWhile_le)
  then show ?case using 2 by simp
qed simp

definition parse_error_response :: "bytes \<Rightarrow> string \<times> string \<times> string" where
  "parse_error_response body = parse_error_fields body (''FATAL'', ''XX000'', [])"

definition backend_error :: "bytes \<Rightarrow> pg_error" where
  "backend_error payload = (case parse_error_response payload of (sev, code, msg) \<Rightarrow> PgBackend sev code msg)"

definition unsupported_method_message :: "u32 \<Rightarrow> string" where
  "unsupported_method_message code =
     (let known = (\<lambda>m. ''backend requested '' @ m @ '' authentication, which wirechaos does not support'') in
      if code = 2 then known ''Kerberos''
      else if code = 6 then known ''SCM credentials''
      else if code = 7 then known ''GSSAPI''
      else if code = 8 then known ''GSSAPI continuation''
      else if code = 9 then known ''SSPI''
      else ''backend requested unsupported authentication method '' @ show_u32 code)"

text \<open>\<open>{:?}\<close> of the list of names.\<close>

definition lossy_mechanism_names :: "bytes \<Rightarrow> string list" where
  "lossy_mechanism_names body = map from_utf8_lossy (filter (\<lambda>n. n \<noteq> []) (split_on 0 body))"

fun join_comma :: "string list \<Rightarrow> string" where
  "join_comma [] = []"
| "join_comma [s] = s"
| "join_comma (s # t # ss) = s @ '', '' @ join_comma (t # ss)"

definition debug_list :: "net \<Rightarrow> string list \<Rightarrow> string" where
  "debug_list N ss = ''['' @ join_comma (map (net_debug_str N) ss) @ '']''"

subsection \<open>The startup message\<close>

definition saw :: "string \<Rightarrow> (string \<times> string) list \<Rightarrow> bool" where
  "saw name params \<longleftrightarrow> name \<in> fst ` set params"

definition startup_pairs :: "pg_config \<Rightarrow> (string \<times> string) list" where
  "startup_pairs cfg =
     (let ps = cf_startup_params cfg in
      ps
      @ (if saw ''user'' ps then [] else [(''user'', cf_user cfg)])
      @ (if saw ''database'' ps then [] else [(''database'', cf_database cfg)])
      @ (if saw ''application_name'' ps then [] else [(''application_name'', ''wirechaos'')]))"

definition startup_body :: "pg_config \<Rightarrow> bytes" where
  "startup_body cfg =
     to_be32 PROTOCOL_VERSION_NUMBER
     @ concat (map (\<lambda>(name, value). put_cstr [] name @ put_cstr [] value) (startup_pairs cfg)) @ [0]"

definition write_startup_message :: "pg_config \<Rightarrow> (pg_client, unit, pg_error) prog" where
  "write_startup_message cfg =
     pg_write_raw (to_be32 (of_nat (4 + length (startup_body cfg))) @ startup_body cfg)"

subsection \<open>Authentication requests\<close>

definition handle_cleartext :: "pg_config \<Rightarrow> (pg_client, unit, pg_error) prog" where
  "handle_cleartext cfg =
     (case cf_password cfg of
        None \<Rightarrow> throw (PgUnsupportedAuth ''backend requires a cleartext password, but only a SCRAM secret is available; configure a plaintext password for this user'')
      | Some password \<Rightarrow> pg_write_message 0x70 (password @ [0]))"

definition handle_md5 :: "crypto \<Rightarrow> pg_config \<Rightarrow> bytes \<Rightarrow> (pg_client, unit, pg_error) prog" where
  "handle_md5 C cfg body =
     (if length body \<noteq> 4 then throw (PgProtocol ''AuthenticationMD5Password must carry a 4-byte salt'')
      else
        (case cf_password cfg of
           None \<Rightarrow> throw (PgUnsupportedAuth ''backend requires MD5 authentication, but only a SCRAM secret is available; MD5 cannot be derived from StoredKey/ServerKey, so configure a plaintext password'')
         | Some password \<Rightarrow> pg_write_message 0x70 (as_bytes (md5_response C (cf_user cfg) password body) @ [0])))"

definition read_authentication_data :: "net \<Rightarrow> u32 \<Rightarrow> (pg_client, bytes, pg_error) prog" where
  "read_authentication_data N expected =
     bnd read_message_header (\<lambda>(tag, payload_len).
     bnd (pg_read_message_body payload_len) (\<lambda>pb.
     drop_after pc_pool put_pc_pool pb (
       let payload = body_of pb in
       if tag = 0x45 then throw (backend_error payload)
       else if tag \<noteq> 0x52 then
         throw (PgProtocol (''expected an authentication message, got '' @ net_debug_byte N tag))
       else if length payload < 4 then
         throw (PgProtocol ''authentication message is shorter than its sub-code'')
       else
         (let auth_type = be32_at payload in
          if auth_type \<noteq> expected then
            throw (PgProtocol (''expected authentication sub-code '' @ show_u32 expected @ '', got '' @ show_u32 auth_type))
          else ret (drop 4 payload)))))"

definition select_scram :: "crypto \<Rightarrow> (nat \<Rightarrow> bytes) \<Rightarrow> pg_config \<Rightarrow> sasl_mechanism \<Rightarrow>
    (pg_client, scram_client, pg_error) prog" where
  "select_scram C rnd cfg chosen =
     bnd (gets id) (\<lambda>c.
     andthen (modify (\<lambda>c. c\<lparr>pc_draws := pc_draws c + 1\<rparr>)) (
     let cl = scram_client_new C (rnd (pc_draws c)) (cf_client_key cfg) (cf_server_key cfg)
                (cf_stored_key cfg) (cf_password cfg) in
     if chosen = ScramSha256Plus then
       bnd (of_opt (PgChannelBindingRequired ''the backend selected -PLUS but no certificate hash is available'') (pc_cert_hash c))
         (\<lambda>h. ret (use_channel_binding (cbind_input h) cl))
     else ret cl))"

definition handle_sasl :: "crypto \<Rightarrow> net \<Rightarrow> (nat \<Rightarrow> bytes) \<Rightarrow> pg_config \<Rightarrow> bytes \<Rightarrow> (pg_client, unit, pg_error) prog" where
  "handle_sasl C N rnd cfg body =
     (let offered = parse_sasl_mechanisms body in
      if offered = [] then
        throw (PgUnsupportedAuth (''backend offered no supported SASL mechanism (offered: ''
          @ debug_list N (lossy_mechanism_names body) @ '')''))
      else
        bnd (gets pc_cert_hash) (\<lambda>hash.
        bnd (of_sum (select_mechanism (channel_binding (cf_tls cfg)) (hash \<noteq> None) offered)) (\<lambda>chosen.
        bnd (select_scram C rnd cfg chosen) (\<lambda>cl.
        let first = client_first_message cl in
        andthen (pg_write_message 0x70 (put_cstr [] (mechanism_name chosen) @ to_be32 (of_nat (length first)) @ as_bytes first)) (
        bnd (read_authentication_data N 11) (\<lambda>server_first_bytes.
        bnd (of_opt (PgProtocol ''server-first is not UTF-8'') (from_utf8 server_first_bytes)) (\<lambda>server_first_msg.
        (case client_final_message C server_first_msg (cf_salt cfg) (cf_iterations cfg) cl of
           (Ok final, cl') \<Rightarrow>
             andthen (pg_write_message 0x70 (as_bytes final)) (
             bnd (read_authentication_data N 12) (\<lambda>server_final_bytes.
             bnd (of_opt (PgProtocol ''server-final is not UTF-8'') (from_utf8 server_final_bytes)) (\<lambda>server_final.
             bnd (of_sum (verify_server_final C cl' server_final)) (\<lambda>verified.
             modify (\<lambda>c. c\<lparr>pc_verified := verified\<rparr>)))))
         | (Err e, cl') \<Rightarrow> throw e
         | (Panic, cl') \<Rightarrow> panic
         | (Pending, cl') \<Rightarrow> hang))))))))"

subsection \<open>The handshake loop\<close>

definition handle_auth_request :: "crypto \<Rightarrow> net \<Rightarrow> (nat \<Rightarrow> bytes) \<Rightarrow> pg_config \<Rightarrow> bytes \<Rightarrow> (pg_client, unit, pg_error) prog" where
  "handle_auth_request C N rnd cfg payload =
     (if length payload < 4 then throw (PgProtocol ''authentication message is shorter than its sub-code'')
      else
        (let auth_type = be32_at payload in
         if auth_type = 0 then ret ()
         else if auth_type = 3 then handle_cleartext cfg
         else if auth_type = 5 then handle_md5 C cfg (drop 4 payload)
         else if auth_type = 10 then handle_sasl C N rnd cfg (drop 4 payload)
         else if auth_type = 11 \<or> auth_type = 12 then
           throw (PgProtocol (''unexpected authentication continuation ('' @ show_u32 auth_type @ '') before SASL started''))
         else throw (PgUnsupportedAuth (unsupported_method_message auth_type))))"

definition handle_parameter_status :: "bytes \<Rightarrow> (pg_client, unit, pg_error) prog" where
  "handle_parameter_status payload =
     bnd (map_err (\<lambda>_. PgProtocol ''invalid ParameterStatus name'') (on_reader read_string (reader_new payload))) (\<lambda>(name, r).
     bnd (map_err (\<lambda>_. PgProtocol ''invalid ParameterStatus value'') (on_reader read_string r)) (\<lambda>(value, r).
     modify (\<lambda>c. c\<lparr>pc_notifications := pc_notifications c @ [ParameterStatus name value]\<rparr>)))"

text \<open>One message; \<open>True\<close> is the \<open>break\<close> at \<open>ReadyForQuery\<close>.\<close>

definition handle_backend_message :: "crypto \<Rightarrow> net \<Rightarrow> (nat \<Rightarrow> bytes) \<Rightarrow> pg_config \<Rightarrow> u8 \<Rightarrow> bytes \<Rightarrow> (pg_client, bool, pg_error) prog" where
  "handle_backend_message C N rnd cfg tag payload =
     (if tag = 0x52 then andthen (handle_auth_request C N rnd cfg payload) (ret False)
      else if tag = 0x53 then andthen (handle_parameter_status payload) (ret False)
      else if tag = 0x4E then
        andthen (modify (\<lambda>c. c\<lparr>pc_notifications := pc_notifications c @ [Notice payload]\<rparr>)) (ret False)
      else if tag = 0x4B then
        (if length payload \<noteq> 8 then throw (PgProtocol ''BackendKeyData body is not two Int32s'')
         else andthen (modify (\<lambda>c. c\<lparr>pc_backend_key := Some \<lparr>bk_pid = be32_at payload, bk_secret = be32_at (drop 4 payload)\<rparr>\<rparr>)) (ret False))
      else if tag = 0x5A then
        (case payload of
           [] \<Rightarrow> throw (PgProtocol ''ReadyForQuery has no transaction status'')
         | status # _ \<Rightarrow> andthen (modify (\<lambda>c. c\<lparr>pc_ready_status := Some status\<rparr>)) (ret True))
      else if tag = 0x45 then throw (backend_error payload)
      else throw (PgProtocol (''unexpected message '' @ net_debug_byte N tag @ '' during the startup phase'')))"

definition handshake_step :: "crypto \<Rightarrow> net \<Rightarrow> (nat \<Rightarrow> bytes) \<Rightarrow> pg_config \<Rightarrow> (pg_client, bool, pg_error) prog" where
  "handshake_step C N rnd cfg =
     bnd read_message_header (\<lambda>(tag, payload_len).
     bnd (pg_read_message_body payload_len) (\<lambda>pb.
     drop_after pc_pool put_pc_pool pb (handle_backend_message C N rnd cfg tag (body_of pb))))"

fun handshake_loop :: "nat \<Rightarrow> crypto \<Rightarrow> net \<Rightarrow> (nat \<Rightarrow> bytes) \<Rightarrow> pg_config \<Rightarrow> (pg_client, unit, pg_error) prog" where
  "handshake_loop 0 C N rnd cfg = hang"
| "handshake_loop (Suc fuel) C N rnd cfg =
     bnd (handshake_step C N rnd cfg) (\<lambda>ready. if ready then ret () else handshake_loop fuel C N rnd cfg)"

definition handle_startup_handshake :: "crypto \<Rightarrow> net \<Rightarrow> (nat \<Rightarrow> bytes) \<Rightarrow> pg_config \<Rightarrow> (pg_client, unit, pg_error) prog" where
  "handle_startup_handshake C N rnd cfg c = handshake_loop (Suc (length (lk_rx (pc_link c)))) C N rnd cfg c"

subsection \<open>Connecting\<close>

fun connect_fault :: "link_fault \<Rightarrow> pg_error" where
  "connect_fault Silent = PgConnectTimeout"
| "connect_fault (IoFault k) = PgIo k"

definition pg_connect :: "crypto \<Rightarrow> net \<Rightarrow> (nat \<Rightarrow> bytes) \<Rightarrow> pg_config \<Rightarrow> (multi_buffer_pool, pg_client, pg_error) prog" where
  "pg_connect C N rnd cfg pool =
     (case net_connect N (cf_host cfg @ '':'' @ show_u16 (cf_port cfg)) of
        Inl fault \<Rightarrow> (Err (connect_fault fault), pool)
      | Inr tcp \<Rightarrow>
          (case try_tls C N cfg tcp of
             (Ok hash, l) \<Rightarrow>
               (case andthen (write_startup_message cfg) (handle_startup_handshake C N rnd cfg)
                  \<lparr>pc_pool = pool, pc_link = l, pc_notifications = [], pc_backend_key = None,
                   pc_ready_status = None, pc_verified = False, pc_cert_hash = hash, pc_host = cf_host cfg,
                   pc_port = cf_port cfg, pc_connect_timeout = cf_connect_timeout cfg, pc_draws = 0\<rparr> of
                  (Ok _, c) \<Rightarrow> (Ok c, pc_pool c)
                | (Err e, c) \<Rightarrow> (Err e, pc_pool c)
                | (Panic, c) \<Rightarrow> (Panic, pc_pool c)
                | (Pending, c) \<Rightarrow> (Pending, pc_pool c))
           | (Err e, l) \<Rightarrow> (Err e, pool)
           | (Panic, l) \<Rightarrow> (Panic, pool)
           | (Pending, l) \<Rightarrow> (Pending, pool)))"

record backend =
  be_notifications :: "startup_notification list"
  be_backend_key :: "backend_key_data option"
  be_ready_status :: u8
  be_verified :: bool
  be_host :: string
  be_port :: u16
  be_connect_timeout :: u64
  be_client :: pg_client

definition backend_of_client :: "pg_client \<Rightarrow> backend" where
  "backend_of_client c =
     \<lparr>be_notifications = pc_notifications c, be_backend_key = pc_backend_key c,
      be_ready_status = (case pc_ready_status c of Some s \<Rightarrow> s | None \<Rightarrow> 0x49),
      be_verified = pc_verified c, be_host = pc_host c, be_port = pc_port c,
      be_connect_timeout = pc_connect_timeout c, be_client = c\<lparr>pc_notifications := []\<rparr>\<rparr>"

definition backend_new :: "crypto \<Rightarrow> net \<Rightarrow> (nat \<Rightarrow> bytes) \<Rightarrow> pg_config \<Rightarrow> (multi_buffer_pool, backend, pg_error) prog" where
  "backend_new C N rnd cfg = bnd (pg_connect C N rnd cfg) (\<lambda>c. ret (backend_of_client c))"

definition get_param_status_values :: "backend \<Rightarrow> (string \<times> string) list" where
  "get_param_status_values b =
     List.map_filter (\<lambda>n. case n of ParameterStatus name value \<Rightarrow> Some (name, value) | Notice _ \<Rightarrow> None)
       (be_notifications b)"

definition CANCEL_REQUEST_CODE :: u32 where
  "CANCEL_REQUEST_CODE = push_bit 16 1234 OR 5678"

definition cancel_packet :: "backend_key_data \<Rightarrow> bytes" where
  "cancel_packet key = to_be32 16 @ to_be32 CANCEL_REQUEST_CODE @ to_be32 (bk_pid key) @ to_be32 (bk_secret key)"

text \<open>
  \<open>send_cancel_request\<close>: a fresh plaintext connection, one packet. The state is the log of packets
  that reached a backend, with its address.
\<close>

definition send_cancel_request :: "net \<Rightarrow> backend \<Rightarrow> backend_key_data \<Rightarrow>
    ((string \<times> bytes) list, unit, pg_error) prog" where
  "send_cancel_request N b key log =
     (let addr = be_host b @ '':'' @ show_u16 (be_port b) in
      case net_connect N addr of
        Inl fault \<Rightarrow> (Err (connect_fault fault), log)
      | Inr l \<Rightarrow>
          (case link_write (cancel_packet key) l of
             (Ok _, _) \<Rightarrow> (Ok (), log @ [(addr, cancel_packet key)])
           | (Err (IoFault k), _) \<Rightarrow> (Err (PgIo k), log)
           | (_, _) \<Rightarrow> (Pending, log)))"

subsection \<open>Every operation keeps the pool and consumes the link\<close>

named_theorems pg_keeps_rules "operations of the backend client that keep its pool and its link"

definition link_live :: "(bool \<Rightarrow> bool) \<Rightarrow> (nat \<times> nat) list \<Rightarrow> nat \<Rightarrow> pg_client \<Rightarrow> bool" where
  "link_live V sh n c \<longleftrightarrow> pg_pool.holds sh c \<and> length (lk_rx (pc_link c)) \<le> n \<and> V (pc_verified c)"

definition pg_keeps :: "(bool \<Rightarrow> bool) \<Rightarrow> (nat \<times> nat) list \<Rightarrow> nat \<Rightarrow> (pg_client, 'a, pg_error) prog \<Rightarrow> bool" where
  "pg_keeps V sh n m \<longleftrightarrow> triple (link_live V sh n) m (\<lambda>_. link_live V sh n) (\<lambda>_. link_live V sh n) (\<lambda>_. False)"

lemma link_live_put: "link_live V sh n (put_pc_pool p c) \<longleftrightarrow> pool_inv p \<and> pool_shape p = sh \<and> length (lk_rx (pc_link c)) \<le> n \<and> V (pc_verified c)"
  by (auto simp: link_live_def pg_pool.holds_def put_pc_pool_def)

lemma link_live_mono: "link_live V sh n c \<Longrightarrow> n \<le> m \<Longrightarrow> link_live V sh m c"
  by (simp add: link_live_def)

lemma pg_keeps_bnd [pg_keeps_rules]: "pg_keeps V sh n m \<Longrightarrow> (\<And>x. pg_keeps V sh n (f x)) \<Longrightarrow> pg_keeps V sh n (bnd m f)"
  unfolding pg_keeps_def by (rule triple_bnd)

lemma pg_keeps_ret [pg_keeps_rules]: "pg_keeps V sh n (ret x)"
  by (simp add: pg_keeps_def triple_ret)

lemma pg_keeps_throw [pg_keeps_rules]: "pg_keeps V sh n (throw e)"
  by (simp add: pg_keeps_def triple_throw)

lemma pg_keeps_gets [pg_keeps_rules]: "pg_keeps V sh n (gets f)"
  by (simp add: pg_keeps_def triple_gets)

lemma pg_keeps_of_sum [pg_keeps_rules]: "pg_keeps V sh n (of_sum x)"
  by (simp add: pg_keeps_def triple_of_sum)

lemma pg_keeps_of_opt [pg_keeps_rules]: "pg_keeps V sh n (of_opt e x)"
  by (simp add: pg_keeps_def triple_of_opt)

lemma pg_keeps_modify [pg_keeps_rules]:
  "(\<And>c. pc_pool (f c) = pc_pool c \<and> pc_link (f c) = pc_link c \<and> (V (pc_verified c) \<longrightarrow> V (pc_verified (f c)))) \<Longrightarrow> pg_keeps V sh n (modify f)"
  unfolding pg_keeps_def by (rule triple_modify) (simp add: link_live_def pg_pool.holds_def)

lemma pg_keeps_if [pg_keeps_rules]: "(b \<Longrightarrow> pg_keeps V sh n m) \<Longrightarrow> (\<not> b \<Longrightarrow> pg_keeps V sh n m') \<Longrightarrow> pg_keeps V sh n (if b then m else m')"
  by simp

lemma pg_keeps_map_err [pg_keeps_rules]:
  "triple (link_live V sh n) m (\<lambda>_. link_live V sh n) (\<lambda>_. link_live V sh n) (\<lambda>_. False) \<Longrightarrow> pg_keeps V sh n (map_err g m)"
  unfolding pg_keeps_def by (rule triple_map_err)

lemma triple_link_read:
  "triple (link_live V sh n) (on_link (ts_read_exact k)) (\<lambda>bs c. length bs = k \<and> k \<le> n \<and> link_live V sh (n - k) c)
     (\<lambda>_. link_live V sh n) (\<lambda>_. False)"
  by (rule tripleI) (auto simp: on_link_def ts_read_exact_cases link_live_def pg_pool.holds_def split: if_splits)

lemma pg_keeps_write_raw [pg_keeps_rules]: "pg_keeps V sh n (pg_write_raw bs)"
  unfolding pg_keeps_def pg_write_raw_def
  by (rule tripleI)
     (auto simp: on_link_def ts_write_all_cases link_live_def pg_pool.holds_def split: option.splits nat.splits)

lemma pg_keeps_write_message [pg_keeps_rules]: "pg_keeps V sh n (pg_write_message tag body)"
  unfolding pg_write_message_def by (rule pg_keeps_write_raw)

lemma triple_header:
  "triple (link_live V sh n) read_message_header (\<lambda>(tag, len) c. 5 \<le> n \<and> link_live V sh (n - 5) c) (\<lambda>_. link_live V sh n) (\<lambda>_. False)"
  unfolding read_message_header_def
proof (rule triple_bnd[OF triple_link_read])
  fix buff
  show "triple (\<lambda>c. length buff = 5 \<and> 5 \<le> n \<and> link_live V sh (n - 5) c)
      (let len = be32_at (drop 1 buff) in
        if sint len < 4 then throw (PgProtocol (''invalid frame length: '' @ show_i32 len))
        else ret (buff ! 0, i32_as_usize (len - 4)))
      (\<lambda>(tag, len) c. 5 \<le> n \<and> link_live V sh (n - 5) c) (\<lambda>_. link_live V sh n) (\<lambda>_. False)"
    by (auto simp: Let_def triple_def prog_simps intro: link_live_mono)
qed

lemma triple_body:
  "triple (link_live V sh n) (pg_read_message_body len)
     (\<lambda>pb c. rented_ok sh pb \<and> link_live V sh n c) (\<lambda>_. link_live V sh n) (\<lambda>_. False)"
proof -
  let ?I = "\<lambda>c. length (lk_rx (pc_link c)) \<le> n \<and> V (pc_verified c)"
  have stable: "?I (put_pc_pool p c) = ?I c" for p c by (simp add: put_pc_pool_def)
  have rent: "triple (\<lambda>c. ?I c \<and> pg_pool.holds sh c \<and> len \<le> max_capacity (pc_pool c))
      (rent_buffer pc_pool put_pc_pool len)
      (\<lambda>pb c. ?I c \<and> pg_pool.holds sh c \<and> rented_ok sh pb \<and> exposed pb = len) (\<lambda>_. link_live V sh n) (\<lambda>_. False)"
    by (rule pg_pool.triple_rent) (rule stable)
  have read: "triple (\<lambda>c. ?I c \<and> pg_pool.holds sh c \<and> rented_ok sh pb \<and> exposed pb = len)
      (read_into pc_pool put_pc_pool (\<lambda>n. on_link (ts_read_exact n)) pb)
      (\<lambda>pb c. rented_ok sh pb \<and> link_live V sh n c) (\<lambda>_. link_live V sh n) (\<lambda>_. False)" for pb
  proof (cases "rented_ok sh pb")
    case True
    have r: "triple (\<lambda>c. ?I c \<and> pg_pool.holds sh c) (on_link (ts_read_exact (exposed pb)))
        (\<lambda>bs c. length bs = exposed pb \<and> ?I c \<and> pg_pool.holds sh c)
        (\<lambda>e c. ?I c \<and> pg_pool.holds sh c) (\<lambda>c. False \<and> pg_pool.holds sh c)"
      by (rule triple_weaken[OF triple_link_read[of V sh n "exposed pb"]]) (auto simp: link_live_def)
    have "triple (\<lambda>c. ?I c \<and> pg_pool.holds sh c)
      (read_into pc_pool put_pc_pool (\<lambda>n. on_link (ts_read_exact n)) pb)
      (\<lambda>pb' c. rented_ok sh pb' \<and> exposed pb' = exposed pb \<and> ?I c \<and> pg_pool.holds sh c)
      (\<lambda>e c. ?I c \<and> pg_pool.holds sh c) (\<lambda>c. False \<and> pg_pool.holds sh c)"
      by (rule pg_pool.triple_read_into[where reader = "\<lambda>n. on_link (ts_read_exact n)" and Q = "\<lambda>_. ?I"
            and E = "\<lambda>_. ?I" and W = "\<lambda>_. False", OF True r])
         (simp_all add: stable)
    then show ?thesis by (rule triple_weaken) (auto simp: link_live_def)
  qed (simp add: triple_def)
  show ?thesis
    unfolding pg_read_message_body_def
  proof (rule triple_bnd[where R = "\<lambda>mx c. link_live V sh n c \<and> mx = max_capacity (pc_pool c)"])
    fix mx
    show "triple (\<lambda>c. link_live V sh n c \<and> mx = max_capacity (pc_pool c))
       (if mx < len
        then throw (PgProtocol (''backend message body '' @ show_nat len @ '' exceeds the buffer pool capacity''))
        else bnd (rent_buffer pc_pool put_pc_pool len) (read_into pc_pool put_pc_pool (\<lambda>n. on_link (ts_read_exact n))))
       (\<lambda>pb c. rented_ok sh pb \<and> link_live V sh n c) (\<lambda>_. link_live V sh n) (\<lambda>_. False)"
    proof (cases "mx < len")
      case False
      have "triple (\<lambda>c. link_live V sh n c \<and> mx = max_capacity (pc_pool c))
        (bnd (rent_buffer pc_pool put_pc_pool len) (read_into pc_pool put_pc_pool (\<lambda>n. on_link (ts_read_exact n))))
        (\<lambda>pb c. rented_ok sh pb \<and> link_live V sh n c) (\<lambda>_. link_live V sh n) (\<lambda>_. False)"
        using False by (intro triple_pre[OF triple_bnd[OF rent read]]) (simp add: link_live_def)
      then show ?thesis using False by simp
    qed (auto intro!: triple_throw)
  qed (simp add: triple_gets)
qed

lemma pg_keeps_drop_after:
  assumes "pg_keeps V sh n m"
  shows "triple (\<lambda>c. rented_ok sh pb \<and> link_live V sh n c) (drop_after pc_pool put_pc_pool pb m)
    (\<lambda>_. link_live V sh n) (\<lambda>_. link_live V sh n) (\<lambda>_. False)"
proof (cases "rented_ok sh pb")
  case True
  let ?I = "\<lambda>c. length (lk_rx (pc_link c)) \<le> n \<and> V (pc_verified c)"
  have m: "triple (link_live V sh n) m (\<lambda>_ c. ?I c \<and> pg_pool.holds sh c) (\<lambda>_ c. ?I c \<and> pg_pool.holds sh c)
      (\<lambda>c. False \<and> pg_pool.holds sh c)"
    using assms unfolding pg_keeps_def by (rule triple_weaken) (auto simp: link_live_def)
  have "triple (link_live V sh n) (drop_after pc_pool put_pc_pool pb m)
      (\<lambda>_ c. ?I c \<and> pg_pool.holds sh c) (\<lambda>_ c. ?I c \<and> pg_pool.holds sh c) (\<lambda>c. False \<and> pg_pool.holds sh c)"
    by (rule pg_pool.triple_drop_after[where Q = "\<lambda>_. ?I" and E = "\<lambda>_. ?I" and W = "\<lambda>_. False", OF True m])
       (simp_all add: put_pc_pool_def)
  then show ?thesis by (rule triple_weaken) (auto simp: link_live_def)
qed (simp add: triple_def)

lemma pg_keeps_weaken_header:
  assumes "\<And>tag len. pg_keeps V sh n (f (tag, len))"
  shows "pg_keeps V sh n (bnd read_message_header f)"
  unfolding pg_keeps_def
proof (rule triple_bnd[where R = "\<lambda>_. link_live V sh n"])
  show "triple (link_live V sh n) read_message_header (\<lambda>_. link_live V sh n) (\<lambda>_. link_live V sh n) (\<lambda>_. False)"
    by (rule triple_weaken[OF triple_header]) (auto intro: link_live_mono)
  show "triple (link_live V sh n) (f x) (\<lambda>_. link_live V sh n) (\<lambda>_. link_live V sh n) (\<lambda>_. False)" for x
    using assms by (cases x) (simp add: pg_keeps_def)
qed

lemma pg_keeps_body_scope:
  assumes "\<And>pb. pg_keeps V sh n (m pb)"
  shows "pg_keeps V sh n (bnd (pg_read_message_body len) (\<lambda>pb. drop_after pc_pool put_pc_pool pb (m pb)))"
  unfolding pg_keeps_def
  by (rule triple_bnd[OF triple_body pg_keeps_drop_after[OF assms]])

lemma pg_keeps_read_authentication_data [pg_keeps_rules]: "pg_keeps V sh n (read_authentication_data N expected)"
  unfolding read_authentication_data_def
  by (intro pg_keeps_weaken_header) (auto simp: Let_def intro!: pg_keeps_body_scope pg_keeps_rules)

lemma pg_keeps_handle_cleartext [pg_keeps_rules]: "pg_keeps V sh n (handle_cleartext cfg)"
  by (auto simp: handle_cleartext_def split: option.splits intro!: pg_keeps_rules)

lemma pg_keeps_handle_md5 [pg_keeps_rules]: "pg_keeps V sh n (handle_md5 C cfg body)"
  by (auto simp: handle_md5_def split: option.splits intro!: pg_keeps_rules)

lemma pg_keeps_select_scram [pg_keeps_rules]: "pg_keeps V sh n (select_scram C rnd cfg chosen)"
  unfolding select_scram_def by (auto simp: Let_def intro!: pg_keeps_rules)

text \<open>
  What it takes for the backend to have proved that it knows ServerKey: a SCRAM step of a client built
  from this configuration, and a final message whose signature of that step's transcript checks out.
\<close>

definition client_for :: "crypto \<Rightarrow> (nat \<Rightarrow> bytes) \<Rightarrow> pg_config \<Rightarrow> nat \<Rightarrow> bytes option \<Rightarrow> scram_client" where
  "client_for C rnd cfg i binding =
     (let cl = scram_client_new C (rnd i) (cf_client_key cfg) (cf_server_key cfg) (cf_stored_key cfg) (cf_password cfg) in
      case binding of None \<Rightarrow> cl | Some b \<Rightarrow> use_channel_binding b cl)"

definition backend_proved :: "crypto \<Rightarrow> (nat \<Rightarrow> bytes) \<Rightarrow> pg_config \<Rightarrow> bool" where
  "backend_proved C rnd cfg \<longleftrightarrow>
     (\<exists>i binding first reply cl final key sig.
        client_final_message C first (cf_salt cfg) (cf_iterations cfg) (client_for C rnd cfg i binding) = (Ok reply, cl) \<and>
        cl_server_key cl = Some key \<and> parse_scram_kv final (CHR ''v'') = Some sig \<and>
        b64_decode C sig = Some (hmac_sha256 C key (as_bytes (cl_auth_message cl))))"

lemma client_for_exists:
  "\<exists>i' b. scram_client_new C (rnd i) (cf_client_key cfg) (cf_server_key cfg) (cf_stored_key cfg) (cf_password cfg) =
     client_for C rnd cfg i' b"
  "\<exists>i' b. use_channel_binding h
     (scram_client_new C (rnd i) (cf_client_key cfg) (cf_server_key cfg) (cf_stored_key cfg) (cf_password cfg)) =
     client_for C rnd cfg i' b"
  by (intro exI[of _ i] exI[of _ None], simp add: client_for_def)
     (intro exI[of _ i] exI[of _ "Some h"], simp add: client_for_def)

lemma select_scram_client:
  "triple P (select_scram C rnd cfg chosen) (\<lambda>cl c. \<exists>i b. cl = client_for C rnd cfg i b) (\<lambda>_ _. True) W"
  by (rule tripleI)
     (auto simp: select_scram_def bnd_def prog_simps Let_def client_for_exists split: if_splits option.splits)

lemma pg_keeps_select_scram_client:
  "triple (link_live V sh n) (select_scram C rnd cfg chosen)
     (\<lambda>cl c. (\<exists>i b. cl = client_for C rnd cfg i b) \<and> link_live V sh n c) (\<lambda>_. link_live V sh n) (\<lambda>_. False)"
  by (rule triple_weaken[OF triple_conj[OF pg_keeps_select_scram[unfolded pg_keeps_def, of V sh n]
        select_scram_client[of "\<lambda>_. True" C rnd cfg chosen "\<lambda>_. True"]]]) auto

lemma pg_keeps_sasl_end:
  assumes "\<And>b. (b \<longrightarrow> backend_proved C rnd cfg) \<Longrightarrow> V b"
    and "client_final_message C first (cf_salt cfg) (cf_iterations cfg) (client_for C rnd cfg i b) = (Ok reply, cl)"
  shows "pg_keeps V sh n (bnd (of_sum (verify_server_final C cl final)) (\<lambda>verified.
    modify (\<lambda>c. c\<lparr>pc_verified := verified\<rparr>)))"
proof (cases "verify_server_final C cl final")
  case (Inl e)
  then show ?thesis by (simp add: pg_keeps_def triple_def bnd_def prog_simps)
next
  case (Inr verified)
  have "verified \<Longrightarrow> backend_proved C rnd cfg"
    using Inr assms(2) server_signature_is_checked_iff[of C cl final] unfolding backend_proved_def
    by simp blast
  then have "V verified" by (intro assms(1) impI)
  then have "pg_keeps V sh n (modify (\<lambda>c. c\<lparr>pc_verified := verified\<rparr>))"
    by (intro pg_keeps_modify) simp
  then show ?thesis by (simp add: pg_keeps_def triple_def bnd_def prog_simps Inr)
qed

lemma pg_keeps_sasl_final:
  assumes "\<And>b. (b \<longrightarrow> backend_proved C rnd cfg) \<Longrightarrow> V b" and "\<exists>i b. cl = client_for C rnd cfg i b"
  shows "pg_keeps V sh n (case client_final_message C first (cf_salt cfg) (cf_iterations cfg) cl of
     (Ok final, cl') \<Rightarrow>
       andthen (pg_write_message 0x70 (as_bytes final)) (
       bnd (read_authentication_data N 12) (\<lambda>server_final_bytes.
       bnd (of_opt (PgProtocol ''server-final is not UTF-8'') (from_utf8 server_final_bytes)) (\<lambda>server_final.
       bnd (of_sum (verify_server_final C cl' server_final)) (\<lambda>verified.
       modify (\<lambda>c. c\<lparr>pc_verified := verified\<rparr>)))))
   | (Err e, cl') \<Rightarrow> throw e
   | (Panic, cl') \<Rightarrow> panic
   | (Pending, cl') \<Rightarrow> hang)"
proof -
  obtain i b where cl: "cl = client_for C rnd cfg i b" using assms(2) by blast
  obtain r cl' where run: "client_final_message C first (cf_salt cfg) (cf_iterations cfg) cl = (r, cl')" by fastforce
  show ?thesis
  proof (cases r)
    case (Ok reply)
    show ?thesis
      unfolding run Ok prod.case outcome.case
      by (rule pg_keeps_bnd[OF pg_keeps_write_message pg_keeps_bnd[OF pg_keeps_read_authentication_data
            pg_keeps_bnd[OF pg_keeps_of_opt pg_keeps_sasl_end[OF assms(1) run[unfolded Ok cl]]]]])
  qed (use client_final_total[of C first "cf_salt cfg" "cf_iterations cfg" cl] run in \<open>auto intro: pg_keeps_throw\<close>)
qed

lemma pg_keeps_handle_sasl:
  assumes "\<And>b. (b \<longrightarrow> backend_proved C rnd cfg) \<Longrightarrow> V b"
  shows "pg_keeps V sh n (handle_sasl C N rnd cfg body)"
proof -
  let ?P = "\<lambda>cl c. (\<exists>i b. cl = client_for C rnd cfg i b) \<and> link_live V sh n c"
  have scoped: "triple (?P cl) m (\<lambda>_. link_live V sh n) (\<lambda>_. link_live V sh n) (\<lambda>_. False)"
    if "(\<exists>i b. cl = client_for C rnd cfg i b) \<Longrightarrow> pg_keeps V sh n m" for cl and m :: "(pg_client, unit, pg_error) prog"
    using that by (cases "\<exists>i b. cl = client_for C rnd cfg i b") (auto simp: pg_keeps_def triple_def)
  show ?thesis
    unfolding handle_sasl_def Let_def
    by (rule pg_keeps_if[OF pg_keeps_throw pg_keeps_bnd[OF pg_keeps_gets pg_keeps_bnd[OF pg_keeps_of_sum]]],
        unfold pg_keeps_def, rule triple_bnd[OF pg_keeps_select_scram_client], rule scoped,
        rule pg_keeps_bnd[OF pg_keeps_write_message pg_keeps_bnd[OF pg_keeps_read_authentication_data
            pg_keeps_bnd[OF pg_keeps_of_opt pg_keeps_sasl_final[OF assms]]]])
qed

lemma pg_keeps_on_read_string:
  "reader_ok r \<Longrightarrow> triple (link_live V sh n) (on_reader read_string r)
    (\<lambda>(_, r') c. reader_ok r' \<and> link_live V sh n c) (\<lambda>_. link_live V sh n) (\<lambda>_. False)"
  by (rule triple_on_reader[where R = "\<lambda>_. reader_ok" and F = "\<lambda>_. True"])
     (rule triple_weaken[OF read_string_total[where bs = "buf r" and W = "\<lambda>_. False"]],
      auto simp: reader_of_def)

lemma pg_keeps_handle_parameter_status [pg_keeps_rules]: "pg_keeps V sh n (handle_parameter_status payload)"
proof -
  have read: "triple (\<lambda>c. reader_ok r \<and> link_live V sh n c) (map_err g (on_reader read_string r))
    (\<lambda>x c. reader_ok (snd x) \<and> link_live V sh n c) (\<lambda>_. link_live V sh n) (\<lambda>_. False)" for r g
    using pg_keeps_on_read_string[of r V sh n]
    by (cases "reader_ok r") (auto intro!: triple_map_err simp: case_prod_unfold triple_def[of "\<lambda>_. False"])
  have push: "pg_keeps V sh n (modify (\<lambda>c. c\<lparr>pc_notifications := pc_notifications c @ [x]\<rparr>))" for x
    by (rule pg_keeps_modify) simp
  show ?thesis
    unfolding handle_parameter_status_def pg_keeps_def case_prod_unfold
    by (rule triple_bnd[OF triple_pre[OF read]], simp, rule triple_bnd[OF read],
        rule triple_pre[OF push[unfolded pg_keeps_def]], simp)
qed

lemma pg_keeps_handle_auth_request:
  assumes "\<And>b. (b \<longrightarrow> backend_proved C rnd cfg) \<Longrightarrow> V b"
  shows "pg_keeps V sh n (handle_auth_request C N rnd cfg payload)"
  unfolding handle_auth_request_def Let_def
  by (intro pg_keeps_rules pg_keeps_handle_sasl[OF assms])

lemma pg_keeps_handle_backend_message:
  assumes "\<And>b. (b \<longrightarrow> backend_proved C rnd cfg) \<Longrightarrow> V b"
  shows "pg_keeps V sh n (handle_backend_message C N rnd cfg tag payload)"
  unfolding handle_backend_message_def
  by (auto intro!: pg_keeps_rules pg_keeps_handle_auth_request[OF assms] split: list.splits)

lemma triple_handshake_step:
  assumes "\<And>b. (b \<longrightarrow> backend_proved C rnd cfg) \<Longrightarrow> V b"
  shows "triple (link_live V sh n) (handshake_step C N rnd cfg) (\<lambda>_ c. 5 \<le> n \<and> link_live V sh (n - 5) c) (\<lambda>_. link_live V sh n) (\<lambda>_. False)"
  unfolding handshake_step_def
proof (rule triple_bnd[OF triple_header])
  fix x :: "u8 \<times> nat"
  obtain tag len where x: "x = (tag, len)" by (cases x)
  have "triple (link_live V sh (n - 5)) (bnd (pg_read_message_body len)
      (\<lambda>pb. drop_after pc_pool put_pc_pool pb (handle_backend_message C N rnd cfg tag (body_of pb))))
      (\<lambda>_. link_live V sh (n - 5)) (\<lambda>_. link_live V sh (n - 5)) (\<lambda>_. False)"
    by (rule pg_keeps_body_scope[where m = "\<lambda>pb. handle_backend_message C N rnd cfg tag (body_of pb)",
          OF pg_keeps_handle_backend_message[OF assms], unfolded pg_keeps_def])
  then show "triple (case x of (tag, len) \<Rightarrow> \<lambda>c. 5 \<le> n \<and> link_live V sh (n - 5) c)
      (case x of (tag, len) \<Rightarrow> bnd (pg_read_message_body len)
        (\<lambda>pb. drop_after pc_pool put_pc_pool pb (handle_backend_message C N rnd cfg tag (body_of pb))))
      (\<lambda>_ c. 5 \<le> n \<and> link_live V sh (n - 5) c) (\<lambda>_. link_live V sh n) (\<lambda>_. False)"
    by (cases "5 \<le> n") (auto simp: x triple_def[of "\<lambda>_. False"] elim!: triple_weaken intro: link_live_mono)
qed

lemma handshake_loop_enough_fuel:
  assumes "\<And>b. (b \<longrightarrow> backend_proved C rnd cfg) \<Longrightarrow> V b"
  shows "n < fuel \<Longrightarrow> triple (link_live V sh n) (handshake_loop fuel C N rnd cfg) (\<lambda>_. link_live V sh n) (\<lambda>_. link_live V sh n) (\<lambda>_. False)"
proof (induction fuel arbitrary: n)
  case (Suc fuel)
  show ?case
    unfolding handshake_loop.simps
  proof (rule triple_bnd[OF triple_handshake_step[OF assms]])
    fix ready
    show "triple (\<lambda>c. 5 \<le> n \<and> link_live V sh (n - 5) c)
        (if ready then ret () else handshake_loop fuel C N rnd cfg) (\<lambda>_. link_live V sh n) (\<lambda>_. link_live V sh n) (\<lambda>_. False)"
    proof (cases "5 \<le> n \<and> \<not> ready")
      case True
      then have "n - 5 < fuel" using Suc.prems by linarith
      from Suc.IH[OF this] show ?thesis using True by (auto elim!: triple_weaken intro: link_live_mono)
    next
      case False
      then show ?thesis by (auto simp: triple_def prog_simps intro: link_live_mono)
    qed
  qed
qed simp

lemma handshake_total:
  assumes "\<And>b. (b \<longrightarrow> backend_proved C rnd cfg) \<Longrightarrow> V b"
  shows "pg_keeps V sh n (handle_startup_handshake C N rnd cfg)"
  unfolding pg_keeps_def
proof (rule tripleI)
  fix c r c'
  assume c: "link_live V sh n c" and run: "handle_startup_handshake C N rnd cfg c = (r, c')"
  let ?k = "length (lk_rx (pc_link c))"
  have "link_live V sh ?k c" "?k \<le> n" using c by (simp_all add: link_live_def)
  moreover have "triple (link_live V sh ?k) (handshake_loop (Suc ?k) C N rnd cfg)
      (\<lambda>_. link_live V sh ?k) (\<lambda>_. link_live V sh ?k) (\<lambda>_. False)"
    by (rule handshake_loop_enough_fuel[OF assms]) simp_all
  ultimately show "case r of Ok x \<Rightarrow> link_live V sh n c' | Err e \<Rightarrow> link_live V sh n c' | Panic \<Rightarrow> False | Pending \<Rightarrow> False"
    using tripleD[of "link_live V sh ?k" "handshake_loop (Suc ?k) C N rnd cfg" _ _ _ c r c'] run
    by (cases r) (auto simp: handle_startup_handshake_def intro: link_live_mono)
qed

lemma be32_at_to_be32: "be32_at (to_be32 w @ x) = w"
  by (simp add: be32_at_def to_be32_def numeral_2_eq_2 numeral_3_eq_3 from_to_be32)

text \<open>
  \<open>AuthenticationOk\<close> without any SASL exchange is accepted under every policy, \<open>channel_binding: require\<close>
  included, and so is a cleartext or MD5 request when a password is configured: the policy is only
  consulted inside the SASL branch.
\<close>

lemma authentication_ok_is_accepted_in_every_mode:
  "handle_auth_request C N rnd cfg (to_be32 0) = ret ()"
  using be32_at_to_be32[of 0 "[]"] by (simp add: handle_auth_request_def)

lemma cleartext_is_answered_in_every_mode:
  "cf_password cfg = Some pw \<Longrightarrow> handle_auth_request C N rnd cfg (to_be32 3) = pg_write_message 0x70 (pw @ [0])"
  using be32_at_to_be32[of 3 "[]"] by (simp add: handle_auth_request_def handle_cleartext_def)

lemma pg_connect_total:
  assumes "\<And>b. (b \<longrightarrow> backend_proved C rnd cfg) \<Longrightarrow> V b" and "pool_inv p"
  shows "case pg_connect C N rnd cfg p of (r, p') \<Rightarrow>
    pool_inv p' \<and> pool_shape p' = pool_shape p \<and>
    (case r of Ok c \<Rightarrow> V (pc_verified c) | Err _ \<Rightarrow> True | Panic \<Rightarrow> False | Pending \<Rightarrow> False)"
proof (cases "net_connect N (cf_host cfg @ '':'' @ show_u16 (cf_port cfg))")
  case (Inl fault)
  then show ?thesis using assms(2) by (simp add: pg_connect_def)
next
  case (Inr tcp)
  obtain t l where t: "try_tls C N cfg tcp = (t, l)" by fastforce
  show ?thesis
  proof (cases t)
    case (Ok hash)
    let ?c = "\<lparr>pc_pool = p, pc_link = l, pc_notifications = [], pc_backend_key = None,
       pc_ready_status = None, pc_verified = False, pc_cert_hash = hash, pc_host = cf_host cfg,
       pc_port = cf_port cfg, pc_connect_timeout = cf_connect_timeout cfg, pc_draws = 0\<rparr>"
    obtain r c where run: "andthen (write_startup_message cfg) (handle_startup_handshake C N rnd cfg) ?c = (r, c)"
      by fastforce
    have start: "link_live V (pool_shape p) (length (lk_rx l)) ?c"
      using assms by (simp add: link_live_def pg_pool.holds_def)
    have "pg_keeps V (pool_shape p) (length (lk_rx l)) (andthen (write_startup_message cfg) (handle_startup_handshake C N rnd cfg))"
      unfolding write_startup_message_def
      by (rule pg_keeps_bnd[OF pg_keeps_write_raw handshake_total[OF assms(1)]])
    from tripleD[OF this[unfolded pg_keeps_def] start run]
    show ?thesis
      using Inr t Ok run by (cases r) (auto simp: pg_connect_def link_live_def pg_pool.holds_def)
  qed (use Inr t assms(2) try_tls_total[of C N cfg tcp] in \<open>auto simp: pg_connect_def\<close>)
qed

lemma backend_connect_total:
  assumes "pool_inv p"
  shows "fst (backend_new C N rnd cfg p) \<noteq> Panic \<and> fst (backend_new C N rnd cfg p) \<noteq> Pending \<and>
         pool_inv (snd (backend_new C N rnd cfg p)) \<and> pool_shape (snd (backend_new C N rnd cfg p)) = pool_shape p"
proof -
  have "case pg_connect C N rnd cfg p of (r, p') \<Rightarrow>
    pool_inv p' \<and> pool_shape p' = pool_shape p \<and>
    (case r of Ok c \<Rightarrow> True | Err _ \<Rightarrow> True | Panic \<Rightarrow> False | Pending \<Rightarrow> False)"
    by (rule pg_connect_total[where V = "\<lambda>_. True"]) (simp_all add: assms)
  then show ?thesis
    by (cases "pg_connect C N rnd cfg p"; cases "fst (pg_connect C N rnd cfg p)")
       (auto simp: backend_new_def bnd_def prog_simps)
qed

subsection \<open>Properties\<close>

text \<open>
  C32. Opening a backend session always ends, whatever bytes the backend sends, in whatever order, and
  wherever it stops: in a session or in an error, never in a panic and never in a wait without end;
  every buffer rented on the way is back in the shared pool.
\<close>

theorem backend_connect_is_total:
  assumes "pool_inv p"
  shows "fst (backend_new C N rnd cfg p) \<noteq> Panic \<and> fst (backend_new C N rnd cfg p) \<noteq> Pending \<and>
         pool_inv (snd (backend_new C N rnd cfg p)) \<and> pool_shape (snd (backend_new C N rnd cfg p)) = pool_shape p"
  by (rule backend_connect_total[OF assms])

definition demo_link :: link where
  "demo_link = \<lparr>lk_rx = [0x52, 0, 0, 0, 8, 0, 0, 0, 0, 0x5A, 0, 0, 0, 5, 0x49], lk_eof = True, lk_tx = [], lk_left = None\<rparr>"

theorem backend_connect_is_total_witness:
  "fst (backend_new toy_crypto (demo_net\<lparr>net_connect := (\<lambda>_. Inr demo_link)\<rparr>) (\<lambda>_. [1])
      (demo_pg_config\<lparr>cf_tls := default_tls_config\<lparr>tls_mode := TlsDisable\<rparr>\<rparr>) sample_pool) \<notin> {Panic, Pending}"
  using backend_connect_is_total[OF sample_pool_inv] by blast

end
