(* ===== verification/Startup_Options.thy ===== *)
theory Startup_Options
  imports Errors "HOL-Library.AList"
begin

section \<open>Startup parameters (\<open>proxy/startup_config_parse_util.rs\<close>, \<open>replication_mode.rs\<close>)\<close>

text \<open>
  The \<open>options\<close> startup parameter: a command line of \<open>-c key=value\<close>, \<open>-ckey=value\<close> and
  \<open>--key=value\<close> words with backslash escapes. A \<open>HashMap<String, String>\<close> is an association list
  with distinct keys; its iteration order is not part of the model here. \<open>chars()\<close> of the source
  runs over code points and this model over UTF-8 code units, which agree because the loop only
  compares with ASCII characters and an escaped code point is copied unit by unit.
\<close>

type_synonym params = "(string \<times> string) list"

definition hm_insert :: "string \<Rightarrow> string \<Rightarrow> params \<Rightarrow> params" where
  "hm_insert k v m = AList.update k v m"

definition hm_remove :: "string \<Rightarrow> params \<Rightarrow> params" where
  "hm_remove k m = AList.delete k m"

definition hm_extend :: "params \<Rightarrow> params \<Rightarrow> params" where
  "hm_extend m new = fold (\<lambda>(k, v) m. hm_insert k v m) new m"

lemma map_of_hm [simp]:
  "map_of (hm_insert k v m) = (map_of m)(k \<mapsto> v)"
  "map_of (hm_remove k m) = (map_of m)(k := None)"
  by (simp_all add: hm_insert_def hm_remove_def update_conv' delete_conv')

lemma distinct_hm [simp]:
  "distinct (map fst m) \<Longrightarrow> distinct (map fst (hm_insert k v m))"
  "distinct (map fst m) \<Longrightarrow> distinct (map fst (hm_remove k m))"
  by (simp_all add: hm_insert_def hm_remove_def distinct_update distinct_delete)

lemma map_of_hm_extend: "map_of (hm_extend m new) = map_of m ++ map_of (rev new)"
proof (induction new arbitrary: m)
  case Nil
  then show ?case by (simp add: hm_extend_def)
next
  case (Cons kv new)
  then show ?case by (cases kv) (simp add: hm_extend_def map_add_def fun_eq_iff split: option.split)
qed

lemma distinct_hm_extend: "distinct (map fst m) \<Longrightarrow> distinct (map fst (hm_extend m new))"
  by (induction new arbitrary: m) (auto simp: hm_extend_def)

subsection \<open>Splitting into words\<close>

definition is_sep :: "char \<Rightarrow> bool" where
  "is_sep c \<longleftrightarrow> c = CHR '' '' \<or> c = CHR 0x09"

fun split_loop :: "string \<Rightarrow> string \<Rightarrow> bool \<Rightarrow> string list" where
  "split_loop [] cur escaped = (if cur = [] then [] else [cur])"
| "split_loop (c # cs) cur escaped =
     (if escaped then split_loop cs (cur @ [c]) False
      else if c = CHR 0x5C then split_loop cs cur True
      else if is_sep c then
        (if cur = [] then split_loop cs cur False else cur # split_loop cs [] False)
      else split_loop cs (cur @ [c]) False)"

definition split_option_tokens :: "string \<Rightarrow> string list" where
  "split_option_tokens s = split_loop s [] False"

subsection \<open>Parsing the words\<close>

definition split_key_value :: "string \<Rightarrow> proxy_error + string \<times> string" where
  "split_key_value token =
     (case split_once (CHR ''='') token of
        None \<Rightarrow> Inl (connection_error InvalidData)
      | Some (key, value) \<Rightarrow>
          if key = [] \<or> value = [] then Inl (connection_error InvalidData) else Inr (key, value))"

definition dash_to_underscore :: "string \<Rightarrow> string" where
  "dash_to_underscore s = map (\<lambda>c. if c = CHR ''-'' then CHR ''_'' else c) s"

fun parse_tokens :: "string list \<Rightarrow> params \<Rightarrow> proxy_error + params" where
  "parse_tokens [] result = Inr result"
| "parse_tokens (token # rest) result =
     (if token = ''-c'' then
        (case rest of
           [] \<Rightarrow> Inl (connection_error InvalidData)
         | value_token # rest' \<Rightarrow>
             (case split_key_value value_token of
                Inl e \<Rightarrow> Inl e
              | Inr (key, value) \<Rightarrow> parse_tokens rest' (hm_insert key value result)))
      else if starts_with token ''-c'' then
        (case split_key_value (drop 2 token) of
           Inl e \<Rightarrow> Inl e
         | Inr (key, value) \<Rightarrow> parse_tokens rest (hm_insert key value result))
      else if starts_with token ''--'' then
        (case split_key_value (drop 2 token) of
           Inl e \<Rightarrow> Inl e
         | Inr (key, value) \<Rightarrow> parse_tokens rest (hm_insert (dash_to_underscore key) value result))
      else Inl (connection_error InvalidData))"

definition parse_options :: "string \<Rightarrow> proxy_error + params" where
  "parse_options options = parse_tokens (split_option_tokens options) []"

subsection \<open>Replication mode\<close>

datatype replication_mode = Off | Physical | Logical

text \<open>
  \<open>to_lowercase\<close> on ASCII. The code points outside ASCII that lower-case into ASCII (the Kelvin
  sign, and U+0130 with its combining dot) give none of the words the match compares with.
\<close>

definition lower_char :: "char \<Rightarrow> char" where
  "lower_char c =
     (if 65 \<le> (of_char c :: nat) \<and> (of_char c :: nat) \<le> 90 then char_of ((of_char c :: nat) + 32) else c)"

definition to_lowercase :: "string \<Rightarrow> string" where
  "to_lowercase s = map lower_char s"

definition parse_replication_mode :: "string \<Rightarrow> proxy_error + replication_mode" where
  "parse_replication_mode v =
     (let w = to_lowercase v in
      if w \<in> set ['''', ''false'', ''off'', ''no'', ''0'', ''f'', ''n''] then Inr Off
      else if w \<in> set [''true'', ''on'', ''yes'', ''1'', ''t'', ''y''] then Inr Physical
      else if w = ''database'' then Inr Logical
      else Inl (connection_error InvalidData))"

subsection \<open>Facts about the words\<close>

lemma split_loop_no_empty: "[] \<notin> set (split_loop s cur e)"
  by (induction s cur e rule: split_loop.induct) auto

text \<open>The escaping a client applies to a word so that the splitter gives it back.\<close>

definition escape_word :: "string \<Rightarrow> string" where
  "escape_word w = concat (map (\<lambda>c. if c = CHR 0x5C \<or> is_sep c then [CHR 0x5C, c] else [c]) w)"

fun render_words :: "string list \<Rightarrow> string" where
  "render_words [] = []"
| "render_words (w # ws) = escape_word w @ CHR '' '' # render_words ws"

lemma split_loop_escape: "split_loop (escape_word w @ s) cur False = split_loop s (cur @ w) False"
  by (induction w arbitrary: cur) (auto simp: escape_word_def)

lemma split_loop_render:
  "[] \<notin> set ws \<Longrightarrow> split_loop (render_words ws) [] False = ws"
  by (induction ws) (auto simp: split_loop_escape is_sep_def)

definition option_word :: "string \<times> string \<Rightarrow> string" where
  "option_word kv = fst kv @ CHR ''='' # snd kv"

definition option_words :: "(string \<times> string) list \<Rightarrow> string list" where
  "option_words kvs = concat (map (\<lambda>kv. [''-c'', option_word kv]) kvs)"

definition good_option :: "string \<times> string \<Rightarrow> bool" where
  "good_option kv \<longleftrightarrow> fst kv \<noteq> [] \<and> snd kv \<noteq> [] \<and> CHR ''='' \<notin> set (fst kv)"

lemma split_key_value_word: "good_option (k, v) \<Longrightarrow> split_key_value (option_word (k, v)) = Inr (k, v)"
  by (simp add: split_key_value_def option_word_def good_option_def split_once_append)

lemma parse_tokens_option_words:
  "list_all good_option kvs \<Longrightarrow> parse_tokens (option_words kvs) m = Inr (hm_extend m kvs)"
  by (induction kvs arbitrary: m) (auto simp: option_words_def split_key_value_word hm_extend_def)

lemma parse_tokens_error: "parse_tokens ts m = Inl e \<Longrightarrow> e = connection_error InvalidData"
  by (induction ts m rule: parse_tokens.induct)
     (auto simp: split_key_value_def split: if_splits option.splits list.splits sum.splits prod.splits)

lemma split_key_value_nonempty: "split_key_value t = Inr (k, v) \<Longrightarrow> k \<noteq> [] \<and> v \<noteq> []"
  by (auto simp: split_key_value_def split: option.splits if_splits)

text \<open>Whatever every accepted \<open>key=value\<close> insertion keeps, the loop keeps.\<close>

lemma parse_tokens_invariant:
  assumes "\<And>k v m. k \<noteq> [] \<Longrightarrow> v \<noteq> [] \<Longrightarrow> Q m \<Longrightarrow> Q (hm_insert k v m)"
  shows "parse_tokens ts m = Inr m' \<Longrightarrow> Q m \<Longrightarrow> Q m'"
proof (induction ts m rule: parse_tokens.induct)
  case (1 m)
  then show ?case by simp
next
  case (2 t ts m)
  have d: "dash_to_underscore k \<noteq> [] \<longleftrightarrow> k \<noteq> []" for k
    by (simp add: dash_to_underscore_def)
  consider "t = ''-c''" | "t \<noteq> ''-c''" "starts_with t ''-c''"
    | "t \<noteq> ''-c''" "\<not> starts_with t ''-c''" "starts_with t ''--''"
    using 2(4) by (cases "t = ''-c''"; cases "starts_with t ''-c''"; cases "starts_with t ''--''") simp_all
  then show ?case
  proof cases
    case 1
    then obtain w ts' where ts: "ts = w # ts'" using 2(4) by (cases ts) simp_all
    then obtain k v where kv: "split_key_value w = Inr (k, v)"
      using 1 2(4) by (cases "split_key_value w") auto
    then show ?thesis
      using 2(1)[OF 1 ts kv] 2(4,5) 1 ts assms split_key_value_nonempty[OF kv] by simp
  next
    case case2: 2
    then obtain k v where kv: "split_key_value (drop 2 t) = Inr (k, v)"
      using 2(4) by (cases "split_key_value (drop 2 t)") auto
    then show ?thesis
      using 2(2)[OF case2 kv] 2(4,5) case2 assms split_key_value_nonempty[OF kv] by simp
  next
    case 3
    then obtain k v where kv: "split_key_value (drop 2 t) = Inr (k, v)"
      using 2(4) by (cases "split_key_value (drop 2 t)") auto
    then show ?thesis
      using 2(3)[OF 3 kv] 2(4,5) 3 assms split_key_value_nonempty[OF kv] d by simp
  qed
qed

definition good_params :: "params \<Rightarrow> bool" where
  "good_params m \<longleftrightarrow> distinct (map fst m) \<and> (\<forall>(k, v) \<in> set m. k \<noteq> [] \<and> v \<noteq> [])"

lemma set_hm_insert: "set (hm_insert k v m) \<subseteq> insert (k, v) (set m)"
  unfolding hm_insert_def by (induction m) auto

lemma good_params_insert:
  "good_params m \<Longrightarrow> k \<noteq> [] \<Longrightarrow> v \<noteq> [] \<Longrightarrow> good_params (hm_insert k v m)"
  using set_hm_insert [of k v m] by (auto simp: good_params_def)

subsection \<open>What the parser promises\<close>

text \<open>
  \<open>parse_options\<close> is total on every text, NUL bytes, stray backslashes and dangling \<open>-c\<close>
  included: it either reports \<open>InvalidData\<close>, and no other error, or returns a map with distinct
  keys in which no key and no value is empty.
\<close>

theorem parse_options_outcome:
  "case parse_options s of
     Inl e \<Rightarrow> e = connection_error InvalidData
   | Inr m \<Rightarrow> good_params m"
proof (cases "parse_options s")
  case (Inl e)
  then show ?thesis by (simp add: parse_options_def parse_tokens_error)
next
  case (Inr m)
  then have "parse_tokens (split_option_tokens s) [] = Inr m" by (simp add: parse_options_def)
  from parse_tokens_invariant [of good_params, OF _ this] show ?thesis
    by (simp add: Inr good_params_insert) (simp add: good_params_def)
qed

text \<open>
  C40. Options written as \<open>-c key=value\<close> words, with every blank and backslash inside a word escaped,
  are read back exactly: the parser returns the map that inserting the pairs in order gives, so a
  later setting of a key wins.
\<close>

theorem parse_options_round_trip:
  "list_all good_option kvs \<Longrightarrow>
   parse_options (render_words (option_words kvs)) = Inr (hm_extend [] kvs)"
proof -
  assume g: "list_all good_option kvs"
  have "[] \<notin> set (option_words kvs)" by (auto simp: option_words_def option_word_def)
  then show ?thesis
    by (simp add: parse_options_def split_option_tokens_def split_loop_render parse_tokens_option_words g)
qed

lemma parse_options_round_trip_witness:
  "parse_options (render_words (option_words [(''work_mem'', ''4 MB''), (''work_mem'', ''8=8'')]))
     = Inr [(''work_mem'', ''8=8'')]"
  using parse_options_round_trip [of "[(''work_mem'', ''4 MB''), (''work_mem'', ''8=8'')]"]
  by (simp add: good_option_def hm_extend_def hm_insert_def)

end
