(* ===== verification/Conn_Io.thy ===== *)
theory Conn_Io
  imports Pg_Client Startup_Options
begin

section \<open>A client connection: state, transport and framing (\<open>proxy/conn.rs\<close>)\<close>

text \<open>
  The session record \<open>conn\<close> and the operations that move bytes. The socket is the list of segments
  still to arrive before the deadline, and whether the peer then closes. \<open>BufReader\<close> keeps what it
  read ahead in \<open>cn_rbuf\<close>, which matters because \<open>promote_to_tls\<close> throws that buffer away. A write
  is one entry of \<open>cn_sent\<close>, with the transport it went over; \<open>cn_writes_left\<close> is how many more the
  peer takes. The shared parts (pool, slots, session registry, credential provider) are fields,
  because every access is one locked operation; their interleavings are treated in their own theories.
\<close>

datatype transport = PlainLink | TlsLink | EmptyLink

record 'p conn =
  cn_id :: i32
  cn_rbuf :: bytes
  cn_sock :: "bytes list"
  cn_peer_eof :: bool
  cn_transport :: transport
  cn_sent :: "(transport \<times> bytes) list"
  cn_writes_left :: "nat option"
  cn_pool :: multi_buffer_pool
  cn_ssl_done :: bool
  cn_required_tls :: bool
  cn_gss_done :: bool
  cn_protocol_version :: "u32 option"
  cn_params :: params
  cn_user :: "string option"
  cn_database :: "string option"
  cn_replication :: replication_mode
  cn_provider :: 'p
  cn_registry :: "backend session_inner"
  cn_session_key :: "session_key_secret option"
  cn_backend :: "backend option"
  cn_verified :: bool
  cn_slots :: slot_inner
  cn_guard :: "(i32 \<times> session_key_secret) option"
  cn_key_pos :: nat
  cn_nonce_pos :: nat
  cn_cancel_log :: "(string \<times> bytes) list"

text \<open>
  What a session is given: the libraries, the network, the configuration, the certificate and TLS
  acceptor of the frontend (from the segments left on the socket to the decrypted ones, or a
  failed or unfinished handshake), the credential provider, the order a \<open>HashMap\<close> iterates in, and
  the random streams.
\<close>

record frontend_tls =
  ft_accept :: "bytes list \<Rightarrow> bool \<Rightarrow> (bytes list \<times> bool, string) outcome"
  ft_cert_hash :: "cert_hash option"

record ('p, 'c) env =
  e_crypto :: crypto
  e_net :: net
  e_config :: "'c config"
  e_tls :: "frontend_tls option"
  e_lookup :: "string \<Rightarrow> ('p, verifier option, provider_error) prog"
  e_dummy :: "'p \<Rightarrow> string \<Rightarrow> verifier"
  e_order :: "params \<Rightarrow> params"
  e_nonce :: "nat \<Rightarrow> bytes"
  e_client_nonce :: "nat \<Rightarrow> bytes"
  e_key_rng :: "nat \<Rightarrow> i32"

type_synonym ('p, 'a, 'e) cprog = "('p conn, 'a, 'e) prog"

definition put_cn_pool :: "multi_buffer_pool \<Rightarrow> 'p conn \<Rightarrow> 'p conn" where
  "put_cn_pool p s = s\<lparr>cn_pool := p\<rparr>"

interpretation conn_pool: pool_holder cn_pool put_cn_pool
  by unfold_locales (simp add: put_cn_pool_def)

definition conn_new :: "i32 \<Rightarrow> bytes list \<Rightarrow> bool \<Rightarrow> nat option \<Rightarrow> multi_buffer_pool \<Rightarrow> 'p \<Rightarrow>
    backend session_inner \<Rightarrow> slot_inner \<Rightarrow> 'p conn" where
  "conn_new conn_id segments eof writes pool provider registry slots =
     \<lparr>cn_id = conn_id, cn_rbuf = [], cn_sock = segments, cn_peer_eof = eof, cn_transport = PlainLink,
      cn_sent = [], cn_writes_left = writes, cn_pool = pool, cn_ssl_done = False, cn_required_tls = False,
      cn_gss_done = False, cn_protocol_version = None, cn_params = [], cn_user = None, cn_database = None,
      cn_replication = Off, cn_provider = provider, cn_registry = registry, cn_session_key = None,
      cn_backend = None, cn_verified = False, cn_slots = slots, cn_guard = None, cn_key_pos = 0,
      cn_nonce_pos = 0, cn_cancel_log = []\<rparr>"

subsection \<open>The buffered reader\<close>

definition BUF_SIZE :: nat where
  "BUF_SIZE = 8192"

definition rest_of :: "nat \<Rightarrow> bytes \<Rightarrow> bytes list \<Rightarrow> bytes list" where
  "rest_of k segment later = (if length segment \<le> k then later else drop k segment # later)"

lemma sum_rest_of:
  "(\<Sum>x \<leftarrow> rest_of k seg later. Suc (length x)) \<le> Suc (length seg) + (\<Sum>x \<leftarrow> later. Suc (length x)) - (if 0 < k then 1 else 0)"
  by (simp add: rest_of_def) arith

lemma concat_rest_of: "take k seg @ concat (rest_of k seg later) = seg @ concat later"
  by (simp add: rest_of_def)

text \<open>
  \<open>read_exact\<close> on a \<open>BufReader\<close>: buffered bytes first; an empty buffer is filled with one read of at
  most its capacity, except that a request of at least the capacity reads into the target.
\<close>

function pull :: "nat \<Rightarrow> bytes \<Rightarrow> bytes \<Rightarrow> bytes list \<Rightarrow> bytes option \<times> bytes \<times> bytes list" where
  "pull n acc rbuf segments =
     (if n = 0 then (Some acc, rbuf, segments)
      else if rbuf \<noteq> [] then
        pull (n - min n (length rbuf)) (acc @ take n rbuf) (drop n rbuf) segments
      else
        (case segments of
           [] \<Rightarrow> (None, [], [])
         | segment # later \<Rightarrow>
             if BUF_SIZE \<le> n then
               pull (n - min n (length segment)) (acc @ take n segment) [] (rest_of n segment later)
             else pull n acc (take BUF_SIZE segment) (rest_of BUF_SIZE segment later)))"
  by pat_completeness auto
termination
proof (relation "measure (\<lambda>(n, acc, rbuf, segments). n + (\<Sum>x \<leftarrow> segments. Suc (length x)))", goal_cases)
  case (3 n acc rbuf segments segment later)
  then show ?case using sum_rest_of[of n segment later] by simp
next
  case (4 n acc rbuf segments segment later)
  then show ?case using sum_rest_of[of BUF_SIZE segment later] by (simp add: BUF_SIZE_def)
qed simp_all

declare pull.simps [simp del]

lemma pull_spec:
  "pull n acc rbuf segments =
     (let stream = rbuf @ concat segments; (got, rbuf', segments') = pull n acc rbuf segments in
      (if n \<le> length stream then Some (acc @ take n stream) else None, rbuf', segments')) \<and>
   (let stream = rbuf @ concat segments; (got, rbuf', segments') = pull n acc rbuf segments in
      rbuf' @ concat segments' = drop n stream)"
proof (induction n acc rbuf segments rule: pull.induct)
  case (1 n acc rbuf segments)
  show ?case
  proof (cases "n = 0 \<or> rbuf = [] \<and> segments = []")
    case True
    then show ?thesis by (auto simp: pull.simps[of n])
  next
    case False
    then consider (buffered) "n \<noteq> 0" "rbuf \<noteq> []" | (fill) segment later where "n \<noteq> 0" "rbuf = []" "segments = segment # later"
      by (cases segments) auto
    then show ?thesis
    proof cases
      case buffered
      then have step: "pull n acc rbuf segments = pull (n - min n (length rbuf)) (acc @ take n rbuf) (drop n rbuf) segments"
        by (simp add: pull.simps[of n])
      have "min n (length rbuf) \<le> n" by simp
      then show ?thesis
        using 1(1)[OF buffered] unfolding step
        by (auto simp: Let_def case_prod_unfold min_def split: if_splits)
    next
      case fill
      show ?thesis
      proof (cases "BUF_SIZE \<le> n")
        case True
        then have step: "pull n acc rbuf segments = pull (n - min n (length segment)) (acc @ take n segment) [] (rest_of n segment later)"
          using fill by (simp add: pull.simps[of n])
        show ?thesis
          using 1(2)[OF fill(1) _ fill(3) True] fill unfolding step
          by (auto simp: Let_def case_prod_unfold rest_of_def min_def split: if_splits)
      next
        case False
        then have step: "pull n acc rbuf segments = pull n acc (take BUF_SIZE segment) (rest_of BUF_SIZE segment later)"
          using fill by (simp add: pull.simps[of n])
        have s: "take BUF_SIZE segment @ concat (rest_of BUF_SIZE segment later) = rbuf @ concat segments"
          using fill by (simp add: concat_rest_of)
        show ?thesis
          using 1(3)[OF fill(1) _ fill(3) False] fill(2) unfolding step s by simp
      qed
    qed
  qed
qed

text \<open>The buffered reader implements the plain byte stream, however the bytes were segmented.\<close>

lemma pull_stream:
  assumes "pull n [] rbuf segments = (got, rbuf', segments')"
  shows "got = (if n \<le> length (rbuf @ concat segments) then Some (take n (rbuf @ concat segments)) else None)"
    and "rbuf' @ concat segments' = drop n (rbuf @ concat segments)"
  using pull_spec[of n "[]" rbuf segments] assms by (simp_all add: Let_def)

definition io_error :: "io_kind \<Rightarrow> internal_error" where
  "io_error k = IoInternal k (case k of UnexpectedEof \<Rightarrow> ''early eof'' | BrokenPipe \<Rightarrow> ''broken pipe'' | _ \<Rightarrow> ''write zero'')"

definition c_read_exact :: "nat \<Rightarrow> ('p, bytes, internal_error) cprog" where
  "c_read_exact n s =
     (if n = 0 then (Ok [], s)
      else if cn_transport s = EmptyLink then (Err (io_error UnexpectedEof), s)
      else
        (case pull n [] (cn_rbuf s) (cn_sock s) of
           (Some bs, rbuf, segments) \<Rightarrow> (Ok bs, s\<lparr>cn_rbuf := rbuf, cn_sock := segments\<rparr>)
         | (None, rbuf, segments) \<Rightarrow>
             (if cn_peer_eof s then Err (io_error UnexpectedEof) else Pending,
              s\<lparr>cn_rbuf := rbuf, cn_sock := segments\<rparr>)))"

definition c_write :: "bytes \<Rightarrow> ('p, unit, internal_error) cprog" where
  "c_write bs s =
     (if cn_transport s = EmptyLink then (Err (io_error OtherKind), s)
      else
        (case cn_writes_left s of
           None \<Rightarrow> (Ok (), s\<lparr>cn_sent := cn_sent s @ [(cn_transport s, bs)]\<rparr>)
         | Some 0 \<Rightarrow> (if cn_peer_eof s then Err (io_error BrokenPipe) else Pending, s)
         | Some (Suc n) \<Rightarrow>
             (Ok (), s\<lparr>cn_sent := cn_sent s @ [(cn_transport s, bs)], cn_writes_left := Some n\<rparr>)))"

subsection \<open>Frames\<close>

definition frame :: "u8 \<Rightarrow> bytes \<Rightarrow> bytes" where
  "frame message_type body = message_type # to_be32 (of_nat (length body + 4)) @ body"

definition write_message :: "u8 \<Rightarrow> bytes \<Rightarrow> ('p, unit, internal_error) cprog" where
  "write_message message_type body = c_write (frame message_type body)"

definition prepare_error_buf :: "string \<Rightarrow> string \<Rightarrow> string \<Rightarrow> bytes" where
  "prepare_error_buf severity code message =
     0x53 # put_cstr [] severity @ 0x56 # put_cstr [] severity @ 0x43 # put_cstr [] code
       @ 0x4D # put_cstr [] message @ [0]"

definition send_error_message :: "string \<Rightarrow> string \<Rightarrow> ('p, unit, internal_error) cprog" where
  "send_error_message code message = write_message 0x45 (prepare_error_buf ''FATAL'' code message)"

definition read_message_length :: "('p, nat, proxy_error) cprog" where
  "read_message_length =
     bnd (map_err Internal (c_read_exact 4)) (\<lambda>hdr.
     let len = unat (be32_at hdr) in
     if len < 4 then throw (connection_error InvalidMessageLength) else ret (len - 4))"

definition read_message_body :: "nat \<Rightarrow> ('p, pooled_bytes option, proxy_error) cprog" where
  "read_message_body len =
     (if len = 0 then ret None
      else
        bnd (gets (\<lambda>s. max_capacity (cn_pool s))) (\<lambda>mx.
        if len > mx then throw (connection_error MessageTooLarge)
        else
          bnd (rent_buffer cn_pool put_cn_pool len) (\<lambda>pb.
          bnd (read_into cn_pool put_cn_pool (\<lambda>n. map_err Internal (c_read_exact n)) pb) (\<lambda>pb.
          ret (Some pb)))))"

definition read_startup_packet :: "nat \<Rightarrow> ('p, pooled_bytes, proxy_error) cprog" where
  "read_startup_packet limit =
     bnd read_message_length (\<lambda>len.
     if len + 4 > limit then throw (connection_error FirstMessageTooBig)
     else
       bnd (read_message_body len) (\<lambda>message.
       of_opt (connection_error EmptyMessageBody) message))"

subsection \<open>Facts about the byte stream\<close>

definition incoming :: "'p conn \<Rightarrow> bytes" where
  "incoming s = cn_rbuf s @ concat (cn_sock s)"

lemma c_read_exact_Ok:
  assumes "c_read_exact n s = (Ok bs, s')"
  shows "n \<le> length (incoming s) \<and> bs = take n (incoming s) \<and> incoming s' = drop n (incoming s) \<and>
    s' = s\<lparr>cn_rbuf := cn_rbuf s', cn_sock := cn_sock s'\<rparr>"
proof (cases "n = 0")
  case False
  then obtain rbuf segs where p: "pull n [] (cn_rbuf s) (cn_sock s) = (Some bs, rbuf, segs)"
    and s': "s' = s\<lparr>cn_rbuf := rbuf, cn_sock := segs\<rparr>"
    using assms by (auto simp: c_read_exact_def split: if_splits prod.splits option.splits)
  show ?thesis using pull_stream[OF p] s' by (auto simp: incoming_def split: if_splits)
qed (use assms in \<open>auto simp: c_read_exact_def\<close>)

lemma c_read_exact_enough:
  assumes "n \<le> length (incoming s)" and "cn_transport s \<noteq> EmptyLink"
  shows "\<exists>s'. c_read_exact n s = (Ok (take n (incoming s)), s') \<and> incoming s' = drop n (incoming s) \<and>
    s' = s\<lparr>cn_rbuf := cn_rbuf s', cn_sock := cn_sock s'\<rparr>"
proof (cases "n = 0")
  case False
  obtain got rbuf segs where p: "pull n [] (cn_rbuf s) (cn_sock s) = (got, rbuf, segs)"
    using prod_cases3 by blast
  show ?thesis
    using pull_stream[OF p] p assms False by (auto simp: c_read_exact_def incoming_def)
qed (auto simp: c_read_exact_def)

lemma parse_error_field:
  assumes "f \<noteq> 0" and "CHR 0x00 \<notin> set v"
  shows "parse_error_fields (f # put_cstr [] v @ rest) (sev, code, msg) =
    parse_error_fields rest
      (let value = from_utf8_lossy (as_bytes v) in
       if f = 0x53 \<or> f = 0x56 then (value, code, msg) else if f = 0x43 then (sev, value, msg)
       else if f = 0x4D then (sev, code, value) else (sev, code, msg))"
proof -
  have z: "\<forall>b \<in> set (as_bytes v). b \<noteq> 0" using assms(2) zero_in_as_bytes[of v] by metis
  have "takeWhile (\<lambda>b. b \<noteq> 0) (as_bytes v @ 0 # rest) = as_bytes v"
    "dropWhile (\<lambda>b. b \<noteq> 0) (as_bytes v @ 0 # rest) = 0 # rest"
    using z by (simp_all add: takeWhile_append dropWhile_append)
  then show ?thesis using assms(1) by (simp add: put_cstr_def Let_def)
qed

end
