(* ===== verification/Conn_Auth.thy ===== *)
theory Conn_Auth
  imports Conn_Io
begin

section \<open>Authenticating the client (\<open>auth/handler.rs\<close>, \<open>auth/scram/handler.rs\<close>)\<close>

text \<open>
  The SCRAM exchange over the wire. \<open>handle_authentication\<close> turns a rejection into the one
  \<open>ErrorResponse\<close> the client gets and returns \<open>None\<close>; an internal fault goes up to the driver. The
  cast \<open>as i32\<close> of the data length is the identity on words. The contract the session
  relies on, which verifiers the credential provider may return, is the locale \<open>credential_source\<close> of its own theory.
\<close>

definition send_auth_message :: "i32 \<Rightarrow> bytes \<Rightarrow> ('p, unit, internal_error) cprog" where
  "send_auth_message sub_code data = write_message 0x52 (to_be32 sub_code @ data)"

definition send_auth_sasl :: "string list \<Rightarrow> ('p, unit, auth_failure) cprog" where
  "send_auth_sasl mechanics =
     map_err AuthInternal (send_auth_message 10 (fold (\<lambda>m data. put_cstr data m) mechanics [] @ [0]))"

definition read_sasl_response :: "('p, pooled_bytes, auth_failure) cprog" where
  "read_sasl_response =
     bnd (map_err AuthInternal (c_read_exact 1)) (\<lambda>tag.
     if tag \<noteq> [0x70] then throw (rejected_scram (ScramProtocol ''Invalid Message''))
     else
       bnd (map_err map_proxy_error_auth_error read_message_length) (\<lambda>len.
       if len < 4 then throw (rejected_scram (ScramProtocol ''message length too short''))
       else
         bnd (map_err map_proxy_error_auth_error (read_message_body len)) (\<lambda>message.
         of_opt (rejected_scram (ScramProtocol ''message body empty'')) message)))"

definition parse_sasl_initial :: "string list \<Rightarrow> bytes \<Rightarrow> ('p, string \<times> string, auth_failure) cprog" where
  "parse_sasl_initial mechanics body =
     bnd (map_err map_proxy_error_auth_error (on_reader read_string (reader_new body))) (\<lambda>(mechanism, r).
     if mechanism \<notin> set mechanics then throw (rejected_scram (ScramProtocol ''invalid mechanism''))
     else
       bnd (map_err map_proxy_error_auth_error (on_reader read_u32 r)) (\<lambda>(data_len, r).
       if sint (data_len :: i32) < 0 then throw (rejected_scram (ScramProtocol ''Invalid message''))
       else
         bnd (map_err (\<lambda>_. rejected_scram (ScramProtocol ''Invalid message'')) (on_reader (read_string_fixed_size data_len) r)) (\<lambda>(client_first, r).
         ret (mechanism, client_first))))"

definition read_sasl_initial_response :: "string list \<Rightarrow> ('p, string \<times> string, auth_failure) cprog" where
  "read_sasl_initial_response mechanics =
     bnd read_sasl_response (\<lambda>pb.
     drop_after cn_pool put_cn_pool pb (parse_sasl_initial mechanics (body_of pb)))"

definition read_sasl_final_response :: "('p, string, auth_failure) cprog" where
  "read_sasl_final_response =
     bnd read_sasl_response (\<lambda>pb.
     drop_after cn_pool put_cn_pool pb
       (of_opt (rejected_scram (ScramProtocol ''malformed SCRAM message'')) (from_utf8 (body_of pb))))"

text \<open>A step of the local authenticator inside the session.\<close>

definition on_scram :: "(scram_authenticator, string, scram_error) prog \<Rightarrow> scram_authenticator \<Rightarrow>
    ('p, string \<times> scram_authenticator, auth_failure) cprog" where
  "on_scram m a s =
     (case m a of
        (Ok reply, a') \<Rightarrow> (Ok (reply, a'), s)
      | (Err e, a') \<Rightarrow> (Err (rejected_scram e), s)
      | (Panic, a') \<Rightarrow> (Panic, s)
      | (Pending, a') \<Rightarrow> (Pending, s))"

definition on_provider :: "('p, 'a, 'e) prog \<Rightarrow> ('p, 'a, 'e) cprog" where
  "on_provider m s = (case m (cn_provider s) of (r, p) \<Rightarrow> (r, s\<lparr>cn_provider := p\<rparr>))"

text \<open>\<open>lookup\<close>, the dummy verifier for an unknown user included.\<close>

definition find_verifier :: "('p, 'c) env \<Rightarrow> string \<Rightarrow> ('p, verifier, auth_failure) cprog" where
  "find_verifier E user =
     bnd (map_err (\<lambda>e. Rejected (ProviderAuth e)) (on_provider (e_lookup E user))) (\<lambda>found.
     case found of
       Some v \<Rightarrow> ret v
     | None \<Rightarrow> gets (\<lambda>s. e_dummy E (cn_provider s) user))"

definition offered_cert_hash :: "('p, 'c) env \<Rightarrow> 'p conn \<Rightarrow> cert_hash option" where
  "offered_cert_hash E s = (if cn_ssl_done s then Option.bind (e_tls E) ft_cert_hash else None)"

definition next_nonce :: "('p, 'c) env \<Rightarrow> ('p, bytes, 'e) cprog" where
  "next_nonce E =
     bnd (gets cn_nonce_pos) (\<lambda>i.
     andthen (modify (\<lambda>s. s\<lparr>cn_nonce_pos := i + 1\<rparr>)) (ret (e_nonce E i)))"

definition handle_scram_auth :: "('p, 'c) env \<Rightarrow> ('p, bytes option, auth_failure) cprog" where
  "handle_scram_auth E =
     bnd (gets cn_user) (\<lambda>usr.
     bnd (of_opt (rejected_scram (AuthenticationFailed ''password authentication failed for user''))
            (case usr of Some u \<Rightarrow> if u = [] then None else Some u | None \<Rightarrow> None)) (\<lambda>user.
     bnd (find_verifier E user) (\<lambda>verifier.
     bnd (gets (offered_cert_hash E)) (\<lambda>hash.
     let scram = authenticator_new verifier hash; mechanics = mechanisms scram in
     andthen (send_auth_sasl mechanics) (
     bnd (read_sasl_initial_response mechanics) (\<lambda>(chosen, client_first).
     bnd (next_nonce E) (\<lambda>nonce.
     bnd (on_scram (handle_client_first (e_crypto E) nonce chosen client_first user) scram) (\<lambda>(server_first, scram).
     andthen (map_err AuthInternal (send_auth_message 11 (as_bytes server_first))) (
     bnd read_sasl_final_response (\<lambda>client_final.
     bnd (on_scram (handle_client_final (e_crypto E) client_final user) scram) (\<lambda>(server_final, scram).
     andthen (map_err AuthInternal (send_auth_message 12 (as_bytes server_final))) (
     andthen (map_err AuthInternal (send_auth_message 0 [])) (
     ret (extracted_client_key scram))))))))))))))"

definition send_protocol_error :: "auth_error \<Rightarrow> ('p, unit, internal_error) cprog" where
  "send_protocol_error e = send_error_message (auth_error_code e) (auth_error_message e)"

definition handle_authentication :: "('p, 'c) env \<Rightarrow> ('p, bytes option, proxy_error) cprog" where
  "handle_authentication E s =
     (case handle_scram_auth E s of
        (Ok key, s') \<Rightarrow> (Ok key, s')
      | (Err (Rejected e), s') \<Rightarrow> andthen (map_err Internal (send_protocol_error e)) (ret None) s'
      | (Err (AuthInternal e), s') \<Rightarrow> (Err (Internal e), s')
      | (Panic, s') \<Rightarrow> (Panic, s')
      | (Pending, s') \<Rightarrow> (Pending, s'))"

end
