(* ===== verification/Conn_Startup.thy ===== *)
theory Conn_Startup
  imports Conn_Auth
begin

section \<open>The startup phase (\<open>proxy/conn.rs\<close>)\<close>

text \<open>
  The startup driver and its handlers: TLS and GSS negotiation, cancel requests, the startup message,
  authentication, the backend link and the messages that end the phase. \<open>Conn::handle\<close> is
  \<open>conn_handle\<close>: a slot for the time of the session, and the startup under the authentication deadline,
  where \<open>Pending\<close> is a future the deadline cuts off. The driver loop runs on fuel 3, and
  \<open>drive_needs_three_rounds\<close> shows that more changes nothing.
\<close>

datatype startup_outcome = Continued | Ready | Close

definition GSSENC_REQUEST_CODE :: u32 where
  "GSSENC_REQUEST_CODE = push_bit 16 1234 OR 5680"

definition unsupported_protocol_message :: "u32 \<Rightarrow> string" where
  "unsupported_protocol_message version =
     ''unsupported frontend protocol '' @ show_u32 (drop_bit 16 version) @ ''.'' @ show_u32 (version AND 0xFFFF)
       @ '': server supports 3.0 to 3.0''"

subsection \<open>TLS and GSS requests\<close>

text \<open>
  \<open>promote_to_tls\<close> takes the socket out of the reader; the bytes the reader had read ahead are gone.
  After a failed handshake both halves stay \<open>Empty\<close>.
\<close>

definition promote_to_tls :: "('p, 'c) env \<Rightarrow> ('p, unit, proxy_error) cprog" where
  "promote_to_tls E s =
     (let s' = s\<lparr>cn_rbuf := [], cn_transport := EmptyLink\<rparr> in
      if cn_transport s \<noteq> PlainLink then (Err (connection_error InvalidData), s')
      else
        (case e_tls E of
           None \<Rightarrow> (Err (Internal (TlsInternal ''TLS acceptor not set'')), s')
         | Some tls \<Rightarrow>
             (case ft_accept tls (cn_sock s) (cn_peer_eof s) of
                Ok (segments, eof) \<Rightarrow>
                  (Ok (), s'\<lparr>cn_sock := segments, cn_peer_eof := eof, cn_transport := TlsLink\<rparr>)
              | Err e \<Rightarrow> (Err (Internal (TlsInternal e)), s'\<lparr>cn_sock := []\<rparr>)
              | Panic \<Rightarrow> (Panic, s')
              | Pending \<Rightarrow> (Pending, s'))))"

definition handle_ssl_request :: "('p, 'c) env \<Rightarrow> ('p, unit, proxy_error) cprog" where
  "handle_ssl_request E =
     bnd (gets cn_ssl_done) (\<lambda>ssl_done.
     if ssl_done then throw (connection_error TlsAlreadyDone)
     else
       andthen (modify (\<lambda>s. s\<lparr>cn_ssl_done := True\<rparr>)) (
       if e_tls E \<noteq> None then
         andthen (map_err Internal (c_write [0x53])) (promote_to_tls E)
       else map_err Internal (c_write [0x4E])))"

definition handle_gssnc_request :: "('p, unit, proxy_error) cprog" where
  "handle_gssnc_request =
     bnd (gets cn_gss_done) (\<lambda>gss_done.
     if gss_done then throw (connection_error GssAlreadyDone)
     else
       andthen (modify (\<lambda>s. s\<lparr>cn_gss_done := True\<rparr>)) (map_err Internal (c_write [0x4E])))"

subsection \<open>Cancel requests\<close>

definition on_cancel_log :: "((string \<times> bytes) list, unit, 'e) prog \<Rightarrow> ('p, unit, 'e) cprog" where
  "on_cancel_log m s = (case m (cn_cancel_log s) of (r, l) \<Rightarrow> (r, s\<lparr>cn_cancel_log := l\<rparr>))"

text \<open>A failed forward is logged and ignored.\<close>

definition ignore_error :: "('p, unit, 'e) cprog \<Rightarrow> ('p, unit, 'f) cprog" where
  "ignore_error m s =
     (case m s of
        (Ok _, s') \<Rightarrow> (Ok (), s')
      | (Err _, s') \<Rightarrow> (Ok (), s')
      | (Panic, s') \<Rightarrow> (Panic, s')
      | (Pending, s') \<Rightarrow> (Pending, s'))"

definition handle_cancel_request :: "('p, 'c) env \<Rightarrow> message_reader \<Rightarrow> ('p, unit, proxy_error) cprog" where
  "handle_cancel_request E r =
     (if remaining r \<noteq> 8 then throw (connection_error InvalidMessageLength)
      else
        bnd (on_reader read_u32 r) (\<lambda>(pid, r).
        bnd (on_reader read_u32 r) (\<lambda>(secret, r).
        bnd (gets (\<lambda>s. lookup_by_key (cn_registry s) \<lparr>skey = pid, ssecret = secret\<rparr>)) (\<lambda>found.
        case found of
          None \<Rightarrow> ret ()
        | Some b \<Rightarrow>
            (case be_backend_key b of
               None \<Rightarrow> ret ()
             | Some key \<Rightarrow> ignore_error (on_cancel_log (send_cancel_request (e_net E) b key)))))))"

subsection \<open>The startup message\<close>

lemma read_string_progress:
  assumes "0 < remaining r" and "(Ok key, r1) = read_string r" and "(Ok value, r2) = read_string r1"
  shows "remaining r2 < remaining r"
proof -
  have ok: "reader_ok r" using assms(1) by (simp add: remaining_def reader_ok_def)
  from ok obtain n where r1: "r1 = r\<lparr>pos := pos r + n\<rparr>" "0 < n" "reader_ok r1"
  proof (cases rule: read_string_cases)
    case (Str s t m)
    then have "pos r + length s < length (buf r)" using unread_nth(1)[of r s 0 t] by simp
    then show ?thesis using Str assms(2)[symmetric] that[of "length s + 1"] by (auto simp: reader_ok_def)
  qed (use assms(2) in simp_all)
  have "pos r1 \<le> pos r2 \<and> buf r2 = buf r1" using read_string_pos_mono[OF r1(3) assms(3)[symmetric]] .
  then show ?thesis using r1 assms(1) by (auto simp: remaining_def)
qed

text \<open>The \<open>while\<close> loop over the pairs; the flag says whether the terminator was seen.\<close>

function read_params :: "message_reader \<Rightarrow> params \<Rightarrow> (bool \<times> message_reader, proxy_error) outcome \<times> params" where
  "read_params r ps =
     (if remaining r = 0 then (Ok (False, r), ps)
      else
        (case read_string r of
           (Ok key, r1) \<Rightarrow>
             if key = [] then (Ok (True, r1), ps)
             else
               (case read_string r1 of
                  (Ok value, r2) \<Rightarrow> read_params r2 (hm_insert key value ps)
                | (Err e, _) \<Rightarrow> (Err e, ps)
                | (Panic, _) \<Rightarrow> (Panic, ps)
                | (Pending, _) \<Rightarrow> (Pending, ps))
         | (Err e, _) \<Rightarrow> (Err e, ps)
         | (Panic, _) \<Rightarrow> (Panic, ps)
         | (Pending, _) \<Rightarrow> (Pending, ps)))"
  by pat_completeness auto
termination
  by (relation "measure (\<lambda>(r, ps). remaining r)") (auto dest: read_string_progress)

declare read_params.simps [simp del]

definition on_params :: "(params \<Rightarrow> ('a, 'e) outcome \<times> params) \<Rightarrow> ('p, 'a, 'e) cprog" where
  "on_params m s = (case m (cn_params s) of (r, ps) \<Rightarrow> (r, s\<lparr>cn_params := ps\<rparr>))"

definition merge_options :: "params \<Rightarrow> proxy_error + params" where
  "merge_options ps =
     (case map_of ps ''options'' of
        None \<Rightarrow> Inr ps
      | Some value \<Rightarrow>
          and_then (parse_options value) (\<lambda>parsed.
          Inr (hm_remove ''options'' (hm_extend ps (hm_remove ''replication'' parsed)))))"

definition nonempty :: "string option \<Rightarrow> string option" where
  "nonempty v = (case v of Some s \<Rightarrow> if s = [] then None else Some s | None \<Rightarrow> None)"

definition set_identity :: "('p, unit, proxy_error) cprog" where
  "set_identity =
     bnd (gets cn_params) (\<lambda>ps.
     bnd (of_opt (connection_error MissingUser) (nonempty (map_of ps ''user''))) (\<lambda>user.
     andthen (modify (\<lambda>s. s\<lparr>cn_user := Some user,
        cn_database := Some (case nonempty (map_of ps ''database'') of Some d \<Rightarrow> d | None \<Rightarrow> user)\<rparr>)) (
     case map_of ps ''replication'' of
       None \<Rightarrow> ret ()
     | Some value \<Rightarrow>
         bnd (of_sum (parse_replication_mode value)) (\<lambda>mode.
         modify (\<lambda>s. s\<lparr>cn_replication := mode\<rparr>)))))"

definition parse_startup_message :: "u32 \<Rightarrow> message_reader \<Rightarrow> ('p, unit, proxy_error) cprog" where
  "parse_startup_message version r =
     andthen (modify (\<lambda>s. s\<lparr>cn_protocol_version := Some version\<rparr>)) (
     bnd (on_params (read_params r)) (\<lambda>(saw_terminator, r).
     andthen (guard (saw_terminator \<and> remaining r = 0) (connection_error InvalidStartupLayout)) (
     bnd (gets cn_params) (\<lambda>ps.
     bnd (of_sum (merge_options ps)) (\<lambda>ps.
     andthen (modify (\<lambda>s. s\<lparr>cn_params := ps\<rparr>)) set_identity)))))"

subsection \<open>The backend link\<close>

definition make_pg_config :: "('p, 'c) env \<Rightarrow> 'p conn \<Rightarrow> bytes \<Rightarrow> verifier \<Rightarrow> string \<Rightarrow> string \<Rightarrow> string \<Rightarrow> u16 \<Rightarrow> pg_config" where
  "make_pg_config E s client_key v user database host port =
     (let b = backend (e_config E); tls = backend_tls b in
      pg_config_new (Some client_key) (Some (v_server_key v)) (Some (v_stored_key v)) (v_password v) user database
        (backend_connect_timeout b) (backend_startup_timeout b) host port
        (if tls_config_domain tls = None then tls\<lparr>tls_config_domain := tls_server_name b host\<rparr> else tls)
        (v_salt v) (v_iterations v) (e_order E (cn_params s)))"

definition on_pool :: "(multi_buffer_pool, 'a, 'e) prog \<Rightarrow> ('p, 'a, 'e) cprog" where
  "on_pool m s = (case m (cn_pool s) of (r, p) \<Rightarrow> (r, put_cn_pool p s))"

definition open_backend :: "('p, 'c) env \<Rightarrow> bytes \<Rightarrow> ('p, backend, proxy_error) cprog" where
  "open_backend E client_key =
     bnd (gets id) (\<lambda>s.
     bnd (of_opt (connection_error InvalidState) (cn_user s)) (\<lambda>user.
     bnd (of_opt (connection_error InvalidState) (cn_database s)) (\<lambda>database.
     bnd (map_err (\<lambda>e. Internal (ProviderInternal e)) (on_provider (e_lookup E user))) (\<lambda>found.
     bnd (of_opt (connection_error InvalidState) found) (\<lambda>verifier.
     bnd (map_err (\<lambda>e. Internal (ConfigInternal e)) (of_sum (backend_host_port (e_config E)))) (\<lambda>(host, port).
     map_err proxy_error_of_pg
       (on_pool (backend_new (e_crypto E) (e_net E) (e_client_nonce E)
          (make_pg_config E s client_key verifier user database host port)))))))))"

fun register_session :: "nat \<Rightarrow> ('p, 'c) env \<Rightarrow> backend \<Rightarrow> ('p, session_key_secret option, 'e) cprog" where
  "register_session 0 E b = ret None"
| "register_session (Suc tries) E b =
     bnd (gets id) (\<lambda>s.
     case session_key_new (e_key_rng E) (cn_key_pos s) of (candidate, position) \<Rightarrow>
       andthen (modify (\<lambda>s. s\<lparr>cn_key_pos := position\<rparr>)) (
       case register (cn_registry s) b (cn_id s) candidate of
         None \<Rightarrow> register_session tries E b
       | Some registry \<Rightarrow>
           andthen (modify (\<lambda>s. s\<lparr>cn_registry := registry\<rparr>)) (ret (Some candidate))))"

subsection \<open>The end of the phase\<close>

fun notification_frame :: "startup_notification \<Rightarrow> u8 \<times> bytes" where
  "notification_frame (ParameterStatus name value) = (0x53, put_cstr (put_cstr [] name) value)"
| "notification_frame (Notice body) = (0x4E, body)"

fun send_notifications :: "startup_notification list \<Rightarrow> ('p, unit, proxy_error) cprog" where
  "send_notifications [] = ret ()"
| "send_notifications (n # ns) =
     (case notification_frame n of (tag, body) \<Rightarrow>
        andthen (map_err Internal (write_message tag body)) (send_notifications ns))"

definition send_startup_notifications :: "('p, unit, proxy_error) cprog" where
  "send_startup_notifications =
     bnd (gets cn_backend) (\<lambda>b.
     bnd (of_opt (connection_error InvalidData) b) (\<lambda>b. send_notifications (be_notifications b)))"

definition send_key_secret :: "('p, unit, proxy_error) cprog" where
  "send_key_secret =
     bnd (gets cn_session_key) (\<lambda>k.
     bnd (of_opt (connection_error InvalidState) k) (\<lambda>k.
     map_err Internal (write_message 0x4B (to_be32 (skey k) @ to_be32 (ssecret k)))))"

definition send_ready_signal :: "('p, unit, proxy_error) cprog" where
  "send_ready_signal =
     bnd (gets (\<lambda>s. case cn_backend s of Some b \<Rightarrow> be_ready_status b | None \<Rightarrow> 0x49)) (\<lambda>status.
     map_err Internal (write_message 0x5A [status]))"

definition publish_session :: "('p, 'c) env \<Rightarrow> backend \<Rightarrow> ('p, startup_outcome, proxy_error) cprog" where
  "publish_session E b =
     bnd (register_session 64 E b) (\<lambda>registered.
     bnd (of_opt (connection_error InvalidState) registered) (\<lambda>key.
     andthen (modify (\<lambda>s. s\<lparr>cn_verified := be_verified b, cn_backend := Some b,
        cn_session_key := Some key, cn_guard := Some (cn_id s, key)\<rparr>)) (
     andthen send_startup_notifications (
     andthen send_key_secret (
     andthen send_ready_signal (
     ret Ready))))))"

definition handle_startup_packet :: "('p, 'c) env \<Rightarrow> u32 \<Rightarrow> message_reader \<Rightarrow> ('p, startup_outcome, proxy_error) cprog" where
  "handle_startup_packet E version r =
     andthen (parse_startup_message version r) (
     bnd (handle_authentication E) (\<lambda>client_key.
     case client_key of
       None \<Rightarrow> ret Close
     | Some key \<Rightarrow> bnd (open_backend E key) (publish_session E)))"

subsection \<open>The driver\<close>

definition startup_dispatch :: "('p, 'c) env \<Rightarrow> bytes \<Rightarrow> ('p, startup_outcome, proxy_error) cprog" where
  "startup_dispatch E body =
     bnd (on_reader read_u32 (reader_new body)) (\<lambda>(code, r).
     if code = SSL_REQUEST_CODE then andthen (handle_ssl_request E) (ret Continued)
     else if code = GSSENC_REQUEST_CODE then andthen handle_gssnc_request (ret Continued)
     else if code = CANCEL_REQUEST_CODE then andthen (handle_cancel_request E r) (ret Close)
     else if code = PROTOCOL_VERSION_NUMBER then
       bnd (gets (\<lambda>s. cn_required_tls s \<and> \<not> cn_ssl_done s)) (\<lambda>refuse.
       if refuse then throw (connection_error TlsRequired)
       else handle_startup_packet E code r)
     else throw (protocol_error ''0A000'' (unsupported_protocol_message code)))"

definition handle_startup :: "('p, 'c) env \<Rightarrow> ('p, startup_outcome, proxy_error) cprog" where
  "handle_startup E =
     bnd (read_startup_packet (max_startup_bytes (limits (e_config E)))) (\<lambda>pb.
     drop_after cn_pool put_cn_pool pb (startup_dispatch E (body_of pb)))"

fun drive :: "nat \<Rightarrow> ('p, 'c) env \<Rightarrow> ('p, startup_outcome, internal_error) cprog" where
  "drive 0 E s = (Pending, s)"
| "drive (Suc fuel) E s =
     (case handle_startup E s of
        (Ok Continued, s') \<Rightarrow> drive fuel E s'
      | (Ok out, s') \<Rightarrow> (Ok out, s')
      | (Err (Internal e), s') \<Rightarrow> (Err e, s')
      | (Err (ConnectionError e), s') \<Rightarrow>
          andthen (send_error_message (client_code e) (client_message e)) (ret Close) s'
      | (Panic, s') \<Rightarrow> (Panic, s')
      | (Pending, s') \<Rightarrow> (Pending, s'))"

definition drive_startup_until_ready :: "('p, 'c) env \<Rightarrow> ('p, startup_outcome, internal_error) cprog" where
  "drive_startup_until_ready E = drive 3 E"

definition startup_with_deadline :: "('p, 'c) env \<Rightarrow> ('p, unit, internal_error) cprog" where
  "startup_with_deadline E s =
     (case drive_startup_until_ready E s of
        (Pending, s') \<Rightarrow>
          send_error_message (conn_error_code AuthTimeout) (conn_error_message AuthTimeout) s'
      | (Ok _, s') \<Rightarrow> (Ok (), s')
      | (Err e, s') \<Rightarrow> (Err e, s')
      | (Panic, s') \<Rightarrow> (Panic, s'))"

definition conn_handle :: "('p, 'c) env \<Rightarrow> ('p, unit, internal_error) cprog" where
  "conn_handle E s =
     (case try_acquire (cn_slots s) of
        (None, slots) \<Rightarrow>
          send_error_message (conn_error_code TooManyRequest) (conn_error_message TooManyRequest)
            (s\<lparr>cn_slots := slots\<rparr>)
      | (Some _, slots) \<Rightarrow>
          (case startup_with_deadline E (s\<lparr>cn_slots := slots\<rparr>) of
             (Pending, s') \<Rightarrow> (Pending, s')
           | (r, s') \<Rightarrow> (r, s'\<lparr>cn_slots := permit_drop (cn_slots s')\<rparr>)))"

text \<open>
  The end of the task: the connection is dropped, and its session guard with it. A task that waits
  for ever (the last write has no deadline) drops neither.
\<close>

definition conn_drop :: "'p conn \<Rightarrow> 'p conn" where
  "conn_drop s =
     (case cn_guard s of
        None \<Rightarrow> s
      | Some (conn_id, key) \<Rightarrow>
          s\<lparr>cn_registry := guard_drop (cn_registry s) conn_id key, cn_guard := None\<rparr>)"

definition run_session :: "('p, 'c) env \<Rightarrow> ('p, unit, internal_error) cprog" where
  "run_session E s =
     (case conn_handle E s of (Pending, s') \<Rightarrow> (Pending, s') | (r, s') \<Rightarrow> (r, conn_drop s'))"

end
