(* ===== verification/Conn_Frame.thy ===== *)
theory Conn_Frame
  imports Conn_Startup
begin

section \<open>What the session's operations leave alone\<close>

text \<open>
  The framing lemmas of the session. \<open>core\<close> is the part of the state that only a few operations touch:
  what was sent, the slot count, the session registry, the guard, and whether the peer takes every write. \<open>keeps P sh m\<close> says that \<open>m\<close> does
  not panic, keeps the shared pool in its invariant and shape, and keeps \<open>P\<close> of the core, however it
  ends. The collection \<open>conn_rules\<close> has one rule per operation.
\<close>

named_theorems conn_rules "operations of a session that keep its pool and its core"

type_synonym core_state =
  "(transport \<times> bytes) list \<times> slot_inner \<times> backend session_inner \<times> (i32 \<times> session_key_secret) option \<times> i32 \<times> bool"

definition core :: "'p conn \<Rightarrow> core_state" where
  "core s = (cn_sent s, cn_slots s, cn_registry s, cn_guard s, cn_id s, cn_writes_left s = None)"

definition sound :: "(core_state \<Rightarrow> bool) \<Rightarrow> (nat \<times> nat) list \<Rightarrow> 'p conn \<Rightarrow> bool" where
  "sound P sh s \<longleftrightarrow> conn_pool.holds sh s \<and> P (core s)"

definition keeps :: "(core_state \<Rightarrow> bool) \<Rightarrow> (nat \<times> nat) list \<Rightarrow> ('p, 'a, 'e) cprog \<Rightarrow> bool" where
  "keeps P sh m \<longleftrightarrow> triple (sound P sh) m (\<lambda>_. sound P sh) (\<lambda>_. sound P sh) (sound P sh)"

text \<open>The predicates a message other than an \<open>ErrorResponse\<close> keeps.\<close>

definition quiet :: "(core_state \<Rightarrow> bool) \<Rightarrow> bool" where
  "quiet P \<longleftrightarrow> (\<forall>sent rest t tag body. tag \<noteq> 0x45 \<longrightarrow> P (sent, rest) \<longrightarrow> P (sent @ [(t, tag # body)], rest))"

lemma sound_put: "sound P sh (put_cn_pool p s) \<longleftrightarrow> pool_inv p \<and> pool_shape p = sh \<and> P (core s)"
  by (auto simp: sound_def conn_pool.holds_def put_cn_pool_def core_def)

lemma keeps_bnd [conn_rules]: "keeps P sh m \<Longrightarrow> (\<And>x. keeps P sh (f x)) \<Longrightarrow> keeps P sh (bnd m f)"
  unfolding keeps_def by (rule triple_bnd)

lemma keeps_ret [conn_rules]: "keeps P sh (ret x)"
  by (simp add: keeps_def triple_ret)

lemma keeps_throw [conn_rules]: "keeps P sh (throw e)"
  by (simp add: keeps_def triple_throw)

lemma keeps_hang: "keeps P sh hang"
  by (simp add: keeps_def triple_def prog_simps)

lemma keeps_gets [conn_rules]: "keeps P sh (gets f)"
  by (simp add: keeps_def triple_gets)

lemma keeps_guard [conn_rules]: "keeps P sh (guard b e)"
  by (simp add: keeps_def triple_guard)

lemma keeps_of_sum [conn_rules]: "keeps P sh (of_sum x)"
  by (simp add: keeps_def triple_of_sum)

lemma keeps_of_opt [conn_rules]: "keeps P sh (of_opt e x)"
  by (simp add: keeps_def triple_of_opt)

lemma keeps_modify:
  "(\<And>s. cn_pool (f s) = cn_pool s \<and> core (f s) = core s) \<Longrightarrow> keeps P sh (modify f)"
  unfolding keeps_def by (rule triple_modify) (simp add: sound_def conn_pool.holds_def)

lemma keeps_map_err [conn_rules]: "keeps P sh m \<Longrightarrow> keeps P sh (map_err g m)"
  unfolding keeps_def by (rule triple_map_err)

lemma keeps_if [conn_rules]: "(b \<Longrightarrow> keeps P sh m) \<Longrightarrow> (\<not> b \<Longrightarrow> keeps P sh m') \<Longrightarrow> keeps P sh (if b then m else m')"
  by simp

lemma keeps_option [conn_rules]:
  "(x = None \<Longrightarrow> keeps P sh m) \<Longrightarrow> (\<And>v. x = Some v \<Longrightarrow> keeps P sh (f v)) \<Longrightarrow>
   keeps P sh (case x of None \<Rightarrow> m | Some v \<Rightarrow> f v)"
  by (cases x) simp_all

lemma keeps_pair [conn_rules]: "(\<And>a b. keeps P sh (f a b)) \<Longrightarrow> keeps P sh (case x of (a, b) \<Rightarrow> f a b)"
  by (cases x) simp

lemma keepsI:
  "(\<And>s r s'. sound P sh s \<Longrightarrow> m s = (r, s') \<Longrightarrow> r \<noteq> Panic \<and> sound P sh s') \<Longrightarrow> keeps P sh m"
  unfolding keeps_def by (rule tripleI) (fastforce split: outcome.splits)

lemma keepsD: "keeps P sh m \<Longrightarrow> sound P sh s \<Longrightarrow> m s = (r, s') \<Longrightarrow> r \<noteq> Panic \<and> sound P sh s'"
  unfolding keeps_def by (drule (2) tripleD) (cases r; simp)

subsection \<open>Reading\<close>

lemma keeps_read_exact [conn_rules]: "keeps P sh (c_read_exact n)"
  by (rule keepsI)
     (auto simp: c_read_exact_def sound_def conn_pool.holds_def core_def split: if_splits prod.splits option.splits)

lemma triple_read_exact_length:
  "triple (sound P sh) (map_err Internal (c_read_exact n)) (\<lambda>bs s. length bs = n \<and> sound P sh s)
    (\<lambda>_. sound P sh) (sound P sh)"
proof (rule tripleI)
  fix s r s' assume s: "sound P sh s" and run: "map_err Internal (c_read_exact n) s = (r, s')"
  have "r \<noteq> Panic \<and> sound P sh s'" by (rule keepsD[OF keeps_map_err[OF keeps_read_exact] s run])
  moreover have "length bs = n" if "r = Ok bs" for bs
    using run that c_read_exact_Ok[of n s bs s'] by (simp add: map_err_Ok)
  ultimately show "case r of Ok bs \<Rightarrow> length bs = n \<and> sound P sh s' | Err e \<Rightarrow> sound P sh s' | Panic \<Rightarrow> False
      | Pending \<Rightarrow> sound P sh s'" by (cases r) simp_all
qed

lemma keeps_read_message_length [conn_rules]: "keeps P sh read_message_length"
  unfolding read_message_length_def Let_def by (intro conn_rules)

lemma triple_fill_body:
  "triple (\<lambda>s. P (core s) \<and> conn_pool.holds sh s \<and> rented_ok sh pb \<and> exposed pb = len)
     (bnd (read_into cn_pool put_cn_pool (\<lambda>n. map_err Internal (c_read_exact n)) pb) (\<lambda>pb. ret (Some pb)))
     (\<lambda>m s. (\<forall>pb. m = Some pb \<longrightarrow> rented_ok sh pb \<and> exposed pb = len) \<and> sound P sh s) (\<lambda>_. sound P sh) (sound P sh)"
proof (cases "rented_ok sh pb \<and> exposed pb = len")
  case True
  have r: "triple (\<lambda>s. P (core s) \<and> conn_pool.holds sh s) (map_err Internal (c_read_exact (exposed pb)))
      (\<lambda>bs s. length bs = exposed pb \<and> P (core s) \<and> conn_pool.holds sh s)
      (\<lambda>e s. P (core s) \<and> conn_pool.holds sh s) (\<lambda>s. P (core s) \<and> conn_pool.holds sh s)"
    by (rule triple_weaken[OF triple_read_exact_length[of P sh "exposed pb"]]) (auto simp: sound_def)
  have "triple (\<lambda>s. P (core s) \<and> conn_pool.holds sh s)
    (read_into cn_pool put_cn_pool (\<lambda>n. map_err Internal (c_read_exact n)) pb)
    (\<lambda>pb' s. rented_ok sh pb' \<and> exposed pb' = exposed pb \<and> P (core s) \<and> conn_pool.holds sh s)
    (\<lambda>e s. P (core s) \<and> conn_pool.holds sh s) (\<lambda>s. P (core s) \<and> conn_pool.holds sh s)"
    by (rule conn_pool.triple_read_into[where reader = "\<lambda>n. map_err Internal (c_read_exact n)" and
          Q = "\<lambda>_ s. P (core s)" and E = "\<lambda>_ s. P (core s)" and W = "\<lambda>s. P (core s)", OF conjunct1[OF True] r]) (simp_all add: put_cn_pool_def core_def)
  then have "triple (\<lambda>s. P (core s) \<and> conn_pool.holds sh s)
    (bnd (read_into cn_pool put_cn_pool (\<lambda>n. map_err Internal (c_read_exact n)) pb) (\<lambda>pb. ret (Some pb)))
    (\<lambda>m s. (\<forall>pb. m = Some pb \<longrightarrow> rented_ok sh pb \<and> exposed pb = len) \<and> sound P sh s)
    (\<lambda>e s. P (core s) \<and> conn_pool.holds sh s) (\<lambda>s. P (core s) \<and> conn_pool.holds sh s)"
    by (rule triple_bnd) (rule triple_ret, use True in \<open>auto simp: sound_def\<close>)
  then show ?thesis by (rule triple_weaken) (auto simp: sound_def)
qed (auto simp: triple_def)

lemma triple_message_body:
  "triple (sound P sh) (read_message_body len)
     (\<lambda>m s. (\<forall>pb. m = Some pb \<longrightarrow> rented_ok sh pb \<and> exposed pb = len) \<and> sound P sh s) (\<lambda>_. sound P sh) (sound P sh)"
proof -
  let ?I = "\<lambda>s. P (core s)"
  show ?thesis
  proof (cases "len = 0")
    case True
    then show ?thesis by (simp add: read_message_body_def triple_ret)
  next
    case False
    have "triple (sound P sh) (bnd (gets (\<lambda>s. max_capacity (cn_pool s))) (\<lambda>mx.
        if len > mx then throw (connection_error MessageTooLarge)
        else
          bnd (rent_buffer cn_pool put_cn_pool len) (\<lambda>pb.
          bnd (read_into cn_pool put_cn_pool (\<lambda>n. map_err Internal (c_read_exact n)) pb) (\<lambda>pb.
          ret (Some pb)))))
     (\<lambda>m s. (\<forall>pb. m = Some pb \<longrightarrow> rented_ok sh pb \<and> exposed pb = len) \<and> sound P sh s) (\<lambda>_. sound P sh) (sound P sh)"
    proof (rule triple_bnd[where R = "\<lambda>mx s. sound P sh s \<and> mx = max_capacity (cn_pool s)"])
      show "triple (sound P sh) (gets (\<lambda>s. max_capacity (cn_pool s)))
          (\<lambda>mx s. sound P sh s \<and> mx = max_capacity (cn_pool s)) (\<lambda>_. sound P sh) (sound P sh)"
        by (rule triple_gets) simp
      fix mx
      have go: "triple (\<lambda>s. ?I s \<and> conn_pool.holds sh s \<and> len \<le> max_capacity (cn_pool s))
         (bnd (rent_buffer cn_pool put_cn_pool len) (\<lambda>pb.
          bnd (read_into cn_pool put_cn_pool (\<lambda>n. map_err Internal (c_read_exact n)) pb) (\<lambda>pb.
          ret (Some pb))))
         (\<lambda>m s. (\<forall>pb. m = Some pb \<longrightarrow> rented_ok sh pb \<and> exposed pb = len) \<and> sound P sh s) (\<lambda>_. sound P sh) (sound P sh)"
        by (rule triple_bnd[OF conn_pool.triple_rent triple_fill_body]) (simp add: put_cn_pool_def core_def)
      show "triple (\<lambda>s. sound P sh s \<and> mx = max_capacity (cn_pool s))
         (if len > mx then throw (connection_error MessageTooLarge)
          else bnd (rent_buffer cn_pool put_cn_pool len) (\<lambda>pb.
            bnd (read_into cn_pool put_cn_pool (\<lambda>n. map_err Internal (c_read_exact n)) pb) (\<lambda>pb.
            ret (Some pb))))
         (\<lambda>m s. (\<forall>pb. m = Some pb \<longrightarrow> rented_ok sh pb \<and> exposed pb = len) \<and> sound P sh s) (\<lambda>_. sound P sh) (sound P sh)"
        by (rule triple_if, rule triple_throw, simp, rule triple_pre[OF go], simp add: sound_def)
    qed
    then show ?thesis using False by (simp add: read_message_body_def)
  qed
qed

text \<open>Reading a body and running its owner's scope.\<close>

lemma keeps_scope:
  assumes "triple (sound P sh) m (\<lambda>pb s. rented_ok sh pb \<and> sound P sh s) (\<lambda>_. sound P sh) (sound P sh)"
    and "\<And>pb. keeps P sh (f pb)"
  shows "keeps P sh (bnd m (\<lambda>pb. drop_after cn_pool put_cn_pool pb (f pb)))"
  unfolding keeps_def
proof (rule triple_bnd[OF assms(1)])
  fix pb
  let ?I = "\<lambda>s. P (core s)"
  show "triple (\<lambda>s. rented_ok sh pb \<and> sound P sh s) (drop_after cn_pool put_cn_pool pb (f pb))
      (\<lambda>_. sound P sh) (\<lambda>_. sound P sh) (sound P sh)"
  proof (cases "rented_ok sh pb")
    case True
    have m: "triple (sound P sh) (f pb) (\<lambda>_ s. ?I s \<and> conn_pool.holds sh s) (\<lambda>_ s. ?I s \<and> conn_pool.holds sh s)
        (\<lambda>s. ?I s \<and> conn_pool.holds sh s)"
      using assms(2)[of pb] unfolding keeps_def by (rule triple_weaken) (auto simp: sound_def)
    have "triple (sound P sh) (drop_after cn_pool put_cn_pool pb (f pb))
        (\<lambda>_ s. ?I s \<and> conn_pool.holds sh s) (\<lambda>_ s. ?I s \<and> conn_pool.holds sh s) (\<lambda>s. ?I s \<and> conn_pool.holds sh s)"
      by (rule conn_pool.triple_drop_after[where Q = "\<lambda>_. ?I" and E = "\<lambda>_. ?I" and W = ?I, OF True m])
         (simp_all add: put_cn_pool_def core_def)
    then show ?thesis by (rule triple_weaken) (auto simp: sound_def)
  qed (simp add: triple_def)
qed

lemma triple_of_opt_body:
  "triple (\<lambda>s. (\<forall>pb. m = Some pb \<longrightarrow> rented_ok sh pb \<and> exposed pb = len) \<and> sound P sh s) (of_opt e m)
    (\<lambda>pb s. rented_ok sh pb \<and> sound P sh s) (\<lambda>_. sound P sh) (sound P sh)"
  by (rule triple_of_opt) auto

lemma triple_startup_packet:
  "triple (sound P sh) (read_startup_packet limit) (\<lambda>pb s. rented_ok sh pb \<and> sound P sh s) (\<lambda>_. sound P sh) (sound P sh)"
  unfolding read_startup_packet_def
proof (rule triple_bnd[OF keeps_read_message_length[unfolded keeps_def]])
  fix len
  show "triple (sound P sh) (if limit < len + 4 then throw (connection_error FirstMessageTooBig)
      else bnd (read_message_body len) (of_opt (connection_error EmptyMessageBody)))
      (\<lambda>pb s. rented_ok sh pb \<and> sound P sh s) (\<lambda>_. sound P sh) (sound P sh)"
    by (rule triple_if, rule triple_throw, simp, rule triple_bnd[OF triple_message_body triple_of_opt_body])
qed

subsection \<open>Writing\<close>

lemma keeps_write_message [conn_rules]:
  assumes "quiet P" and "tag \<noteq> 0x45"
  shows "keeps P sh (write_message tag body)"
proof (rule keepsI)
  fix s r s'
  assume s: "sound P sh s" and run: "write_message tag body s = (r, s')"
  have "P (cn_sent s @ [(cn_transport s, frame tag body)], cn_slots s, cn_registry s, cn_guard s, cn_id s, cn_writes_left s = None)"
    using s assms by (simp add: quiet_def sound_def core_def frame_def)
  then show "r \<noteq> Panic \<and> sound P sh s'"
    using s run by (auto simp: write_message_def c_write_def sound_def conn_pool.holds_def core_def
        split: if_splits option.splits nat.splits)
qed

lemma keeps_write_byte [conn_rules]:
  assumes "quiet P" and "b \<noteq> 0x45"
  shows "keeps P sh (c_write [b])"
proof (rule keepsI)
  fix s r s'
  assume s: "sound P sh s" and run: "c_write [b] s = (r, s')"
  have "P (cn_sent s @ [(cn_transport s, [b])], cn_slots s, cn_registry s, cn_guard s, cn_id s, cn_writes_left s = None)"
    using s assms by (simp add: quiet_def sound_def core_def)
  then show "r \<noteq> Panic \<and> sound P sh s'"
    using s run by (auto simp: c_write_def sound_def conn_pool.holds_def core_def
        split: if_splits option.splits nat.splits)
qed

lemma keeps_send_auth_message [conn_rules]: "quiet P \<Longrightarrow> keeps P sh (send_auth_message code data)"
  unfolding send_auth_message_def by (rule keeps_write_message) simp_all

subsection \<open>Authentication\<close>

lemma keeps_on_reader:
  assumes "fst (m r) \<noteq> Panic"
  shows "keeps P sh (on_reader m r)"
  by (rule keepsI) (use assms in \<open>auto simp: on_reader_def split: outcome.splits prod.splits\<close>)

lemma triple_reader:
  assumes "reader_ok r" and "triple (reader_of (buf r)) m (\<lambda>_. reader_of (buf r)) (\<lambda>_ _. True) (\<lambda>_. False)"
  shows "triple (sound P sh) (on_reader m r) (\<lambda>x s. reader_ok (snd x) \<and> sound P sh s) (\<lambda>_. sound P sh) (sound P sh)"
  by (rule triple_on_reader[where R = "\<lambda>_. reader_ok" and F = "\<lambda>_. True"])
     (rule triple_weaken[OF assms(2)], use assms(1) in \<open>auto simp: reader_of_def\<close>)

lemma triple_read_string_conn:
  "triple (\<lambda>s. reader_ok r \<and> sound P sh s) (on_reader read_string r) (\<lambda>x s. reader_ok (snd x) \<and> sound P sh s) (\<lambda>_. sound P sh) (sound P sh)"
  by (cases "reader_ok r")
     (use triple_reader[OF _ triple_weaken[OF read_string_total[where W = "\<lambda>_. False"]]] in \<open>auto simp: triple_def[of "\<lambda>_. False"]\<close>)

lemma triple_read_u32_conn:
  "triple (\<lambda>s. reader_ok r \<and> sound P sh s) (on_reader read_u32 r) (\<lambda>x s. reader_ok (snd x) \<and> sound P sh s) (\<lambda>_. sound P sh) (sound P sh)"
  by (cases "reader_ok r")
     (use triple_reader[OF _ triple_weaken[OF read_u32_total[where W = "\<lambda>_. False"]]] in \<open>auto simp: triple_def[of "\<lambda>_. False"]\<close>)

lemma triple_read_fixed_conn:
  "triple (\<lambda>s. reader_ok r \<and> sound P sh s) (on_reader (read_string_fixed_size sz) r)
     (\<lambda>x s. reader_ok (snd x) \<and> sound P sh s) (\<lambda>_. sound P sh) (sound P sh)"
  by (cases "reader_ok r")
     (use triple_reader[OF _ triple_weaken[OF read_string_fixed_size_total[where W = "\<lambda>_. False"]]] in \<open>auto simp: triple_def[of "\<lambda>_. False"]\<close>)

text \<open>A rule for the pattern \<open>let (x, r) = read(r)?\<close> with the reader kept inside its body.\<close>

lemma triple_read_then:
  assumes "triple (\<lambda>s. reader_ok r \<and> sound P sh s) m (\<lambda>x s. reader_ok (snd x) \<and> sound P sh s) (\<lambda>_. sound P sh) (sound P sh)"
    and "\<And>x r'. triple (\<lambda>s. reader_ok r' \<and> sound P sh s) (f (x, r')) (\<lambda>_. sound P sh) (\<lambda>_. sound P sh) (sound P sh)"
  shows "triple (\<lambda>s. reader_ok r \<and> sound P sh s) (bnd (map_err g m) f) (\<lambda>_. sound P sh) (\<lambda>_. sound P sh) (sound P sh)"
proof (rule triple_bnd)
  show "triple (\<lambda>s. reader_ok r \<and> sound P sh s) (map_err g m) (\<lambda>x s. reader_ok (snd x) \<and> sound P sh s) (\<lambda>_. sound P sh) (sound P sh)"
    by (rule triple_map_err) (rule assms(1))
  show "triple (\<lambda>s. reader_ok (snd x) \<and> sound P sh s) (f x) (\<lambda>_. sound P sh) (\<lambda>_. sound P sh) (sound P sh)" for x
    using assms(2)[of "snd x" "fst x"] by simp
qed

lemma keeps_from_triple:
  "reader_ok r \<Longrightarrow> triple (\<lambda>s. reader_ok r \<and> sound P sh s) m (\<lambda>_. sound P sh) (\<lambda>_. sound P sh) (sound P sh) \<Longrightarrow> keeps P sh m"
  unfolding keeps_def by (erule triple_pre) simp

lemma triple_from_keeps:
  "keeps P sh m \<Longrightarrow> triple (\<lambda>s. Q \<and> sound P sh s) m (\<lambda>_. sound P sh) (\<lambda>_. sound P sh) (sound P sh)"
  unfolding keeps_def by (erule triple_pre) simp

lemma keeps_parse_sasl_initial [conn_rules]: "keeps P sh (parse_sasl_initial mechanics body)"
  unfolding parse_sasl_initial_def
  by (rule keeps_from_triple[of "reader_new body"], simp,
      rule triple_read_then[OF triple_read_string_conn], simp only: prod.case,
      rule triple_if, rule triple_from_keeps[OF keeps_throw],
      rule triple_read_then[OF triple_read_u32_conn], simp only: prod.case,
      rule triple_if, rule triple_from_keeps[OF keeps_throw],
      rule triple_read_then[OF triple_read_fixed_conn], simp only: prod.case,
      rule triple_from_keeps[OF keeps_ret])

lemma triple_sasl_response:
  "triple (sound P sh) read_sasl_response (\<lambda>pb s. rented_ok sh pb \<and> sound P sh s) (\<lambda>_. sound P sh) (sound P sh)"
  unfolding read_sasl_response_def
  by (rule triple_bnd[OF keeps_map_err[OF keeps_read_exact, unfolded keeps_def]],
      rule triple_if, rule triple_throw, simp,
      rule triple_bnd[OF keeps_map_err[OF keeps_read_message_length, unfolded keeps_def]],
      rule triple_if, rule triple_throw, simp,
      rule triple_bnd, rule triple_map_err, rule triple_message_body, rule triple_of_opt_body)

lemma keeps_read_sasl_initial_response [conn_rules]: "keeps P sh (read_sasl_initial_response mechanics)"
  unfolding read_sasl_initial_response_def
  by (rule keeps_scope[OF triple_sasl_response keeps_parse_sasl_initial])

lemma keeps_read_sasl_final_response [conn_rules]: "keeps P sh read_sasl_final_response"
  unfolding read_sasl_final_response_def
  by (rule keeps_scope[OF triple_sasl_response keeps_of_opt])

lemma keeps_on_scram [conn_rules]: "fst (m a) \<noteq> Panic \<Longrightarrow> keeps P sh (on_scram m a)"
  by (rule keepsI) (auto simp: on_scram_def split: outcome.splits prod.splits)

lemma keeps_on_provider [conn_rules]:
  "(\<And>p. fst (m p) \<noteq> Panic) \<Longrightarrow> keeps P sh (on_provider m)"
  by (rule keepsI)
     (auto simp: on_provider_def sound_def conn_pool.holds_def core_def split: prod.splits, metis fst_conv)

text \<open>What the session expects of the libraries it is given: they do not panic.\<close>

definition env_ok :: "('p, 'c) env \<Rightarrow> bool" where
  "env_ok E \<longleftrightarrow> (\<forall>u p. fst (e_lookup E u p) \<noteq> Panic) \<and>
     (\<forall>tls segments eof. e_tls E = Some tls \<longrightarrow> ft_accept tls segments eof \<noteq> Panic)"

lemma keeps_find_verifier [conn_rules]: "env_ok E \<Longrightarrow> keeps P sh (find_verifier E user)"
  unfolding find_verifier_def by (intro conn_rules) (simp add: env_ok_def)

lemma keeps_next_nonce [conn_rules]: "keeps P sh (next_nonce E)"
  unfolding next_nonce_def by (intro conn_rules keeps_modify) (simp add: core_def)

lemma keeps_send_auth_sasl [conn_rules]: "quiet P \<Longrightarrow> keeps P sh (send_auth_sasl ms)"
  unfolding send_auth_sasl_def by (intro conn_rules)

lemma keeps_handle_scram_auth [conn_rules]:
  assumes "env_ok E" and "quiet P"
  shows "keeps P sh (handle_scram_auth E)"
  unfolding handle_scram_auth_def Let_def
  by (intro conn_rules assms)
     (use handle_client_first_total handle_client_final_total in auto)

subsection \<open>The error response\<close>

text \<open>The core after one more \<open>ErrorResponse\<close>, and the core after a session was registered.\<close>

definition after_error :: "(core_state \<Rightarrow> bool) \<Rightarrow> core_state \<Rightarrow> bool" where
  "after_error P c \<longleftrightarrow> (\<exists>sent t body rest. c = (sent @ [(t, 0x45 # body)], rest) \<and> P (sent, rest))"

definition registered :: "(core_state \<Rightarrow> bool) \<Rightarrow> core_state \<Rightarrow> bool" where
  "registered P c \<longleftrightarrow> (case c of (sent, slots, reg', gd, conn_id, takes) \<Rightarrow>
     (\<exists>reg g b key. P (sent, slots, reg, g, conn_id, takes) \<and> register reg b conn_id key = Some reg' \<and> gd = Some (conn_id, key)))"

definition opened :: "(core_state \<Rightarrow> bool) \<Rightarrow> core_state \<Rightarrow> bool" where
  "opened P c \<longleftrightarrow> P c \<or> registered P c"

lemma quiet_registered: "quiet P \<Longrightarrow> quiet (registered P)"
  unfolding quiet_def registered_def by (clarsimp split: prod.splits) metis

lemma quiet_opened: "quiet P \<Longrightarrow> quiet (opened P)"
  using quiet_registered[of P] by (auto simp: opened_def quiet_def)

lemma triple_send_error:
  "triple (sound P sh) (send_error_message code message) (\<lambda>_. sound (after_error P) sh) (\<lambda>_. sound P sh) (sound P sh)"
proof (rule tripleI)
  fix s and r :: "(unit, internal_error) outcome" and s'
  assume s: "sound P sh s" and run: "send_error_message code message s = (r, s')"
  have "after_error P (cn_sent s @ [(cn_transport s, frame 0x45 (prepare_error_buf ''FATAL'' code message))],
      cn_slots s, cn_registry s, cn_guard s, cn_id s, cn_writes_left s = None)"
    using s by (auto simp: after_error_def sound_def core_def frame_def)
  then show "case r of Ok x \<Rightarrow> sound (after_error P) sh s' | Err e \<Rightarrow> sound P sh s' | Panic \<Rightarrow> False | Pending \<Rightarrow> sound P sh s'"
    using s run by (auto simp: send_error_message_def write_message_def c_write_def sound_def conn_pool.holds_def core_def
        split: if_splits option.splits nat.splits)
qed

lemma triple_handle_authentication:
  assumes "env_ok E" and "quiet P"
  shows "triple (sound P sh) (handle_authentication E)
    (\<lambda>key. if key = None then (\<lambda>s. sound P sh s \<or> sound (after_error P) sh s) else sound P sh) (\<lambda>_. sound P sh) (sound P sh)"
proof (rule tripleI)
  fix s r s'
  assume s: "sound P sh s" and run: "handle_authentication E s = (r, s')"
  obtain x t where auth: "handle_scram_auth E s = (x, t)" by fastforce
  note t = keepsD[OF keeps_handle_scram_auth[OF assms] s auth]
  show "case r of Ok key \<Rightarrow> (if key = None then (\<lambda>s. sound P sh s \<or> sound (after_error P) sh s) else sound P sh) s'
      | Err e \<Rightarrow> sound P sh s' | Panic \<Rightarrow> False | Pending \<Rightarrow> sound P sh s'"
  proof (cases "\<exists>e. x = Err (Rejected e)")
    case True
    then obtain e where e: "x = Err (Rejected e)" by blast
    have "andthen (map_err Internal (send_protocol_error e)) (ret None) t = (r, s')"
      using run auth e by (simp add: handle_authentication_def)
    moreover have "triple (sound P sh) (andthen (map_err Internal (send_protocol_error e)) (ret None))
        (\<lambda>key s. key = None \<and> sound (after_error P) sh s) (\<lambda>_. sound P sh) (sound P sh)"
      unfolding send_protocol_error_def
      by (rule triple_bnd, rule triple_map_err, rule triple_send_error, rule triple_ret, simp)
    ultimately show ?thesis using t tripleD[of "sound P sh" _ _ _ _ t r s'] by (cases r) fastforce+
  next
    case False
    then show ?thesis
      using run auth t by (cases x) (auto simp: handle_authentication_def split: auth_failure.splits)
  qed
qed

subsection \<open>The startup handlers\<close>

lemma keeps_promote_to_tls [conn_rules]: "env_ok E \<Longrightarrow> keeps P sh (promote_to_tls E)"
  by (rule keepsI)
     (auto simp: promote_to_tls_def env_ok_def sound_def conn_pool.holds_def core_def Let_def
      split: if_splits option.splits outcome.splits prod.splits)

lemma keeps_handle_ssl_request [conn_rules]:
  assumes "env_ok E" and "quiet P"
  shows "keeps P sh (handle_ssl_request E)"
  unfolding handle_ssl_request_def
  by (intro conn_rules keeps_modify assms) (simp_all add: core_def)

lemma keeps_handle_gssnc_request [conn_rules]: "quiet P \<Longrightarrow> keeps P sh handle_gssnc_request"
  unfolding handle_gssnc_request_def
  by (intro conn_rules keeps_modify) (simp_all add: core_def)

lemma keeps_cancel_forward: "keeps P sh (ignore_error (on_cancel_log (send_cancel_request N b key)))"
  by (rule keepsI)
     (auto simp: ignore_error_def on_cancel_log_def send_cancel_request_def sound_def conn_pool.holds_def core_def
      Let_def link_write_def split: if_splits option.splits nat.splits outcome.splits prod.splits sum.splits link_fault.splits)

lemma triple_read_then':
  assumes "triple (\<lambda>s. reader_ok r \<and> sound P sh s) m (\<lambda>x s. reader_ok (snd x) \<and> sound P sh s) (\<lambda>_. sound P sh) (sound P sh)"
    and "\<And>x r'. triple (\<lambda>s. reader_ok r' \<and> sound P sh s) (f (x, r')) (\<lambda>_. sound P sh) (\<lambda>_. sound P sh) (sound P sh)"
  shows "triple (\<lambda>s. reader_ok r \<and> sound P sh s) (bnd m f) (\<lambda>_. sound P sh) (\<lambda>_. sound P sh) (sound P sh)"
  using triple_read_then[OF assms, of id] by simp

lemma keeps_handle_cancel_request:
  assumes "reader_ok r"
  shows "keeps P sh (handle_cancel_request E r)"
proof (rule keeps_from_triple[OF assms])
  have tail: "keeps P sh (bnd (gets (\<lambda>s. lookup_by_key (cn_registry s) k)) (\<lambda>found.
        case found of None \<Rightarrow> ret () | Some b \<Rightarrow>
          (case be_backend_key b of None \<Rightarrow> ret ()
           | Some key \<Rightarrow> ignore_error (on_cancel_log (send_cancel_request (e_net E) b key)))))" for k
    by (intro conn_rules keeps_cancel_forward)
  show "triple (\<lambda>s. reader_ok r \<and> sound P sh s) (handle_cancel_request E r) (\<lambda>_. sound P sh) (\<lambda>_. sound P sh) (sound P sh)"
    unfolding handle_cancel_request_def
    by (rule triple_if, rule triple_from_keeps[OF keeps_throw],
        rule triple_read_then'[OF triple_read_u32_conn], simp only: prod.case,
        rule triple_read_then'[OF triple_read_u32_conn], simp only: prod.case,
        rule triple_from_keeps[OF tail])
qed

lemma read_string_outcome:
  assumes "reader_ok r"
  shows "fst (read_string r) \<noteq> Panic \<and> (\<forall>m r'. read_string r = (Ok m, r') \<longrightarrow> reader_ok r')"
  using assms by (cases rule: read_string_cases) (use assms in \<open>auto simp: reader_ok_def dest: unread_nth(1)\<close>)

lemma read_params_no_panic: "reader_ok r \<Longrightarrow> fst (read_params r ps) \<noteq> Panic"
proof (induction r ps rule: read_params.induct)
  case (1 r ps)
  show ?case
  proof (cases "remaining r = 0")
    case False
    obtain x r1 where x: "read_string r = (x, r1)" by fastforce
    then have r1: "x \<noteq> Panic" "\<And>m. x = Ok m \<Longrightarrow> reader_ok r1"
      using read_string_outcome[OF 1(2)] by auto
    show ?thesis
    proof (cases "\<exists>key. x = Ok key \<and> key \<noteq> []")
      case True
      then obtain key where key: "x = Ok key" "key \<noteq> []" by blast
      obtain y r2 where y: "read_string r1 = (y, r2)" by fastforce
      then have r2: "y \<noteq> Panic" "\<And>m. y = Ok m \<Longrightarrow> reader_ok r2"
        using read_string_outcome[OF r1(2)[OF key(1)]] by auto
      show ?thesis
        using 1(1)[OF False x[symmetric] key(1) key(2) y[symmetric]] False x key y r2
        by (cases y) (auto simp: read_params.simps[of r])
    next
      case none: False
      then show ?thesis using False x r1 by (cases x) (auto simp: read_params.simps[of r])
    qed
  qed (simp add: read_params.simps[of r])
qed

lemma keeps_on_params: "(\<And>ps. fst (m ps) \<noteq> Panic) \<Longrightarrow> keeps P sh (on_params m)"
  by (rule keepsI)
     (auto simp: on_params_def sound_def conn_pool.holds_def core_def split: prod.splits, metis fst_conv)

lemma keeps_set_identity [conn_rules]: "keeps P sh set_identity"
  unfolding set_identity_def by (intro conn_rules keeps_modify) (simp_all add: core_def)

lemma keeps_parse_startup_message [conn_rules]:
  assumes "reader_ok r"
  shows "keeps P sh (parse_startup_message version r)"
  unfolding parse_startup_message_def
  by (intro conn_rules keeps_modify keeps_on_params read_params_no_panic assms) (simp_all add: core_def)

lemma keeps_on_backend: "keeps P sh (on_pool (backend_new C N rnd cfg))"
proof (rule keepsI)
  fix s r s'
  assume s: "sound P sh s" and run: "on_pool (backend_new C N rnd cfg) s = (r, s')"
  obtain x p where new: "backend_new C N rnd cfg (cn_pool s) = (x, p)" by fastforce
  have "pool_inv (cn_pool s)" "pool_shape (cn_pool s) = sh"
    using s by (simp_all add: sound_def conn_pool.holds_def)
  then have "x \<noteq> Panic" "pool_inv p" "pool_shape p = sh"
    using backend_connect_total[of "cn_pool s" C N rnd cfg] new by simp_all
  moreover have "r = x" "s' = put_cn_pool p s" using run new by (simp_all add: on_pool_def)
  moreover have "P (core s)" using s by (simp add: sound_def)
  ultimately show "r \<noteq> Panic \<and> sound P sh s'" by (simp add: sound_put)
qed

lemma keeps_open_backend [conn_rules]:
  assumes "env_ok E"
  shows "keeps P sh (open_backend E key)"
proof -
  have p: "fst (e_lookup E u p) \<noteq> Panic" for u p using assms by (simp add: env_ok_def)
  show ?thesis
    unfolding open_backend_def by (intro conn_rules keeps_on_backend p)
qed

subsection \<open>Publishing the session\<close>

lemma register_session_result:
  "\<exists>x s'. register_session n E b s = (Ok x :: (_, 'e) outcome, s') \<and> cn_pool s' = cn_pool s \<and>
     (case x of None \<Rightarrow> core s' = core s
      | Some key \<Rightarrow> ssecret key \<noteq> 0 \<and> (\<exists>registry. register (cn_registry s) b (cn_id s) key = Some registry \<and>
          core s' = core (s\<lparr>cn_registry := registry\<rparr>)))"
proof (induction n arbitrary: s)
  case 0
  then show ?case by (simp add: prog_simps)
next
  case (Suc n)
  obtain key i where k: "session_key_new (e_key_rng E) (cn_key_pos s) = (key, i)" by fastforce
  have nz: "ssecret key \<noteq> 0" using k key_draws_secret by (simp add: session_key_new_def)
  show ?case
  proof (cases "register (cn_registry s) b (cn_id s) key")
    case None
    let ?s = "s\<lparr>cn_key_pos := i\<rparr>"
    have same: "cn_pool ?s = cn_pool s" "cn_registry ?s = cn_registry s" "cn_id ?s = cn_id s" "core ?s = core s"
      "core (?s\<lparr>cn_registry := g\<rparr>) = core (s\<lparr>cn_registry := g\<rparr>)" for g
      by (simp_all add: core_def)
    have "register_session (Suc n) E b s = (register_session n E b ?s :: (_, 'e) outcome \<times> _)"
      using k None by (simp add: bnd_def prog_simps)
    then show ?thesis using Suc.IH[of ?s] unfolding same by (simp only:)
  next
    case (Some reg)
    then show ?thesis using k nz by (simp add: bnd_def prog_simps core_def)
  qed
qed

lemma keeps_send_notifications: "quiet P \<Longrightarrow> keeps P sh (send_notifications ns)"
proof (induction ns)
  case Nil
  then show ?case by (simp add: keeps_ret)
next
  case (Cons n ns)
  then show ?case by (cases n) (auto intro!: conn_rules)
qed

lemma keeps_send_startup_notifications: "quiet P \<Longrightarrow> keeps P sh send_startup_notifications"
  unfolding send_startup_notifications_def by (intro conn_rules keeps_send_notifications)

lemma keeps_send_key_secret: "quiet P \<Longrightarrow> keeps P sh send_key_secret"
  unfolding send_key_secret_def by (intro conn_rules) simp_all

lemma keeps_send_ready_signal: "quiet P \<Longrightarrow> keeps P sh send_ready_signal"
  unfolding send_ready_signal_def by (intro conn_rules) simp_all

lemma sound_opened: "sound (opened P) sh s \<longleftrightarrow> sound P sh s \<or> sound (registered P) sh s"
  by (auto simp: sound_def opened_def)

lemma triple_publish_session:
  assumes "quiet P"
  shows "triple (sound P sh) (publish_session E b)
    (\<lambda>out s. out = Ready \<and> sound (registered P) sh s) (\<lambda>_. sound (opened P) sh) (sound (opened P) sh)"
proof (rule tripleI)
  fix s r s'
  assume s: "sound P sh s" and run: "publish_session E b s = (r, s')"
  obtain x t where t: "register_session 64 E b s = (Ok x :: (_, proxy_error) outcome, t)" "cn_pool t = cn_pool s"
     "case x of None \<Rightarrow> core t = core s
      | Some key \<Rightarrow> ssecret key \<noteq> 0 \<and> (\<exists>registry. register (cn_registry s) b (cn_id s) key = Some registry \<and>
          core t = core (s\<lparr>cn_registry := registry\<rparr>))"
    using register_session_result[of 64 E b s] by blast
  show "case r of Ok out \<Rightarrow> out = Ready \<and> sound (registered P) sh s' | Err e \<Rightarrow> sound (opened P) sh s'
      | Panic \<Rightarrow> False | Pending \<Rightarrow> sound (opened P) sh s'"
  proof (cases x)
    case None
    then have "sound P sh t" using t s by (simp add: sound_def conn_pool.holds_def)
    moreover have "r \<noteq> Panic \<and> (\<forall>out. r \<noteq> Ok out) \<and> s' = t"
      using run t(1)[unfolded None] by (auto simp: publish_session_def bnd_def prog_simps simp del: register_session.simps)
    ultimately show ?thesis by (cases r) (auto simp: sound_opened)
  next
    case (Some key)
    let ?t = "t\<lparr>cn_verified := be_verified b, cn_backend := Some b, cn_session_key := Some key, cn_guard := Some (cn_id t, key)\<rparr>"
    obtain registry where reg: "register (cn_registry s) b (cn_id s) key = Some registry"
        "core t = core (s\<lparr>cn_registry := registry\<rparr>)"
      using t(3) Some by auto
    have "sound (registered P) sh ?t"
      using s t(2) reg by (auto simp: sound_def conn_pool.holds_def registered_def core_def)
    moreover have "andthen send_startup_notifications (andthen send_key_secret (andthen send_ready_signal (ret Ready))) ?t = (r, s')"
      using run t(1) Some by (simp add: publish_session_def bnd_def prog_simps)
    moreover have "triple (sound (registered P) sh)
        (andthen send_startup_notifications (andthen send_key_secret (andthen send_ready_signal (ret Ready))))
        (\<lambda>out s. out = Ready \<and> sound (registered P) sh s) (\<lambda>_. sound (registered P) sh) (sound (registered P) sh)"
      using keeps_send_startup_notifications[OF quiet_registered[OF assms]] keeps_send_key_secret[OF quiet_registered[OF assms]]
        keeps_send_ready_signal[OF quiet_registered[OF assms]]
      unfolding keeps_def by (intro triple_bnd triple_ret) auto
    ultimately show ?thesis
      using tripleD[of "sound (registered P) sh" _ _ _ _ ?t r s'] by (cases r) (auto simp: sound_opened)
  qed
qed

text \<open>How a handler may end: with the session as it was, registered, or told of its error.\<close>

definition finished :: "(core_state \<Rightarrow> bool) \<Rightarrow> core_state \<Rightarrow> bool" where
  "finished P c \<longleftrightarrow> opened P c \<or> after_error (opened P) c"

lemma sound_finished:
  "sound P sh s \<Longrightarrow> sound (finished P) sh s"
  "sound (registered P) sh s \<Longrightarrow> sound (finished P) sh s"
  "sound (opened P) sh s \<Longrightarrow> sound (finished P) sh s"
  "sound (after_error P) sh s \<Longrightarrow> sound (finished P) sh s"
  "sound (after_error (opened P)) sh s \<Longrightarrow> sound (finished P) sh s"
  by (auto simp: sound_def finished_def opened_def after_error_def)

lemma finished_opened: "finished P c \<longleftrightarrow> opened P c \<or> after_error (opened P) c"
  by (simp add: finished_def)

text \<open>What the core is after a handler, by what the handler answered.\<close>

definition settled :: "(core_state \<Rightarrow> bool) \<Rightarrow> startup_outcome \<Rightarrow> core_state \<Rightarrow> bool" where
  "settled P out = (case out of Continued \<Rightarrow> P | Ready \<Rightarrow> registered P | Close \<Rightarrow> finished P)"

definition settles :: "(core_state \<Rightarrow> bool) \<Rightarrow> (nat \<times> nat) list \<Rightarrow> ('p, startup_outcome, 'e) cprog \<Rightarrow> bool" where
  "settles P sh m \<longleftrightarrow> triple (sound P sh) m (\<lambda>out. sound (settled P out) sh) (\<lambda>_. sound (opened P) sh) (sound (opened P) sh)"

lemma settles_after:
  assumes "triple (sound P sh) m (\<lambda>x s. good x \<and> sound P sh s) (\<lambda>_. sound P sh) (sound P sh)"
    and "\<And>x. good x \<Longrightarrow> settles P sh (f x)"
  shows "settles P sh (bnd m f)"
  unfolding settles_def
proof (rule triple_bnd[where R = "\<lambda>x s. good x \<and> sound P sh s"])
  show "triple (sound P sh) m (\<lambda>x s. good x \<and> sound P sh s) (\<lambda>_. sound (opened P) sh) (sound (opened P) sh)"
    by (rule triple_weaken[OF assms(1)]) (auto simp: sound_opened)
  show "triple (\<lambda>s. good x \<and> sound P sh s) (f x) (\<lambda>out. sound (settled P out) sh) (\<lambda>_. sound (opened P) sh) (sound (opened P) sh)" for x
    using assms(2)[of x, unfolded settles_def] by (cases "good x") (auto simp: triple_def)
qed

lemma settles_keeps: "keeps P sh m \<Longrightarrow> (\<And>x. settles P sh (f x)) \<Longrightarrow> settles P sh (bnd m f)"
  by (rule settles_after[where good = "\<lambda>_. True"]) (simp_all add: keeps_def)

lemma settles_ret: "out \<noteq> Ready \<Longrightarrow> settles P sh (ret out)"
  unfolding settles_def by (rule triple_ret) (cases out; auto simp: settled_def sound_finished)

lemma settles_throw: "settles P sh (throw e)"
  unfolding settles_def by (rule triple_throw) (simp add: sound_opened)

lemma settles_if: "(b \<Longrightarrow> settles P sh m) \<Longrightarrow> (\<not> b \<Longrightarrow> settles P sh m') \<Longrightarrow> settles P sh (if b then m else m')"
  by simp

lemma settles_handle_startup_packet:
  assumes "env_ok E" and "quiet P" and "reader_ok r"
  shows "settles P sh (handle_startup_packet E version r)"
  unfolding handle_startup_packet_def
proof (rule settles_keeps[OF keeps_parse_startup_message[OF assms(3)]])
  let ?R = "\<lambda>key. if key = None then (\<lambda>s. sound P sh s \<or> sound (after_error P) sh s) else sound P sh"
  let ?f = "\<lambda>key. case key of None \<Rightarrow> ret Close | Some key \<Rightarrow> bnd (open_backend E key) (publish_session E)"
  have ready: "triple (sound P sh) (bnd (open_backend E k) (publish_session E))
      (\<lambda>out. sound (settled P out) sh) (\<lambda>_. sound (opened P) sh) (sound (opened P) sh)" for k
    by (rule triple_bnd[OF triple_weaken[OF keeps_open_backend[OF assms(1), unfolded keeps_def]]
          triple_weaken[OF triple_publish_session[OF assms(2)]]])
       (auto simp: sound_opened settled_def)
  have "triple (?R key) (?f key) (\<lambda>out. sound (settled P out) sh) (\<lambda>_. sound (opened P) sh) (sound (opened P) sh)" for key
    using ready by (cases key) (auto intro!: triple_ret simp: settled_def sound_finished)
  moreover have "triple (sound P sh) (handle_authentication E) ?R (\<lambda>_. sound (opened P) sh) (sound (opened P) sh)"
    by (rule triple_weaken[OF triple_handle_authentication[OF assms(1,2)]]) (auto simp: sound_opened)
  ultimately show "settles P sh (bnd (handle_authentication E) ?f)" for x
    unfolding settles_def by (rule triple_bnd[rotated])
qed

lemma settles_startup_dispatch:
  assumes "env_ok E" and "quiet P"
  shows "settles P sh (startup_dispatch E body)"
  unfolding startup_dispatch_def
proof (rule settles_after[where good = "\<lambda>x. reader_ok (snd x)"])
  show "triple (sound P sh) (on_reader read_u32 (reader_new body)) (\<lambda>x s. reader_ok (snd x) \<and> sound P sh s)
      (\<lambda>_. sound P sh) (sound P sh)"
    by (rule triple_pre[OF triple_read_u32_conn]) simp
next
  fix x :: "u32 \<times> message_reader" assume r: "reader_ok (snd x)"
  note handler = settles_keeps[OF _ settles_ret] settles_handle_startup_packet[OF assms r]
    keeps_handle_ssl_request[OF assms] keeps_handle_gssnc_request[OF assms(2)] keeps_handle_cancel_request[OF r]
  show "settles P sh (case x of (code, r) \<Rightarrow>
     if code = SSL_REQUEST_CODE then andthen (handle_ssl_request E) (ret Continued)
     else if code = GSSENC_REQUEST_CODE then andthen handle_gssnc_request (ret Continued)
     else if code = CANCEL_REQUEST_CODE then andthen (handle_cancel_request E r) (ret Close)
     else if code = PROTOCOL_VERSION_NUMBER then
       bnd (gets (\<lambda>s. cn_required_tls s \<and> \<not> cn_ssl_done s)) (\<lambda>refuse.
       if refuse then throw (connection_error TlsRequired)
       else handle_startup_packet E code r)
     else throw (protocol_error ''0A000'' (unsupported_protocol_message code)))"
    using r unfolding case_prod_beta
    by (intro settles_if settles_throw settles_keeps[OF keeps_gets] handler) simp_all
qed

lemma settles_handle_startup:
  assumes "env_ok E" and "quiet P"
  shows "settles P sh (handle_startup E)"
  unfolding handle_startup_def
proof (rule settles_after[OF triple_startup_packet])
  fix pb assume pb: "rented_ok sh pb"
  have body: "triple (sound P sh) (startup_dispatch E (body_of pb))
      (\<lambda>out s. settled P out (core s) \<and> conn_pool.holds sh s)
      (\<lambda>_ s. opened P (core s) \<and> conn_pool.holds sh s) (\<lambda>s. opened P (core s) \<and> conn_pool.holds sh s)"
    by (rule triple_weaken[OF settles_startup_dispatch[OF assms, unfolded settles_def]]) (auto simp: sound_def)
  show "settles P sh (drop_after cn_pool put_cn_pool pb (startup_dispatch E (body_of pb)))"
    unfolding settles_def
    by (rule triple_weaken[OF conn_pool.triple_drop_after[where Q = "\<lambda>out s. settled P out (core s)" and
          E = "\<lambda>_ s. opened P (core s)" and W = "\<lambda>s. opened P (core s)", OF pb body]])
       (auto simp: sound_def put_cn_pool_def core_def)
qed

end
