(* ===== verification/Conn_Safety.thy ===== *)
theory Conn_Safety
  imports Conn_Frame
begin

section \<open>The life of a session\<close>

text \<open>
  What holds of a whole session, from \<open>conn_new\<close> to the end of its task: the driver settles within its
  three rounds, and a finished task leaves the slot count, the session registry and the buffer pool as
  it found them. The one \<open>ErrorResponse\<close> a client may get is the last thing it is sent.
\<close>

subsection \<open>The driver\<close>

lemma drive_sound:
  fixes r :: "(startup_outcome, internal_error) outcome"
  assumes "env_ok E" and "quiet P" and "sound P sh s" and "drive n E s = (r, s')"
  shows "r \<noteq> Panic \<and> sound (if r = Pending then opened P else finished P) sh s'"
  using assms(3,4)
proof (induction n arbitrary: s)
  case (Suc n)
  obtain x t where x: "handle_startup E s = (x, t)" by fastforce
  have step: "case x of Ok out \<Rightarrow> sound (settled P out) sh t | Err e \<Rightarrow> sound (opened P) sh t | Panic \<Rightarrow> False
      | Pending \<Rightarrow> sound (opened P) sh t"
    using tripleD[OF settles_handle_startup[OF assms(1,2), unfolded settles_def] Suc.prems(1) x] .
  show ?case
  proof (cases x)
    case (Ok out)
    then show ?thesis
      using step x Suc.prems(2) Suc.IH[of t] by (cases out) (auto simp: settled_def sound_finished)
  next
    case (Err e)
    show ?thesis
    proof (cases e)
      case (ConnectionError c)
      have run: "andthen (send_error_message (client_code c) (client_message c)) (ret Close) t = (r, s')"
        using Suc.prems(2) x Err ConnectionError by simp
      have told: "triple (sound (opened P) sh) (andthen (send_error_message (client_code c) (client_message c)) (ret Close))
          (\<lambda>_. sound (finished P) sh) (\<lambda>_. sound (opened P) sh) (sound (opened P) sh)"
        by (rule triple_bnd[OF triple_send_error]) (rule triple_ret, simp add: sound_finished)
      show ?thesis
        using tripleD[OF told _ run] step Err by (cases r) (simp_all add: sound_finished)
    qed (use step x Err Suc.prems(2) in \<open>auto simp: sound_finished\<close>)
  qed (use step x Suc.prems(2) in \<open>auto simp: sound_finished\<close>)
qed (auto simp: sound_opened)

lemma send_error_pends:
  "send_error_message code message s = (Pending, s') \<Longrightarrow> cn_writes_left s \<noteq> None \<and> s' = s"
  by (auto simp: send_error_message_def write_message_def c_write_def split: if_splits option.splits nat.splits)

lemma startup_with_deadline_sound:
  assumes "env_ok E" and "quiet P" and "sound P sh s" and "startup_with_deadline E s = (r, s')"
  shows "r \<noteq> Panic \<and> (r = Pending \<longrightarrow> cn_writes_left s' \<noteq> None) \<and> sound (finished P) sh s'"
proof -
  obtain x t where x: "drive_startup_until_ready E s = (x, t)" by fastforce
  note d = drive_sound[OF assms(1-3) x[unfolded drive_startup_until_ready_def]]
  show ?thesis
  proof (cases "x = Pending")
    case True
    let ?m = "send_error_message (conn_error_code AuthTimeout) (conn_error_message AuthTimeout)"
    have run: "?m t = (r, s')" using assms(4) x True by (simp add: startup_with_deadline_def)
    have "case r of Ok x \<Rightarrow> sound (after_error (opened P)) sh s' | Err e \<Rightarrow> sound (opened P) sh s'
        | Panic \<Rightarrow> False | Pending \<Rightarrow> sound (opened P) sh s'"
      using tripleD[OF triple_send_error _ run] d True by simp
    then show ?thesis using send_error_pends[of _ _ t s'] run by (cases r) (auto simp: sound_finished)
  next
    case False
    then show ?thesis using d x assms(4) by (cases x) (auto simp: startup_with_deadline_def)
  qed
qed

subsection \<open>The task\<close>

lemma permit_round_trip:
  assumes "try_acquire slots = (Some u, slots')"
  shows "permit_drop slots' = slots"
proof -
  have less: "live slots < max_slots slots" and s': "slots' = slots\<lparr>live := live slots + 1\<rparr>"
    using assms by (auto simp: try_acquire_def split: if_splits)
  have "unat (max_slots slots) < 2 ^ LENGTH(32)" by (rule unsigned_less)
  then have "unat (live slots) + 1 < 2 ^ 32" using less by (simp add: word_less_nat_alt)
  then have "unat (live slots + 1) = unat (live slots) + 1" by (simp add: unat_word_ariths)
  then have "\<not> live slots + 1 < 1" by (simp add: word_less_nat_alt)
  then show ?thesis unfolding s' by (simp add: permit_drop_def saturating_sub_def)
qed

lemma guard_drop_register:
  assumes "register reg b conn_id key = Some reg'" and "conn_backend reg conn_id = None"
  shows "guard_drop reg' conn_id key = reg"
  using assms by (cases reg) (auto simp: register_def guard_drop_def Let_def fun_upd_idem split: if_splits)

text \<open>The core a session starts with, as far as it has not sent an \<open>ErrorResponse\<close>.\<close>

definition fresh :: "backend session_inner \<Rightarrow> slot_inner \<Rightarrow> i32 \<Rightarrow> bool \<Rightarrow> core_state \<Rightarrow> bool" where
  "fresh registry slots conn_id takes c \<longleftrightarrow>
     (case c of (sent, slots', registry', gd, conn_id', takes') \<Rightarrow>
        slots' = slots \<and> registry' = registry \<and> gd = None \<and> conn_id' = conn_id \<and> takes' = takes \<and>
        (\<forall>(t, bs) \<in> set sent. take 1 bs \<noteq> [0x45]))"

definition error_frames :: "(transport \<times> bytes) list \<Rightarrow> nat list" where
  "error_frames sent = filter (\<lambda>i. take 1 (snd (sent ! i)) = [0x45]) [0..<length sent]"

lemma quiet_fresh: "quiet (fresh registry slots conn_id takes)"
  by (auto simp: quiet_def fresh_def)

lemma error_frames_quiet: "(\<forall>(t, bs) \<in> set sent. take 1 bs \<noteq> [0x45]) \<Longrightarrow> error_frames sent = []"
  by (fastforce simp: error_frames_def filter_empty_conv dest: nth_mem)

lemma error_frames_last:
  assumes "\<forall>(t, bs) \<in> set sent. take 1 bs \<noteq> [0x45]"
  shows "error_frames (sent @ [(t, 0x45 # body)]) = [length sent]"
proof -
  have "filter (\<lambda>i. take 1 (snd ((sent @ [(t, 0x45 # body)]) ! i)) = [0x45]) [0..<length sent] = error_frames sent"
    unfolding error_frames_def by (rule filter_cong) (simp_all add: nth_append)
  then have "error_frames (sent @ [(t, 0x45 # body)]) = error_frames sent @ [length sent]"
    by (simp add: error_frames_def)
  then show ?thesis using error_frames_quiet[OF assms] by simp
qed

lemma fresh_conn_new:
  "fresh registry slots' conn_id (writes = None)
     (core (conn_new conn_id segments eof writes pool provider registry slots\<lparr>cn_slots := slots'\<rparr>))"
  by (simp add: fresh_def core_def conn_new_def)

lemma finished_fresh:
  assumes "finished (fresh registry slots conn_id takes) c"
  obtains sent registry' gd where "c = (sent, slots, registry', gd, conn_id, takes)"
    and "(registry', gd) = (registry, None) \<or>
         (\<exists>b key. register registry b conn_id key = Some registry' \<and> gd = Some (conn_id, key))"
    and "error_frames sent = [] \<or> sent \<noteq> [] \<and> error_frames sent = [length sent - 1]"
proof -
  obtain sent slots' registry' gd conn_id' takes' where c: "c = (sent, slots', registry', gd, conn_id', takes')"
    by (cases c)
  show thesis
  proof (cases "opened (fresh registry slots conn_id takes) c")
    case True
    then show thesis using that[of sent registry' gd] unfolding c
      by (auto simp: opened_def fresh_def registered_def error_frames_quiet) blast+
  next
    case False
    then obtain sent' t body where s: "sent = sent' @ [(t, 0x45 # body)]"
      and o: "opened (fresh registry slots conn_id takes) (sent', slots', registry', gd, conn_id', takes')"
      using assms unfolding c by (auto simp: finished_def after_error_def)
    have q: "\<forall>(t, bs) \<in> set sent'. take 1 bs \<noteq> [0x45]"
      using o by (auto simp: opened_def fresh_def registered_def)
    then show thesis using that[of sent registry' gd] o error_frames_last[OF q] unfolding c s
      by (auto simp: opened_def fresh_def registered_def)
  qed
qed

lemma conn_handle_core:
  assumes "env_ok E" and "pool_inv pool"
    and "conn_handle E (conn_new conn_id segments eof writes pool provider registry slots) = (r, s)"
  shows "r \<noteq> Panic \<and> (r = Pending \<longrightarrow> writes \<noteq> None) \<and> conn_pool.holds (pool_shape pool) s \<and>
    (\<exists>slots'. finished (fresh registry slots' conn_id (writes = None)) (core s) \<and>
      (if r = Pending then slots' = snd (try_acquire slots) else slots' = slots))"
proof -
  let ?init = "conn_new conn_id segments eof writes pool provider registry slots"
  let ?P = "\<lambda>slots. fresh registry slots conn_id (writes = None)"
  obtain u slots' where acq: "try_acquire slots = (u, slots')" by fastforce
  let ?s = "?init\<lparr>cn_slots := slots'\<rparr>"
  have start: "sound (?P slots') (pool_shape pool) ?s"
    using assms(2) unfolding sound_def conn_pool.holds_def by (simp add: fresh_conn_new) (simp add: conn_new_def)
  have s0: "cn_slots ?init = slots" by (simp add: conn_new_def)
  have takes: "finished (?P slots'') (core t) \<Longrightarrow> cn_writes_left t \<noteq> None \<Longrightarrow> writes \<noteq> None" for slots'' and t :: "'a conn"
    by (erule finished_fresh) (auto simp: core_def)
  show ?thesis
  proof (cases u)
    case None
    then have "slots' = slots" using acq by (auto simp: try_acquire_def split: if_splits)
    moreover have run: "send_error_message (conn_error_code TooManyRequest) (conn_error_message TooManyRequest) ?s = (r, s)"
      using assms(3) acq None s0 by (simp add: conn_handle_def)
    moreover note post = tripleD[OF triple_send_error start run]
    moreover have "cn_writes_left s \<noteq> None" if "r = Pending"
      using send_error_pends[of _ _ ?s s] run that by blast
    ultimately show ?thesis
      using takes[of slots s] post acq
      by (cases r) (auto simp: sound_def finished_def after_error_def opened_def)
  next
    case (Some v)
    obtain x t where run: "startup_with_deadline E ?s = (x, t)" by fastforce
    note fin = startup_with_deadline_sound[OF assms(1) quiet_fresh start run]
    have r: "r = x" and s: "s = (if x = Pending then t else t\<lparr>cn_slots := permit_drop (cn_slots t)\<rparr>)"
      using assms(3) acq Some s0 run by (auto simp: conn_handle_def split: outcome.splits)
    obtain sent reg gd where c: "core t = (sent, slots', reg, gd, conn_id, writes = None)"
      using fin finished_fresh unfolding sound_def by metis
    have "core (t\<lparr>cn_slots := slots\<rparr>) = (sent, slots, reg, gd, conn_id, writes = None)"
      using c by (simp add: core_def)
    moreover have "finished (?P slots) (sent, slots, reg, gd, conn_id, writes = None)"
      using fin c by (fastforce simp: sound_def finished_def opened_def after_error_def fresh_def registered_def)
    ultimately have home: "finished (?P slots) (core (t\<lparr>cn_slots := slots\<rparr>))" by simp
    have "permit_drop (cn_slots t) = slots" using permit_round_trip[OF acq[unfolded Some]] c by (simp add: core_def)
    then show ?thesis
      using fin home r s takes[of slots' t] acq
      by (cases "x = Pending") (auto simp: sound_def conn_pool.holds_def)
  qed
qed

lemma session_restores:
  assumes "env_ok E" and "pool_inv pool" and "conn_backend registry conn_id = None"
    and "run_session E (conn_new conn_id segments eof writes pool provider registry slots) = (r, s)"
  shows "r \<noteq> Panic \<and> (r = Pending \<longrightarrow> writes \<noteq> None) \<and>
    pool_inv (cn_pool s) \<and> pool_shape (cn_pool s) = pool_shape pool \<and>
    (r \<noteq> Pending \<longrightarrow> cn_slots s = slots \<and> cn_registry s = registry \<and> cn_guard s = None)"
proof -
  obtain x t where run: "conn_handle E (conn_new conn_id segments eof writes pool provider registry slots) = (x, t)"
    by fastforce
  note fin = conn_handle_core[OF assms(1,2) run]
  have r: "r = x" and s: "s = (if x = Pending then t else conn_drop t)"
    using assms(4) run by (auto simp: run_session_def split: outcome.splits)
  have "cn_slots (conn_drop t) = slots \<and> cn_registry (conn_drop t) = registry \<and> cn_guard (conn_drop t) = None"
    if "x \<noteq> Pending"
  proof -
    have "finished (fresh registry slots conn_id (writes = None)) (core t)" using fin that by auto
    then show ?thesis
      by (rule finished_fresh) (use assms(3) in \<open>auto simp: conn_drop_def core_def guard_drop_register\<close>)
  qed
  then show ?thesis
    using fin r s by (auto simp: conn_drop_def conn_pool.holds_def split: option.splits)
qed



end
