(* ===== verification/Conn_Phase.thy ===== *)
theory Conn_Phase
  imports Conn_Safety
begin

section \<open>How the startup phase proceeds\<close>

text \<open>
  The rounds of the driver, the handling of oversized messages, the switch to TLS, and what the
  answer \<open>Ready\<close> means. \<open>leaves f m\<close> says that \<open>m\<close> does not change the part \<open>f\<close> of the session;
  \<open>io_blind f\<close> that \<open>f\<close> does not look at the socket, the transcript or the buffer pool.
\<close>

named_theorems leaves_rules "operations that leave a part of the session alone"

definition leaves :: "('p conn \<Rightarrow> 'x) \<Rightarrow> ('p, 'a, 'e) cprog \<Rightarrow> bool" where
  "leaves f m \<longleftrightarrow> (\<forall>s. f (snd (m s)) = f s)"

definition io_blind :: "('p conn \<Rightarrow> 'x) \<Rightarrow> bool" where
  "io_blind f \<longleftrightarrow> (\<forall>s rbuf segments p sent left.
     f (s\<lparr>cn_rbuf := rbuf, cn_sock := segments\<rparr>) = f s \<and> f (s\<lparr>cn_pool := p\<rparr>) = f s \<and>
     f (s\<lparr>cn_sent := sent\<rparr>) = f s \<and> f (s\<lparr>cn_sent := sent, cn_writes_left := left\<rparr>) = f s)"

lemma leavesD: "leaves f m \<Longrightarrow> m s = (r, s') \<Longrightarrow> f s' = f s"
  unfolding leaves_def by (metis snd_conv)

lemma leavesI: "(\<And>s r s'. m s = (r, s') \<Longrightarrow> f s' = f s) \<Longrightarrow> leaves f m"
  unfolding leaves_def by (metis prod.collapse)

lemma leaves_bnd [leaves_rules]: "leaves f m \<Longrightarrow> (\<And>x. leaves f (g x)) \<Longrightarrow> leaves f (bnd m g)"
  unfolding leaves_def by (auto simp: bnd_def split: prod.splits outcome.splits) (metis snd_conv)+

lemma leaves_basic [leaves_rules]:
  "leaves f (ret x)" "leaves f (throw e)" "leaves f (gets h)" "leaves f (of_opt e v)" "leaves f (of_sum w)"
  "leaves f (guard b e)" "leaves f panic" "leaves f hang"
  by (auto simp: leaves_def prog_simps split: option.splits sum.splits)

lemma leaves_modify: "(\<And>s. f (h s) = f s) \<Longrightarrow> leaves f (modify h)"
  by (simp add: leaves_def prog_simps)

lemma leaves_map_err [leaves_rules]: "leaves f m \<Longrightarrow> leaves f (map_err h m)"
  unfolding leaves_def by (auto simp: map_err_def split: prod.splits outcome.splits) (metis snd_conv)+

lemma leaves_if [leaves_rules]: "(b \<Longrightarrow> leaves f m) \<Longrightarrow> (\<not> b \<Longrightarrow> leaves f m') \<Longrightarrow> leaves f (if b then m else m')"
  by simp

lemma leaves_option [leaves_rules]:
  "(x = None \<Longrightarrow> leaves f m) \<Longrightarrow> (\<And>v. x = Some v \<Longrightarrow> leaves f (g v)) \<Longrightarrow>
   leaves f (case x of None \<Rightarrow> m | Some v \<Rightarrow> g v)"
  by (cases x) simp_all

lemma leaves_pair [leaves_rules]: "(\<And>a b. leaves f (g a b)) \<Longrightarrow> leaves f (case x of (a, b) \<Rightarrow> g a b)"
  by (cases x) simp

lemma leaves_on_reader [leaves_rules]: "leaves f (on_reader m r)"
  by (rule leavesI) (auto simp: on_reader_def split: prod.splits outcome.splits)

lemma leaves_on_scram [leaves_rules]: "leaves f (on_scram m a)"
  by (rule leavesI) (auto simp: on_scram_def split: prod.splits outcome.splits)

lemma leaves_read_exact [leaves_rules]: "io_blind f \<Longrightarrow> leaves f (c_read_exact n)"
  by (auto simp: leaves_def io_blind_def c_read_exact_def split: prod.splits option.splits)

lemma leaves_write [leaves_rules]: "io_blind f \<Longrightarrow> leaves f (c_write bs)"
  by (auto simp: leaves_def io_blind_def c_write_def split: option.splits nat.splits)

lemma leaves_drop_after [leaves_rules]:
  "io_blind f \<Longrightarrow> leaves f m \<Longrightarrow> leaves f (drop_after cn_pool put_cn_pool pb m)"
  unfolding leaves_def
  by (auto simp: drop_after_def io_blind_def put_cn_pool_def split: prod.splits outcome.splits) (metis snd_conv)+

lemma leaves_rent [leaves_rules]: "io_blind f \<Longrightarrow> leaves f (rent_buffer cn_pool put_cn_pool n)"
  by (auto simp: leaves_def rent_buffer_def io_blind_def put_cn_pool_def split: prod.splits outcome.splits)

lemma leaves_read_into [leaves_rules]:
  fixes f :: "'p conn \<Rightarrow> 'x" and reader :: "nat \<Rightarrow> ('p, bytes, 'e) cprog"
  assumes "io_blind f" and "\<And>n. leaves f (reader n)"
  shows "leaves f (read_into cn_pool put_cn_pool reader pb)"
proof (rule leavesI)
  fix s r s' assume run: "read_into cn_pool put_cn_pool reader pb s = (r, s')"
  obtain x t where x: "reader (exposed pb) s = (x, t)" by fastforce
  have drop: "f u' = f u" if "drop_after cn_pool put_cn_pool pb m u = (y, u')" "leaves f m" for y u u' and m :: "('p, pooled_bytes, 'e) cprog"
    using leavesD[OF leaves_drop_after[OF assms(1) that(2)] that(1)] .
  show "f s' = f s"
    using leavesD[OF assms(2) x] run x
    by (cases x) (auto simp: read_into_def intro: leaves_basic dest!: drop)
qed

lemma leaves_write_message [leaves_rules]: "io_blind f \<Longrightarrow> leaves f (write_message tag body)"
  unfolding write_message_def by (rule leaves_write)

lemma leaves_message_length [leaves_rules]: "io_blind f \<Longrightarrow> leaves f read_message_length"
  unfolding read_message_length_def Let_def by (intro leaves_rules)

lemma leaves_message_body [leaves_rules]: "io_blind f \<Longrightarrow> leaves f (read_message_body n)"
  unfolding read_message_body_def by (intro leaves_rules)

lemma leaves_startup_packet [leaves_rules]: "io_blind f \<Longrightarrow> leaves f (read_startup_packet n)"
  unfolding read_startup_packet_def by (intro leaves_rules)

subsection \<open>The rounds of the driver\<close>

text \<open>Negotiations that are still open; each \<open>Continued\<close> closes one.\<close>

definition open_rounds :: "'p conn \<Rightarrow> nat" where
  "open_rounds s = (if cn_ssl_done s then 0 else 1) + (if cn_gss_done s then 0 else 1)"

lemma io_blind_open_rounds: "io_blind open_rounds"
  by (simp add: io_blind_def open_rounds_def)

lemma packet_never_continues: "handle_startup_packet E version r s \<noteq> (Ok Continued, s')"
proof
  assume "handle_startup_packet E version r s = (Ok Continued, s')"
  then obtain key t where "(case key of None \<Rightarrow> ret Close | Some key \<Rightarrow> bnd (open_backend E key) (publish_session E)) t = (Ok Continued, s')"
    unfolding handle_startup_packet_def by (elim bnd_OkE) auto
  then obtain b t where "publish_session E b t = (Ok Continued, s')"
    by (cases key) (auto simp: prog_simps elim!: bnd_OkE)
  then show False unfolding publish_session_def by (elim bnd_OkE) (simp add: prog_simps)
qed

lemma leaves_promote: "leaves (\<lambda>s. (cn_ssl_done s, cn_gss_done s)) (promote_to_tls E)"
  by (rule leavesI) (auto simp: promote_to_tls_def Let_def split: if_splits option.splits outcome.splits)

lemma ssl_request_closes:
  assumes "handle_ssl_request E s = (Ok (), s')"
  shows "\<not> cn_ssl_done s \<and> cn_ssl_done s' \<and> cn_gss_done s' = cn_gss_done s"
proof -
  let ?f = "\<lambda>s :: 'a conn. (cn_ssl_done s, cn_gss_done s)"
  have blind: "io_blind ?f" by (simp add: io_blind_def)
  have no: "\<not> cn_ssl_done s" using assms by (auto simp: handle_ssl_request_def bnd_def prog_simps split: if_splits)
  let ?m = "if e_tls E \<noteq> None then andthen (map_err Internal (c_write [0x53])) (promote_to_tls E)
     else map_err Internal (c_write [0x4E])"
  have "?m (s\<lparr>cn_ssl_done := True\<rparr>) = (Ok (), s')"
    using assms no by (simp add: handle_ssl_request_def bnd_def prog_simps)
  moreover have "leaves ?f ?m" by (intro leaves_rules leaves_promote blind)
  ultimately have "?f s' = ?f (s\<lparr>cn_ssl_done := True\<rparr>)" by (rule leavesD[rotated])
  then show ?thesis using no by simp
qed

lemma gss_request_closes:
  assumes "handle_gssnc_request s = (Ok (), s')"
  shows "\<not> cn_gss_done s \<and> cn_gss_done s' \<and> cn_ssl_done s' = cn_ssl_done s"
proof -
  let ?f = "\<lambda>s :: 'a conn. (cn_ssl_done s, cn_gss_done s)"
  have blind: "io_blind ?f" by (simp add: io_blind_def)
  have no: "\<not> cn_gss_done s" using assms by (auto simp: handle_gssnc_request_def bnd_def prog_simps split: if_splits)
  have "map_err Internal (c_write [0x4E]) (s\<lparr>cn_gss_done := True\<rparr>) = (Ok (), s')"
    using assms no by (simp add: handle_gssnc_request_def bnd_def prog_simps)
  then have "?f s' = ?f (s\<lparr>cn_gss_done := True\<rparr>)" by (rule leavesD[rotated]) (intro leaves_rules blind)
  then show ?thesis using no by simp
qed

lemma dispatch_closes_a_round:
  assumes "startup_dispatch E body s = (Ok Continued, s')"
  shows "open_rounds s' < open_rounds s"
proof -
  obtain code r t where t: "on_reader read_u32 (reader_new body) s = (Ok (code, r), t)"
    and rest: "(if code = SSL_REQUEST_CODE then andthen (handle_ssl_request E) (ret Continued)
     else if code = GSSENC_REQUEST_CODE then andthen handle_gssnc_request (ret Continued)
     else if code = CANCEL_REQUEST_CODE then andthen (handle_cancel_request E r) (ret Close)
     else if code = PROTOCOL_VERSION_NUMBER then
       bnd (gets (\<lambda>s. cn_required_tls s \<and> \<not> cn_ssl_done s)) (\<lambda>refuse.
       if refuse then throw (connection_error TlsRequired)
       else handle_startup_packet E code r)
     else throw (protocol_error ''0A000'' (unsupported_protocol_message code))) t = (Ok Continued, s')"
    using assms unfolding startup_dispatch_def by (elim bnd_OkE) auto
  have "t = s" using t by (auto simp: on_reader_def split: outcome.splits prod.splits)
  then consider "handle_ssl_request E s = (Ok (), s')" | "handle_gssnc_request s = (Ok (), s')"
    using rest packet_never_continues[of E code r]
    by (auto simp: prog_simps split: if_splits elim!: bnd_OkE)
  then show ?thesis
    by cases (auto dest!: ssl_request_closes gss_request_closes simp: open_rounds_def)
qed

lemma startup_closes_a_round:
  assumes "handle_startup E s = (Ok Continued, s')"
  shows "open_rounds s' < open_rounds s"
proof -
  obtain pb t where pb: "read_startup_packet (max_startup_bytes (limits (e_config E))) s = (Ok pb, t)"
    and rest: "drop_after cn_pool put_cn_pool pb (startup_dispatch E (body_of pb)) t = (Ok Continued, s')"
    using assms unfolding handle_startup_def by (elim bnd_OkE)
  have "open_rounds t = open_rounds s"
    using leavesD[OF leaves_startup_packet[OF io_blind_open_rounds] pb] .
  moreover obtain u where "startup_dispatch E (body_of pb) t = (Ok Continued, u)" "open_rounds s' = open_rounds u"
    using rest by (auto simp: drop_after_def put_cn_pool_def open_rounds_def split: prod.splits outcome.splits)
  ultimately show ?thesis using dispatch_closes_a_round by metis
qed

lemma drive_enough_fuel: "open_rounds s < n \<Longrightarrow> drive (n + k) E s = drive n E s"
proof (induction n arbitrary: s)
  case (Suc n)
  obtain x t where x: "handle_startup E s = (x, t)" by fastforce
  have "drive (n + k) E t = drive n E t" if "x = Ok Continued"
    using Suc startup_closes_a_round[of E s t] x that by fastforce
  then show ?case using x by (auto split: outcome.splits startup_outcome.splits proxy_error.splits)
qed simp

text \<open>
  C17. The startup loop is at most three rounds long: after a TLS and a GSS request every further
  request of that kind is an error, so a longer loop never does anything else.
\<close>

theorem drive_needs_three_rounds: "drive (3 + k) E s = drive_startup_until_ready E s"
  unfolding drive_startup_until_ready_def by (rule drive_enough_fuel) (simp add: open_rounds_def)

subsection \<open>The first message\<close>

lemma message_length_outcome:
  assumes "4 \<le> length (incoming s)" and "cn_transport s \<noteq> EmptyLink"
  shows "\<exists>t. read_message_length s =
      ((if unat (be32_at (incoming s)) < 4 then Err (connection_error InvalidMessageLength)
        else Ok (unat (be32_at (incoming s)) - 4)), t) \<and>
    incoming t = drop 4 (incoming s) \<and> t = s\<lparr>cn_rbuf := cn_rbuf t, cn_sock := cn_sock t\<rparr>"
proof -
  obtain t where t: "c_read_exact 4 s = (Ok (take 4 (incoming s)), t)" "incoming t = drop 4 (incoming s)"
     "t = s\<lparr>cn_rbuf := cn_rbuf t, cn_sock := cn_sock t\<rparr>"
    using c_read_exact_enough[OF assms] by blast
  have "be32_at (take 4 (incoming s)) = be32_at (incoming s)" using assms(1) by (simp add: be32_at_def)
  then show ?thesis
    using t by (auto simp: read_message_length_def bnd_def map_err_def prog_simps Let_def)
qed

text \<open>
  C29. A first message whose length prefix is out of bounds is refused after its four length bytes: it
  is answered with the error of its kind, no buffer is rented and no byte of the body is read.
\<close>

theorem bad_first_length_is_refused_unread:
  assumes "4 \<le> length (incoming s)" and "cn_transport s \<noteq> EmptyLink"
    and "len = unat (be32_at (incoming s))" and "limit = max_startup_bytes (limits (e_config E))"
    and "len \<le> 4 \<or> limit < len"
  shows "\<exists>s'. handle_startup E s =
      (Err (connection_error (if len < 4 then InvalidMessageLength
         else if limit < len then FirstMessageTooBig else EmptyMessageBody)), s') \<and>
    incoming s' = drop 4 (incoming s) \<and> s' = s\<lparr>cn_rbuf := cn_rbuf s', cn_sock := cn_sock s'\<rparr>"
proof -
  obtain t where t: "read_message_length s =
      ((if len < 4 then Err (connection_error InvalidMessageLength) else Ok (len - 4)), t)"
      "incoming t = drop 4 (incoming s)" "t = s\<lparr>cn_rbuf := cn_rbuf t, cn_sock := cn_sock t\<rparr>"
    using message_length_outcome[OF assms(1,2)] assms(3) by auto
  have "handle_startup E s = (Err (connection_error (if len < 4 then InvalidMessageLength
         else if limit < len then FirstMessageTooBig else EmptyMessageBody)), t)"
    using t(1) assms(4,5)
    by (auto simp: handle_startup_def read_startup_packet_def read_message_body_def bnd_def prog_simps)
  then show ?thesis using t(2,3) by blast
qed

subsection \<open>The switch to TLS\<close>

text \<open>
  C14. An accepted TLS request throws away every byte the client sent in plaintext behind it: the
  session goes on exactly as if those bytes had never been there, with an empty read buffer and on
  the decrypted stream the acceptor made of the socket. The last plaintext byte sent is the \<open>S\<close>.
\<close>

theorem tls_promotion_discards_plaintext:
  assumes "handle_ssl_request E s = (Ok (), s')" and "e_tls E = Some tls"
  shows "cn_transport s' = TlsLink \<and> cn_rbuf s' = [] \<and> cn_ssl_done s' \<and>
    cn_sent s' = cn_sent s @ [(PlainLink, [0x53])] \<and>
    ft_accept tls (cn_sock s) (cn_peer_eof s) = Ok (cn_sock s', cn_peer_eof s') \<and>
    handle_ssl_request E (s\<lparr>cn_rbuf := injected\<rparr>) = (Ok (), s')"
proof -
  have no: "\<not> cn_ssl_done s" using ssl_request_closes[OF assms(1)] by simp
  let ?on = "s\<lparr>cn_ssl_done := True\<rparr>"
  have run: "andthen (map_err Internal (c_write [0x53])) (promote_to_tls E) ?on = (Ok (), s')"
    using assms no by (simp add: handle_ssl_request_def bnd_def prog_simps)
  then obtain t where w: "c_write [0x53] ?on = (Ok (), t)" and p: "promote_to_tls E t = (Ok (), s')"
    by (elim bnd_OkE) (simp add: map_err_Ok)
  have t: "cn_transport t = cn_transport s" "cn_sock t = cn_sock s" "cn_peer_eof t = cn_peer_eof s" "cn_ssl_done t"
      "cn_sent t = cn_sent s @ [(cn_transport s, [0x53])]"
    using w by (auto simp: c_write_def split: if_splits option.splits nat.splits)
  have acc: "cn_transport t = PlainLink" "ft_accept tls (cn_sock t) (cn_peer_eof t) = Ok (cn_sock s', cn_peer_eof s')"
    "cn_transport s' = TlsLink" "cn_rbuf s' = []" "cn_ssl_done s' = cn_ssl_done t" "cn_sent s' = cn_sent t"
    using p assms(2) by (auto simp: promote_to_tls_def Let_def split: if_splits outcome.splits)
  have "c_write [0x53] (s\<lparr>cn_rbuf := injected, cn_ssl_done := True\<rparr>) = (Ok (), t\<lparr>cn_rbuf := injected\<rparr>)"
    using w by (auto simp: c_write_def split: if_splits option.splits nat.splits)
  moreover have "promote_to_tls E (t\<lparr>cn_rbuf := injected\<rparr>) = promote_to_tls E t"
    by (simp add: promote_to_tls_def Let_def split: option.splits outcome.splits)
  ultimately have "handle_ssl_request E (s\<lparr>cn_rbuf := injected\<rparr>) = (Ok (), s')"
    using p no assms(2) by (simp add: handle_ssl_request_def bnd_def map_err_def prog_simps)
  then show ?thesis using t acc by simp
qed

subsection \<open>The meaning of \<open>Ready\<close>\<close>

lemma io_blind_user: "io_blind cn_user"
  by (simp add: io_blind_def)

lemma leaves_user [leaves_rules]:
  "leaves cn_user (on_provider m)" "leaves cn_user (next_nonce E)" "leaves cn_user (on_pool m')"
  by (auto simp: leaves_def on_provider_def next_nonce_def on_pool_def put_cn_pool_def bnd_def prog_simps split: prod.splits)

lemma leaves_user_auth_message [leaves_rules]: "leaves cn_user (send_auth_message code data)"
  unfolding send_auth_message_def by (intro leaves_rules io_blind_user)

lemma leaves_user_sasl_response [leaves_rules]: "leaves cn_user read_sasl_response"
  unfolding read_sasl_response_def by (intro leaves_rules io_blind_user)

lemma leaves_user_scram [leaves_rules]: "leaves cn_user (handle_scram_auth E)"
  unfolding handle_scram_auth_def Let_def find_verifier_def send_auth_sasl_def read_sasl_initial_response_def
    read_sasl_final_response_def parse_sasl_initial_def
  by (intro leaves_rules io_blind_user)

lemma leaves_user_authentication [leaves_rules]: "leaves cn_user (handle_authentication E)"
proof (rule leavesI)
  fix s r s' assume run: "handle_authentication E s = (r, s')"
  obtain x t where x: "handle_scram_auth E s = (x, t)" by fastforce
  have told: "leaves cn_user (andthen (map_err Internal (send_protocol_error e)) (ret None))" for e
    unfolding send_protocol_error_def send_error_message_def by (intro leaves_rules io_blind_user)
  show "cn_user s' = cn_user s"
    using leavesD[OF leaves_user_scram x] run x
    by (auto simp: handle_authentication_def dest!: leavesD[OF told] split: outcome.splits auth_failure.splits)
qed

lemma leaves_user_register [leaves_rules]: "leaves cn_user (register_session n E b)"
proof (induction n)
  case (Suc n)
  then show ?case by (auto intro!: leaves_rules leaves_modify)
qed (simp add: leaves_rules)

lemma leaves_user_notifications [leaves_rules]: "leaves cn_user (send_notifications ns)"
proof (induction ns)
  case (Cons n ns)
  then show ?case by (cases n) (auto intro!: leaves_rules io_blind_user)
qed (simp add: leaves_rules)

lemma leaves_user_publish [leaves_rules]: "leaves cn_user (publish_session E b)"
  unfolding publish_session_def send_startup_notifications_def send_key_secret_def send_ready_signal_def
  by (intro leaves_rules leaves_modify io_blind_user) simp

lemma leaves_user_backend [leaves_rules]: "leaves cn_user (open_backend E key)"
  unfolding open_backend_def by (intro leaves_rules)

definition scram_accepted :: "crypto \<Rightarrow> string \<Rightarrow> verifier \<Rightarrow> bytes \<Rightarrow> bool" where
  "scram_accepted C user v key \<longleftrightarrow>
     (\<exists>h nonce mech c1 s1 a c2 s2 a'.
        handle_client_first C nonce mech c1 user (authenticator_new v h) = (Ok s1, a) \<and>
        handle_client_final C c2 user a = (Ok s2, a') \<and> extracted_client_key a' = Some key)"

lemma handle_scram_auth_Ok:
  assumes "handle_scram_auth E s = (Ok key, s')" and "\<And>p u. v_dummy (e_dummy E p u)"
  shows "\<exists>user v k p p'. cn_user s = Some user \<and> user \<noteq> [] \<and> key = Some k \<and>
    e_lookup E user p = (Ok (Some v), p') \<and> \<not> v_dummy v \<and> scram_accepted (e_crypto E) user v k"
proof -
  obtain user v t where user: "cn_user s = Some user" "user \<noteq> []"
    and v: "find_verifier E user s = (Ok v, t)"
    and rest: "(let scram = authenticator_new v (offered_cert_hash E t); mechanics = mechanisms scram in
    andthen (send_auth_sasl mechanics) (
     bnd (read_sasl_initial_response mechanics) (\<lambda>(chosen, client_first).
     bnd (next_nonce E) (\<lambda>nonce.
     bnd (on_scram (handle_client_first (e_crypto E) nonce chosen client_first user) scram) (\<lambda>(server_first, scram).
     andthen (map_err AuthInternal (send_auth_message 11 (as_bytes server_first))) (
     bnd read_sasl_final_response (\<lambda>client_final.
     bnd (on_scram (handle_client_final (e_crypto E) client_final user) scram) (\<lambda>(server_final, scram).
     andthen (map_err AuthInternal (send_auth_message 12 (as_bytes server_final))) (
     andthen (map_err AuthInternal (send_auth_message 0 [])) (
     ret (extracted_client_key scram)))))))))) ) t = (Ok key, s')"
    using assms(1) unfolding handle_scram_auth_def
    by (elim bnd_OkE) (auto simp: prog_simps split: option.splits if_splits)
  obtain nonce mech c1 s1 a c2 s2 a' where
    first: "handle_client_first (e_crypto E) nonce mech c1 user (authenticator_new v (offered_cert_hash E t)) = (Ok s1, a)"
    and final: "handle_client_final (e_crypto E) c2 user a = (Ok s2, a')" and key: "key = extracted_client_key a'"
    using rest unfolding Let_def
    by (elim bnd_OkE) (auto simp: prog_simps on_scram_def split: outcome.splits prod.splits elim!: bnd_OkE)
  have v_a: "sa_verifier a = v" using first by (auto simp: handle_client_first_Ok authenticator_new_def)
  have k: "\<not> v_dummy v" "\<exists>k. key = Some k"
    using final[unfolded handle_client_final_Ok] key by (auto simp: Let_def v_a)
  obtain p p' found where look: "e_lookup E user p = (Ok found, p')"
      and f: "(case found of Some v \<Rightarrow> ret v | None \<Rightarrow> gets (\<lambda>s. e_dummy E (cn_provider s) user))
        (s\<lparr>cn_provider := p'\<rparr>) = (Ok v :: (_, auth_failure) outcome, t)"
    using v unfolding find_verifier_def
    by (elim bnd_OkE) (auto simp: map_err_Ok on_provider_def intro: that split: prod.splits)
  have "found = Some v" using f k(1) assms(2) by (auto simp: prog_simps split: option.splits)
  with look have look: "e_lookup E user p = (Ok (Some v), p')" by simp
  obtain k' where k': "key = Some k'" using k(2) by blast
  have "scram_accepted (e_crypto E) user v k'"
    unfolding scram_accepted_def using first final key k' by metis
  then show ?thesis using user k(1) k' look by metis
qed

lemma ready_authenticated:
  assumes "crypto_laws (e_crypto E)" and "\<forall>p u. v_dummy (e_dummy E p u)"
    and "handle_startup_packet E version r s = (Ok Ready, s')"
  shows "\<exists>user v key p p'. cn_user s' = Some user \<and> user \<noteq> [] \<and>
    e_lookup E user p = (Ok (Some v), p') \<and> \<not> v_dummy v \<and>
    scram_accepted (e_crypto E) user v key \<and> sha256 (e_crypto E) key = v_stored_key v"
proof -
  obtain key t u where auth: "handle_authentication E t = (Ok key, u)"
    and rest: "(case key of None \<Rightarrow> ret Close | Some key \<Rightarrow> bnd (open_backend E key) (publish_session E)) u = (Ok Ready, s')"
    using assms(3) unfolding handle_startup_packet_def by (elim bnd_OkE)
  then obtain k where k: "key = Some k" by (cases key) (auto simp: prog_simps)
  have "handle_scram_auth E t = (Ok key, u)"
  proof (cases "handle_scram_auth E t")
    case (Pair x w)
    have "\<not> (\<exists>e. x = Err (Rejected e))"
      using auth Pair k by (auto simp: handle_authentication_def prog_simps elim!: bnd_OkE)
    then show ?thesis using auth Pair by (auto simp: handle_authentication_def split: outcome.splits auth_failure.splits)
  qed
  then obtain user v p p' where a: "cn_user t = Some user" "user \<noteq> []"
      "e_lookup E user p = (Ok (Some v), p')" "\<not> v_dummy v" "scram_accepted (e_crypto E) user v k"
    using handle_scram_auth_Ok assms(2) k by blast
  have "cn_user u = cn_user t" using leavesD[OF leaves_user_authentication auth] .
  moreover have "cn_user s' = cn_user u"
    using rest k leavesD[OF leaves_bnd[OF leaves_user_backend[of E k] leaves_user_publish[of E]]] by simp
  moreover have "sha256 (e_crypto E) k = v_stored_key v"
    using a(5) extracted_key[OF assms(1)] unfolding scram_accepted_def
    by (fastforce simp: handle_client_first_Ok authenticator_new_def)
  ultimately show ?thesis using a by metis
qed


end
