(* ===== verification/Conn_Wire.thy ===== *)
theory Conn_Wire
  imports Conn_Phase
begin

section \<open>What goes over the wire\<close>

text \<open>
  The messages of a session as bytes: the error fields and the startup message read back from how they
  are written, the messages that announce a session, and the path of a cancel request.
\<close>

lemma length_as_bytes: "length (as_bytes s) = length s"
  by (simp add: as_bytes_def)

lemma read_string_cstr:
  assumes "unread r = put_cstr [] s @ t" and "CHR 0x00 \<notin> set s" and "utf8_valid (as_bytes s)"
  shows "read_string r = (Ok s, r\<lparr>pos := pos r + length s + 1\<rparr>)" and "unread (r\<lparr>pos := pos r + length s + 1\<rparr>) = t"
proof -
  have u: "unread r = as_bytes s @ 0 # t" using assms(1) by (simp add: put_cstr_def)
  have z: "0 \<notin> set (as_bytes s)" using assms(2) zero_in_as_bytes by simp
  show "read_string r = (Ok s, r\<lparr>pos := pos r + length s + 1\<rparr>)"
    using read_string_unread[OF u z] assms(3) by (simp add: from_utf8_as_bytes length_as_bytes)
  have "drop (length s + 1) (unread r) = t" using u by (simp add: as_bytes_def)
  then show "unread (r\<lparr>pos := pos r + length s + 1\<rparr>) = t" by (simp add: unread_def add.commute)
qed

definition plain_text :: "string \<Rightarrow> bool" where
  "plain_text s \<longleftrightarrow> CHR 0x00 \<notin> set s \<and> utf8_valid (as_bytes s)"

subsection \<open>Errors\<close>

lemma parse_error_end: "parse_error_fields (0 # rest) acc = acc"
  by (cases acc) simp

text \<open>
  The fields the proxy writes into an \<open>ErrorResponse\<close> are the fields it reads out of one: what a
  chained instance, or a client with the same parser, sees is the severity, the code and the message.
\<close>

theorem error_response_round_trip:
  assumes "plain_text sev" and "plain_text code" and "plain_text msg"
  shows "parse_error_response (prepare_error_buf sev code msg) = (sev, code, msg)"
  using assms
  by (simp add: parse_error_response_def prepare_error_buf_def parse_error_field parse_error_end plain_text_def Let_def
      from_utf8_lossy_str del: parse_error_fields.simps)

subsection \<open>The startup message\<close>

definition encode_pairs :: "(string \<times> string) list \<Rightarrow> bytes" where
  "encode_pairs ps = concat (map (\<lambda>(name, value). put_cstr [] name @ put_cstr [] value) ps)"

definition good_pair :: "string \<times> string \<Rightarrow> bool" where
  "good_pair p \<longleftrightarrow> fst p \<noteq> [] \<and> plain_text (fst p) \<and> plain_text (snd p)"

lemma dom_hm_extend: "dom (map_of (hm_extend [] ps)) = fst ` set ps"
  by (simp add: map_of_hm_extend dom_map_of_conv_image_fst)

lemma read_params_pairs:
  assumes "list_all good_pair ps" and "unread r = encode_pairs ps @ [0]"
  shows "\<exists>r'. read_params r m = (Ok (True, r'), hm_extend m ps) \<and> remaining r' = 0"
  using assms
proof (induction ps arbitrary: r m)
  case Nil
  have u: "unread r = put_cstr [] [] @ []" using Nil.prems(2) by (simp add: encode_pairs_def put_cstr_def)
  have "remaining r \<noteq> 0" using Nil.prems(2) by (auto simp: remaining_unread encode_pairs_def)
  then show ?case
    using read_string_cstr[OF u] by (simp add: read_params.simps[of r] hm_extend_def remaining_unread utf8_valid.simps)
next
  case (Cons p ps)
  obtain name v where p: "p = (name, v)" by (cases p)
  let ?r1 = "r\<lparr>pos := pos r + length name + 1\<rparr>" let ?r2 = "?r1\<lparr>pos := pos ?r1 + length v + 1\<rparr>"
  have g: "name \<noteq> []" "plain_text name" "plain_text v" using Cons.prems(1) p by (simp_all add: good_pair_def)
  have u: "unread r = put_cstr [] name @ put_cstr [] v @ encode_pairs ps @ [0]"
    using Cons.prems(2) p by (simp add: encode_pairs_def)
  note r1 = read_string_cstr[OF u, folded plain_text_def]
  note r2 = read_string_cstr[of ?r1 v "encode_pairs ps @ [0]"]
  have s1: "read_string r = (Ok name, ?r1)" "unread ?r1 = put_cstr [] v @ encode_pairs ps @ [0]"
    using read_string_cstr[OF u] g(2) by (simp_all add: plain_text_def)
  have s2: "read_string ?r1 = (Ok v, ?r2)" "unread ?r2 = encode_pairs ps @ [0]"
    using read_string_cstr[OF s1(2)] g(3) by (simp_all add: plain_text_def)
  have "remaining r \<noteq> 0" using u by (simp add: remaining_unread put_cstr_def)
  then have "read_params r m = read_params ?r2 (hm_insert name v m)"
    using s1(1) s2(1) g(1) by (simp add: read_params.simps[of r])
  then show ?case
    using Cons.IH[OF _ s2(2), of "hm_insert name v m"] Cons.prems(1) p by (simp add: hm_extend_def)
qed

text \<open>
  C30. The startup message the proxy sends to its backend is one its own front end parses: the protocol
  version comes back, and the parameters come back complete, in order and without an error.
\<close>

theorem startup_message_round_trip:
  assumes "list_all good_pair (startup_pairs cfg)"
  shows "\<exists>r r'. read_u32 (reader_new (startup_body cfg)) = (Ok PROTOCOL_VERSION_NUMBER, r) \<and>
    read_params r [] = (Ok (True, r'), hm_extend [] (startup_pairs cfg)) \<and> remaining r' = 0 \<and>
    {''user'', ''database'', ''application_name''} \<subseteq> dom (map_of (hm_extend [] (startup_pairs cfg)))"
proof -
  let ?r = "reader_new (startup_body cfg)"
  have u: "unread ?r = to_be32 PROTOCOL_VERSION_NUMBER @ encode_pairs (startup_pairs cfg) @ [0]"
    by (simp add: unread_def reader_new_def startup_body_def encode_pairs_def)
  have "unread (?r\<lparr>pos := pos ?r + 4\<rparr>) = encode_pairs (startup_pairs cfg) @ [0]"
    by (simp add: unread_def reader_new_def startup_body_def encode_pairs_def to_be32_length)
  then obtain r' where "read_params (?r\<lparr>pos := pos ?r + 4\<rparr>) [] = (Ok (True, r'), hm_extend [] (startup_pairs cfg))"
      "remaining r' = 0"
    using read_params_pairs[OF assms] by blast
  moreover have "{''user'', ''database'', ''application_name''} \<subseteq> dom (map_of (hm_extend [] (startup_pairs cfg)))"
    unfolding dom_hm_extend by (auto simp: startup_pairs_def saw_def Let_def)
  ultimately show ?thesis using read_u32_to_be32[OF u] by blast
qed

subsection \<open>Announcing the session\<close>

lemma c_write_open:
  "cn_transport s \<noteq> EmptyLink \<Longrightarrow> cn_writes_left s = None \<Longrightarrow>
   c_write bs s = (Ok (), s\<lparr>cn_sent := cn_sent s @ [(cn_transport s, bs)]\<rparr>)"
  by (simp add: c_write_def)

lemma send_notifications_open:
  assumes "cn_transport s \<noteq> EmptyLink" and "cn_writes_left s = None"
  shows "send_notifications ns s =
    (Ok (), s\<lparr>cn_sent := cn_sent s @ map (\<lambda>n. (cn_transport s, frame (fst (notification_frame n)) (snd (notification_frame n)))) ns\<rparr>)"
  using assms
proof (induction ns arbitrary: s)
  case (Cons n ns)
  let ?s = "s\<lparr>cn_sent := cn_sent s @ [(cn_transport s, frame (fst (notification_frame n)) (snd (notification_frame n)))]\<rparr>"
  have "send_notifications (n # ns) s = send_notifications ns ?s"
    using Cons.prems by (cases "notification_frame n") (simp add: bnd_def map_err_def write_message_def c_write_open)
  then show ?case using Cons.IH[of ?s] Cons.prems by simp
qed (simp add: prog_simps)

definition session_frames :: "backend \<Rightarrow> session_key_secret \<Rightarrow> bytes list" where
  "session_frames b key =
     map (\<lambda>n. frame (fst (notification_frame n)) (snd (notification_frame n))) (be_notifications b)
       @ [frame 0x4B (to_be32 (skey key) @ to_be32 (ssecret key)), frame 0x5A [be_ready_status b]]"

lemma publish_session_step:
  assumes "cn_transport s \<noteq> EmptyLink" and "cn_writes_left s = None"
    and "session_key_new (e_key_rng E) (cn_key_pos s) = (key, i)"
    and "lookup_by_key (cn_registry s) key = None"
  shows "\<exists>s'. publish_session E b s = (Ok Ready, s') \<and>
    cn_sent s' = cn_sent s @ map (\<lambda>bs. (cn_transport s, bs)) (session_frames b key) \<and>
    ssecret key \<noteq> 0 \<and> lookup_by_key (cn_registry s') key = Some b \<and> cn_guard s' = Some (cn_id s, key) \<and>
    cn_verified s' = be_verified b \<and> cn_pool s' = cn_pool s"
proof -
  obtain registry where reg: "register (cn_registry s) b (cn_id s) key = Some registry"
      "lookup_by_key registry key = Some b"
    using assms(4) by (auto simp: register_def lookup_by_key_def)
  let ?t = "s\<lparr>cn_key_pos := i, cn_registry := registry\<rparr>"
  have "register_session (Suc n) E b s = (Ok (Some key) :: (_, proxy_error) outcome, ?t)" for n
    using assms(3) reg(1) by (simp add: bnd_def prog_simps)
  from this[of 63] have t: "register_session 64 E b s = (Ok (Some key) :: (_, proxy_error) outcome, ?t)" by simp
  let ?u = "?t\<lparr>cn_verified := be_verified b, cn_backend := Some b, cn_session_key := Some key,
    cn_guard := Some (cn_id s, key)\<rparr>"
  have "publish_session E b s =
      andthen send_startup_notifications (andthen send_key_secret (andthen send_ready_signal (ret Ready))) ?u"
    unfolding publish_session_def
    by (subst bnd_Ok[where m = "register_session 64 E b" and s = s, OF t]) (simp add: bnd_def prog_simps)
  also have "\<dots> = (Ok Ready, ?u\<lparr>cn_sent := cn_sent s @ map (\<lambda>bs. (cn_transport s, bs)) (session_frames b key)\<rparr>)"
    using assms(1,2)
    by (simp add: send_startup_notifications_def send_key_secret_def send_ready_signal_def bnd_def prog_simps
        send_notifications_open map_err_def write_message_def c_write_open session_frames_def o_def)
  finally have "publish_session E b s =
      (Ok Ready, ?u\<lparr>cn_sent := cn_sent s @ map (\<lambda>bs. (cn_transport s, bs)) (session_frames b key)\<rparr>)" .
  moreover have "ssecret key \<noteq> 0" using assms(3) key_draws_secret by (auto simp: session_key_new_def)
  ultimately show ?thesis using reg(2) by (simp add: lookup_by_key_def)
qed

text \<open>
  A new session is announced to the client with the backend's own parameters and notices in their
  order, then the minted cancel key, then the backend's transaction status, and with nothing else.
  The announced key is not zero, it resolves to this backend from then on, and it is the key the guard
  frees at the end.
\<close>

theorem session_is_announced_in_order:
  assumes "cn_transport s \<noteq> EmptyLink" and "cn_writes_left s = None"
    and "session_key_new (e_key_rng E) (cn_key_pos s) = (key, i)"
    and "lookup_by_key (cn_registry s) key = None"
  shows "\<exists>s'. publish_session E b s = (Ok Ready, s') \<and>
    cn_sent s' = cn_sent s @ map (\<lambda>bs. (cn_transport s, bs)) (session_frames b key) \<and>
    ssecret key \<noteq> 0 \<and> lookup_by_key (cn_registry s') key = Some b \<and> cn_guard s' = Some (cn_id s, key) \<and>
    cn_verified s' = be_verified b"
  using publish_session_step[OF assms] by blast

subsection \<open>Cancel requests\<close>

lemma startup_codes:
  "CANCEL_REQUEST_CODE \<noteq> SSL_REQUEST_CODE" "CANCEL_REQUEST_CODE \<noteq> GSSENC_REQUEST_CODE"
  "PROTOCOL_VERSION_NUMBER \<noteq> SSL_REQUEST_CODE" "PROTOCOL_VERSION_NUMBER \<noteq> GSSENC_REQUEST_CODE"
  "PROTOCOL_VERSION_NUMBER \<noteq> CANCEL_REQUEST_CODE"
  by (simp_all add: CANCEL_REQUEST_CODE_def SSL_REQUEST_CODE_def GSSENC_REQUEST_CODE_def PROTOCOL_VERSION_NUMBER_def)

text \<open>
  C18. A cancel request is answered with nothing. With a key of a live session it makes the proxy send
  exactly one packet, to the address of that session's backend and with the backend's own key; with
  any other key nothing at all happens.
\<close>

theorem cancel_reaches_the_owning_backend:
  assumes "b = lookup_by_key (cn_registry s) \<lparr>skey = pid, ssecret = secret\<rparr>"
    and "\<And>b'. b = Some b' \<Longrightarrow> \<exists>l. net_connect (e_net E) (be_host b' @ '':'' @ show_u16 (be_port b')) = Inr l \<and> lk_left l = None"
  shows "startup_dispatch E (to_be32 CANCEL_REQUEST_CODE @ to_be32 pid @ to_be32 secret) s =
    (Ok Close, s\<lparr>cn_cancel_log := cn_cancel_log s @
       (case Option.bind b (\<lambda>b'. map_option (\<lambda>key. (b', key)) (be_backend_key b')) of
          None \<Rightarrow> []
        | Some (b', key) \<Rightarrow> [(be_host b' @ '':'' @ show_u16 (be_port b'), cancel_packet key)])\<rparr>)"
proof -
  let ?body = "to_be32 CANCEL_REQUEST_CODE @ to_be32 pid @ to_be32 secret"
  let ?r = "\<lambda>n. (reader_new ?body)\<lparr>pos := n\<rparr>"
  have r0: "unread (reader_new ?body) = ?body" by (simp add: unread_def reader_new_def)
  have r1: "unread (?r 4) = to_be32 pid @ to_be32 secret" "remaining (?r 4) = 8"
    by (simp_all add: unread_def reader_new_def to_be32_length remaining_def)
  have r2: "unread (?r 8) = to_be32 secret @ []" by (simp add: unread_def reader_new_def to_be32_length)
  have reads: "read_u32 (reader_new ?body) = (Ok CANCEL_REQUEST_CODE, ?r 4)" "read_u32 (?r 4) = (Ok pid, ?r 8)"
    "fst (read_u32 (?r 8)) = Ok secret"
    using read_u32_to_be32[OF r0] read_u32_to_be32[OF r1(1)] read_u32_to_be32[OF r2] by (simp_all add: reader_new_def)
  obtain r3 where r3: "read_u32 (?r 8) = (Ok secret, r3)" using reads(3) by (metis prod.collapse)
  have "startup_dispatch E ?body s = andthen (handle_cancel_request E (?r 4)) (ret Close) s"
    unfolding startup_dispatch_def
    by (subst bnd_Ok[where s = s and x = "(CANCEL_REQUEST_CODE, ?r 4)" and s' = s])
       (simp_all add: on_reader_def reads(1) startup_codes)
  also have "\<dots> = (Ok Close, s\<lparr>cn_cancel_log := cn_cancel_log s @
       (case Option.bind b (\<lambda>b'. map_option (\<lambda>key. (b', key)) (be_backend_key b')) of
          None \<Rightarrow> []
        | Some (b', key) \<Rightarrow> [(be_host b' @ '':'' @ show_u16 (be_port b'), cancel_packet key)])\<rparr>)"
  proof (cases "Option.bind b (\<lambda>b'. map_option (\<lambda>key. (b', key)) (be_backend_key b'))")
    case None
    then show ?thesis
      using assms(1) r1(2) reads(2) r3
      by (auto simp: handle_cancel_request_def bnd_def prog_simps on_reader_def split: option.splits)
  next
    case (Some x)
    then obtain b' key l where "b = Some b'" "be_backend_key b' = Some key" "x = (b', key)"
       "net_connect (e_net E) (be_host b' @ '':'' @ show_u16 (be_port b')) = Inr l" "lk_left l = None"
      using assms(2) by (auto simp: bind_eq_Some_conv)
    then show ?thesis
      using assms(1) r1(2) reads(2) r3
      by (auto simp: handle_cancel_request_def bnd_def prog_simps on_reader_def ignore_error_def on_cancel_log_def
          send_cancel_request_def link_write_def)
  qed
  finally show ?thesis .
qed

end
