(* ===== verification/Conn_Complete.thy ===== *)
theory Conn_Complete
  imports Conn_Wire
begin

section \<open>Authentication that succeeds\<close>

text \<open>
  Framed reading as a parser of the byte stream, and from it the completeness of the authentication
  over the wire: the session carries out the SCRAM exchange of its authenticator. \<open>moved s t\<close> says that
  \<open>t\<close> differs from \<open>s\<close> only in what was read and in the buffers at rest in the pool.
\<close>

definition moved :: "'p conn \<Rightarrow> 'p conn \<Rightarrow> bool" where
  "moved s t \<longleftrightarrow> (\<exists>rbuf segments p. t = s\<lparr>cn_rbuf := rbuf, cn_sock := segments, cn_pool := p\<rparr> \<and>
     pool_inv p \<and> pool_shape p = pool_shape (cn_pool s))"

lemma moved_trans: "moved s t \<Longrightarrow> moved t u \<Longrightarrow> moved s u"
  by (fastforce simp: moved_def)

lemma moved_facts:
  assumes "moved s t"
  shows "pool_inv (cn_pool t)" "max_capacity (cn_pool t) = max_capacity (cn_pool s)"
    "cn_transport t = cn_transport s" "cn_writes_left t = cn_writes_left s" "cn_sent t = cn_sent s"
    "cn_nonce_pos t = cn_nonce_pos s"
  using assms max_capacity_shape by (auto simp: moved_def)

lemma moved_put: "pool_inv p \<Longrightarrow> pool_shape p = pool_shape (cn_pool s) \<Longrightarrow> moved s (put_cn_pool p s)"
  unfolding moved_def
  by (rule exI[of _ "cn_rbuf s"], rule exI[of _ "cn_sock s"], rule exI[of _ p]) (simp add: put_cn_pool_def)

lemma read_exact_prefix:
  assumes "incoming s = bs @ rest" and "cn_transport s \<noteq> EmptyLink" and "pool_inv (cn_pool s)"
  shows "\<exists>t. c_read_exact (length bs) s = (Ok bs, t) \<and> incoming t = rest \<and> moved s t"
proof -
  obtain t where t: "c_read_exact (length bs) s = (Ok (take (length bs) (incoming s)), t)"
     "incoming t = drop (length bs) (incoming s)" "t = s\<lparr>cn_rbuf := cn_rbuf t, cn_sock := cn_sock t\<rparr>"
    using c_read_exact_enough[of "length bs" s] assms(1,2) by auto
  have "t = s\<lparr>cn_rbuf := cn_rbuf t, cn_sock := cn_sock t, cn_pool := cn_pool s\<rparr>" by (subst t(3)) simp
  then have "moved s t" unfolding moved_def using assms(3) by blast
  then show ?thesis using t assms by auto
qed

lemma message_length_step:
  assumes "incoming s = to_be32 (of_nat n) @ rest" and "4 \<le> n" and "n < 2 ^ 32"
    and "cn_transport s \<noteq> EmptyLink" and "pool_inv (cn_pool s)"
  shows "\<exists>t. read_message_length s = (Ok (n - 4), t) \<and> incoming t = rest \<and> moved s t"
proof -
  obtain t where t: "c_read_exact (length (to_be32 (of_nat n))) s = (Ok (to_be32 (of_nat n)), t)" "incoming t = rest" "moved s t"
    using read_exact_prefix[OF assms(1,4,5)] by blast
  have "unat (be32_at (to_be32 (of_nat n))) = n"
    using be32_at_to_be32[of "of_nat n" "[]"] assms(3) by (simp add: unat_of_nat take_bit_nat_eq_self)
  then show ?thesis
    using t assms(2) by (auto simp: read_message_length_def bnd_def map_err_def prog_simps Let_def to_be32_length)
qed

lemma message_body_step:
  assumes "incoming s = body @ rest" and "body \<noteq> []" and "length body \<le> max_capacity (cn_pool s)"
    and "cn_transport s \<noteq> EmptyLink" and "pool_inv (cn_pool s)"
  shows "\<exists>pb t. read_message_body (length body) s = (Ok (Some pb), t) \<and> body_of pb = body \<and>
    rented_ok (pool_shape (cn_pool s)) pb \<and> incoming t = rest \<and> moved s t"
proof -
  obtain pb p where rent: "pool_get (length body) (cn_pool s) = (Ok pb, p)" and p: "pool_inv p" "pool_shape p = pool_shape (cn_pool s)"
      and pb: "rented_ok (pool_shape (cn_pool s)) pb" "exposed pb = length body"
    using shared_pool.rent_law[OF assms(5,3)] by auto
  let ?s = "put_cn_pool p s"
  obtain t where t: "c_read_exact (length body) ?s = (Ok body, t)" "incoming t = rest" "moved ?s t"
    using read_exact_prefix[of ?s body rest] assms(1,4) p(1) by (auto simp: put_cn_pool_def incoming_def)
  have "moved s t" using t(3) p by (auto simp: moved_def put_cn_pool_def)
  moreover have "read_message_body (length body) s = (Ok (Some (fill_pooled body pb)), t)"
    using assms(2,3) rent t(1) pb(2)
    by (simp add: read_message_body_def bnd_def prog_simps rent_buffer_def read_into_def map_err_def)
  moreover have "rented_ok (pool_shape (cn_pool s)) (fill_pooled body pb)" "body_of (fill_pooled body pb) = body"
    using pb shared_pool.put_owed[of "pool_shape (cn_pool s)" pb body] body_of_fill[of "pool_shape (cn_pool s)" pb body] by simp_all
  ultimately show ?thesis using t(2) by blast
qed

lemma scope_step:
  assumes "m s = (r, s)" and "pool_inv (cn_pool s)" and "rented_ok (pool_shape (cn_pool s)) pb"
  shows "\<exists>t. drop_after cn_pool put_cn_pool pb m s = (r, t) \<and> incoming t = incoming s \<and> moved s t"
proof -
  obtain p where p: "pooled_drop pb (cn_pool s) = (Ok (), p)" "conn_pool.holds (pool_shape (cn_pool s)) (put_cn_pool p s)"
    using conn_pool.drop_ok[of "pool_shape (cn_pool s)" s pb] assms(2,3) by (auto simp: conn_pool.holds_def)
  then have "drop_after cn_pool put_cn_pool pb m s = (r, put_cn_pool p s)"
    using assms(1) by (simp add: drop_after_def)
  moreover have "moved s (put_cn_pool p s)"
    using p(2) by (intro moved_put) (auto simp: conn_pool.holds_def put_cn_pool_def)
  moreover have "incoming (put_cn_pool p s) = incoming s" by (simp add: put_cn_pool_def incoming_def)
  ultimately show ?thesis by blast
qed

subsection \<open>The two SASL messages\<close>

lemma sasl_response_step:
  assumes "incoming s = frame 0x70 body @ rest" and "4 \<le> length body" and "length body + 4 < 2 ^ 32"
    and "length body \<le> max_capacity (cn_pool s)" and "cn_transport s \<noteq> EmptyLink" and "pool_inv (cn_pool s)"
  shows "\<exists>pb t. read_sasl_response s = (Ok pb, t) \<and> body_of pb = body \<and>
    rented_ok (pool_shape (cn_pool s)) pb \<and> incoming t = rest \<and> moved s t"
proof -
  have "incoming s = [0x70] @ to_be32 (of_nat (length body + 4)) @ body @ rest" using assms(1) by (simp add: frame_def)
  then obtain t where t: "c_read_exact 1 s = (Ok [0x70], t)" "incoming t = to_be32 (of_nat (length body + 4)) @ body @ rest" "moved s t"
    using read_exact_prefix[of s "[0x70]"] assms(5,6) by (metis One_nat_def length_Cons list.size(3))
  note tm = moved_facts[OF t(3)]
  obtain u where u: "read_message_length t = (Ok (length body), u)" "incoming u = body @ rest" "moved t u"
    using message_length_step[OF t(2)] assms(3,5) tm by auto
  note um = moved_facts[OF u(3)]
  have ne: "body \<noteq> []" using assms(2) by auto
  obtain pb w where w: "read_message_body (length body) u = (Ok (Some pb), w)" "body_of pb = body"
      "rented_ok (pool_shape (cn_pool u)) pb" "incoming w = rest" "moved u w"
    using message_body_step[OF u(2) ne] assms(4,5) tm um by auto
  have "pool_shape (cn_pool u) = pool_shape (cn_pool s)" using t(3) u(3) by (auto simp: moved_def)
  moreover have "read_sasl_response s = (Ok pb, w)"
    using t(1) u(1) w(1) assms(2) by (simp add: read_sasl_response_def bnd_def map_err_def prog_simps)
  ultimately show ?thesis using w moved_trans[OF t(3) moved_trans[OF u(3) w(5)]] by auto
qed

definition sasl_initial_body :: "string \<Rightarrow> string \<Rightarrow> bytes" where
  "sasl_initial_body mech client_first =
     put_cstr [] mech @ to_be32 (of_nat (length client_first)) @ as_bytes client_first"

lemma parse_sasl_initial_step:
  assumes "mech \<in> set mechanics" and "plain_text mech" and "utf8_valid (as_bytes c1)" and "length c1 < 2 ^ 31"
  shows "parse_sasl_initial mechanics (sasl_initial_body mech c1) s = (Ok (mech, c1), s)"
proof -
  let ?r0 = "reader_new (sasl_initial_body mech c1)" and ?n = "of_nat (length c1) :: i32"
  let ?r1 = "?r0\<lparr>pos := pos ?r0 + length mech + 1\<rparr>" let ?r2 = "?r1\<lparr>pos := pos ?r1 + 4\<rparr>"
  have u0: "unread ?r0 = put_cstr [] mech @ to_be32 ?n @ as_bytes c1"
    by (simp add: unread_def reader_new_def sasl_initial_body_def)
  have s0: "read_string ?r0 = (Ok mech, ?r1)" and u1: "unread ?r1 = to_be32 ?n @ as_bytes c1"
    using read_string_cstr[OF u0] assms(2) by (simp_all add: plain_text_def)
  have s1: "read_u32 ?r1 = (Ok ?n, ?r2)" by (rule read_u32_to_be32[OF u1])
  have u2: "unread ?r2 = as_bytes c1 @ []"
    by (simp add: unread_def reader_new_def sasl_initial_body_def put_cstr_def to_be32_length length_as_bytes)
  have n: "sint ?n = int (length c1)" using assms(4) by (simp add: signed_of_nat signed_take_bit_int_eq_self)
  have "length (as_bytes c1) = i32_as_usize ?n"
    using n assms(4) by (simp add: i32_as_usize_nonneg length_as_bytes)
  moreover have "reader_ok ?r2"
    by (simp add: reader_ok_def reader_new_def sasl_initial_body_def put_cstr_def to_be32_length length_as_bytes)
  ultimately have "fst (read_string_fixed_size ?n ?r2) = Ok c1"
    using read_string_fixed_size_unread[OF u2] assms(3) by (simp add: from_utf8_as_bytes)
  then obtain r3 where s2: "read_string_fixed_size ?n ?r2 = (Ok c1, r3)" by (metis prod.collapse)
  show ?thesis
    using s0 s1 s2 n assms(1) by (simp add: parse_sasl_initial_def bnd_def map_err_def on_reader_def prog_simps)
qed

lemma sasl_initial_step:
  assumes "incoming s = frame 0x70 (sasl_initial_body mech c1) @ rest" and "mech \<in> set mechanics" and "plain_text mech"
    and "utf8_valid (as_bytes c1)" and "length (sasl_initial_body mech c1) \<le> max_capacity (cn_pool s)"
    and "max_capacity (cn_pool s) < 2 ^ 31" and "cn_transport s \<noteq> EmptyLink" and "pool_inv (cn_pool s)"
  shows "\<exists>t. read_sasl_initial_response mechanics s = (Ok (mech, c1), t) \<and> incoming t = rest \<and> moved s t"
proof -
  have len: "4 \<le> length (sasl_initial_body mech c1)" "length c1 \<le> length (sasl_initial_body mech c1)"
    by (simp_all add: sasl_initial_body_def put_cstr_def to_be32_length length_as_bytes)
  obtain pb t where t: "read_sasl_response s = (Ok pb, t)" "body_of pb = sasl_initial_body mech c1"
      "rented_ok (pool_shape (cn_pool s)) pb" "incoming t = rest" "moved s t"
    using sasl_response_step[OF assms(1) len(1) _ assms(5,7,8)] assms(5,6) by auto
  have parse: "parse_sasl_initial mechanics (sasl_initial_body mech c1) t = (Ok (mech, c1), t)"
    using parse_sasl_initial_step[OF assms(2-4)] len assms(5,6) by simp
  have sh: "pool_inv (cn_pool t)" "rented_ok (pool_shape (cn_pool t)) pb" using t(3,5) by (auto simp: moved_def)
  obtain u where u: "drop_after cn_pool put_cn_pool pb (parse_sasl_initial mechanics (sasl_initial_body mech c1)) t = (Ok (mech, c1), u)"
      "incoming u = incoming t" "moved t u"
    using scope_step[where m = "parse_sasl_initial mechanics (sasl_initial_body mech c1)" and s = t, OF parse sh] by blast
  have "read_sasl_initial_response mechanics s = (Ok (mech, c1), u)"
    using t(1,2) u(1) by (simp add: read_sasl_initial_response_def bnd_def)
  then show ?thesis using u t moved_trans by metis
qed

lemma sasl_final_step:
  assumes "incoming s = frame 0x70 (as_bytes c2) @ rest" and "4 \<le> length c2" and "utf8_valid (as_bytes c2)"
    and "length c2 \<le> max_capacity (cn_pool s)" and "max_capacity (cn_pool s) < 2 ^ 31"
    and "cn_transport s \<noteq> EmptyLink" and "pool_inv (cn_pool s)"
  shows "\<exists>t. read_sasl_final_response s = (Ok c2, t) \<and> incoming t = rest \<and> moved s t"
proof -
  obtain pb t where t: "read_sasl_response s = (Ok pb, t)" "body_of pb = as_bytes c2"
      "rented_ok (pool_shape (cn_pool s)) pb" "incoming t = rest" "moved s t"
    using sasl_response_step[OF assms(1) _ _ _ assms(6,7)] assms(2,4,5) by (auto simp: length_as_bytes)
  let ?m = "of_opt (rejected_scram (ScramProtocol ''malformed SCRAM message'')) (from_utf8 (as_bytes c2))"
  have parse: "?m t = (Ok c2, t)" using assms(3) by (simp add: from_utf8_as_bytes prog_simps)
  have sh: "pool_inv (cn_pool t)" "rented_ok (pool_shape (cn_pool t)) pb" using t(3,5) by (auto simp: moved_def)
  obtain u where u: "drop_after cn_pool put_cn_pool pb ?m t = (Ok c2, u)" "incoming u = incoming t" "moved t u"
    using scope_step[where m = ?m and s = t, OF parse sh] by blast
  have "read_sasl_final_response s = (Ok c2, u)"
    using t(1,2) u(1) by (simp add: read_sasl_final_response_def bnd_def)
  then show ?thesis using u t moved_trans by metis
qed

subsection \<open>The exchange\<close>

lemma send_auth_open:
  assumes "cn_transport s \<noteq> EmptyLink" and "cn_writes_left s = None"
  shows "send_auth_message code data s =
    (Ok (), s\<lparr>cn_sent := cn_sent s @ [(cn_transport s, frame 0x52 (to_be32 code @ data))]\<rparr>)"
  using assms by (simp add: send_auth_message_def write_message_def c_write_open)

definition sasl_offer :: "string list \<Rightarrow> bytes" where
  "sasl_offer ms = fold (\<lambda>m data. put_cstr data m) ms [] @ [0]"

definition auth_frames :: "string list \<Rightarrow> string \<Rightarrow> string \<Rightarrow> bytes list" where
  "auth_frames mechanics s1 s2 =
     [frame 0x52 (to_be32 10 @ sasl_offer mechanics), frame 0x52 (to_be32 11 @ as_bytes s1),
      frame 0x52 (to_be32 12 @ as_bytes s2), frame 0x52 (to_be32 0)]"

lemma mechanism_plain:
  assumes "mech \<in> set (mechanisms a)"
  shows "plain_text mech"
proof -
  have "is_ascii mech" "CHR 0x00 \<notin> set mech"
    using assms by (auto simp: mechanisms_def SCRAM_SHA_256_def PLUS_def split: option.splits if_splits)
  then show ?thesis by (simp add: plain_text_def utf8_valid_str)
qed

lemma find_verifier_known:
  "e_lookup E user (cn_provider s) = (Ok (Some v), p) \<Longrightarrow> find_verifier E user s = (Ok v, s\<lparr>cn_provider := p\<rparr>)"
  by (simp add: find_verifier_def bnd_def map_err_def on_provider_def prog_simps)

lemma authentication_step:
  assumes "pool_inv (cn_pool s)" and "cn_transport s \<noteq> EmptyLink" and "cn_writes_left s = None"
    and "cn_user s = Some user" and "user \<noteq> []" and "e_lookup E user (cn_provider s) = (Ok (Some v), p)"
    and "incoming s = frame 0x70 (sasl_initial_body mech c1) @ frame 0x70 (as_bytes c2) @ rest"
    and "utf8_valid (as_bytes c1)" and "utf8_valid (as_bytes c2)" and "4 \<le> length c2"
    and "length (sasl_initial_body mech c1) \<le> max_capacity (cn_pool s)"
    and "length c2 \<le> max_capacity (cn_pool s)" and "max_capacity (cn_pool s) < 2 ^ 31"
    and "scram = authenticator_new v (offered_cert_hash E s)"
    and "handle_client_first (e_crypto E) (e_nonce E (cn_nonce_pos s)) mech c1 user scram = (Ok s1, a)"
    and "handle_client_final (e_crypto E) c2 user a = (Ok s2, a')"
  shows "\<exists>rbuf segments q. handle_authentication E s = (Ok (extracted_client_key a'),
      s\<lparr>cn_provider := p, cn_nonce_pos := cn_nonce_pos s + 1,
        cn_sent := cn_sent s @ map (\<lambda>bs. (cn_transport s, bs)) (auth_frames (mechanisms scram) s1 s2),
        cn_rbuf := rbuf, cn_sock := segments, cn_pool := q\<rparr>) \<and>
    rbuf @ concat segments = rest \<and> pool_inv q \<and> pool_shape q = pool_shape (cn_pool s)"
proof -
  let ?C = "e_crypto E" and ?tr = "cn_transport s" and ?ms = "mechanisms scram"
  let ?s0 = "s\<lparr>cn_provider := p, cn_sent := cn_sent s @ [(?tr, frame 0x52 (to_be32 10 @ sasl_offer ?ms))]\<rparr>"
  have mech: "mech \<in> set ?ms" using assms(15) by (simp add: handle_client_first_Ok)
  have hash: "offered_cert_hash E (s\<lparr>cn_provider := p\<rparr>) = offered_cert_hash E s" by (simp add: offered_cert_hash_def)
  have offer: "send_auth_sasl ?ms (s\<lparr>cn_provider := p\<rparr>) = (Ok (), ?s0)"
    using assms(2,3) by (simp add: send_auth_sasl_def map_err_def send_auth_open sasl_offer_def)
  have in0: "incoming ?s0 = frame 0x70 (sasl_initial_body mech c1) @ frame 0x70 (as_bytes c2) @ rest"
    using assms(7) by (simp add: incoming_def)
  obtain t1 where t1: "read_sasl_initial_response ?ms ?s0 = (Ok (mech, c1), t1)"
      "incoming t1 = frame 0x70 (as_bytes c2) @ rest" "moved ?s0 t1"
    using sasl_initial_step[OF in0 mech mechanism_plain[OF mech] assms(8)] assms(1,2,11,13) by auto
  note m1 = moved_facts[OF t1(3), simplified]
  let ?t2 = "t1\<lparr>cn_nonce_pos := cn_nonce_pos s + 1, cn_sent := cn_sent t1 @ [(?tr, frame 0x52 (to_be32 11 @ as_bytes s1))]\<rparr>"
  have nonce: "next_nonce E t1 = (Ok (e_nonce E (cn_nonce_pos s)) :: (_, auth_failure) outcome, t1\<lparr>cn_nonce_pos := cn_nonce_pos s + 1\<rparr>)"
    using m1 by (simp add: next_nonce_def bnd_def prog_simps)
  have in2: "incoming ?t2 = frame 0x70 (as_bytes c2) @ rest" using t1(2) by (simp add: incoming_def)
  obtain t3 where t3: "read_sasl_final_response ?t2 = (Ok c2, t3)" "incoming t3 = rest" "moved ?t2 t3"
    using sasl_final_step[OF in2 assms(10,9)] assms(2,12,13) m1 by auto
  note m3 = moved_facts[OF t3(3), simplified]
  let ?t4 = "t3\<lparr>cn_sent := cn_sent t3 @ [(?tr, frame 0x52 (to_be32 12 @ as_bytes s2)), (?tr, frame 0x52 (to_be32 0))]\<rparr>"
  have "handle_scram_auth E s = (Ok (extracted_client_key a'), ?t4)"
    unfolding handle_scram_auth_def Let_def
    using assms(2-6) offer t1(1) nonce t3(1) m1 m3 assms(14-16) hash
    by (simp add: bnd_def prog_simps find_verifier_known on_scram_def map_err_def send_auth_open)
  then have run: "handle_authentication E s = (Ok (extracted_client_key a'), ?t4)"
    by (simp add: handle_authentication_def)
  obtain rb1 sk1 q1 where e1: "t1 = ?s0\<lparr>cn_rbuf := rb1, cn_sock := sk1, cn_pool := q1\<rparr>"
      "pool_inv q1" "pool_shape q1 = pool_shape (cn_pool s)"
    using t1(3) by (auto simp: moved_def)
  obtain rb3 sk3 q3 where e3: "t3 = ?t2\<lparr>cn_rbuf := rb3, cn_sock := sk3, cn_pool := q3\<rparr>"
      "pool_inv q3" "pool_shape q3 = pool_shape q1"
    using t3(3) e1 by (auto simp: moved_def)
  have "?t4 = s\<lparr>cn_provider := p, cn_nonce_pos := cn_nonce_pos s + 1,
        cn_sent := cn_sent s @ map (\<lambda>bs. (?tr, bs)) (auth_frames ?ms s1 s2),
        cn_rbuf := rb3, cn_sock := sk3, cn_pool := q3\<rparr>"
    using e1(1) e3(1) by (simp add: auth_frames_def)
  moreover have "rb3 @ concat sk3 = rest" using t3(2) e3(1) by (simp add: incoming_def)
  ultimately show ?thesis using run e1 e3 by metis
qed

text \<open>
  The session carries out its authenticator's exchange over the wire: when the client's two SASL
  messages are on the socket, in whatever segments, and the authenticator accepts them, the session
  authenticates the client, hands on the captured key, consumes exactly those two messages and
  answers with the mechanism list, the two SCRAM replies and \<open>AuthenticationOk\<close>, in that order.
\<close>

theorem authentication_completes:
  assumes "pool_inv (cn_pool s)" and "cn_transport s \<noteq> EmptyLink" and "cn_writes_left s = None"
    and "cn_user s = Some user" and "user \<noteq> []" and "e_lookup E user (cn_provider s) = (Ok (Some v), p)"
    and "incoming s = frame 0x70 (sasl_initial_body mech c1) @ frame 0x70 (as_bytes c2) @ rest"
    and "utf8_valid (as_bytes c1)" and "utf8_valid (as_bytes c2)" and "4 \<le> length c2"
    and "length (sasl_initial_body mech c1) \<le> max_capacity (cn_pool s)"
    and "length c2 \<le> max_capacity (cn_pool s)" and "max_capacity (cn_pool s) < 2 ^ 31"
    and "scram = authenticator_new v (offered_cert_hash E s)"
    and "handle_client_first (e_crypto E) (e_nonce E (cn_nonce_pos s)) mech c1 user scram = (Ok s1, a)"
    and "handle_client_final (e_crypto E) c2 user a = (Ok s2, a')"
  shows "\<exists>t. handle_authentication E s = (Ok (extracted_client_key a'), t) \<and> incoming t = rest \<and>
    cn_sent t = cn_sent s @ map (\<lambda>bs. (cn_transport s, bs)) (auth_frames (mechanisms scram) s1 s2)"
  using authentication_step[OF assms] by (fastforce simp: incoming_def)

end
