(* ===== verification/Pg_Complete.thy ===== *)
theory Pg_Complete
  imports Conn_Complete
begin

section \<open>A backend handshake that succeeds\<close>

text \<open>
  Framed reading from the backend as a parser of its byte stream, and from it what the handshake
  collects and how it answers a SASL request. \<open>pool_like p q\<close> says that a pool is in its invariant and has
  the buckets of another: which buffers are at rest does not matter.
\<close>

definition pool_like :: "multi_buffer_pool \<Rightarrow> multi_buffer_pool \<Rightarrow> bool" where
  "pool_like p q \<longleftrightarrow> pool_inv p \<and> pool_shape p = pool_shape q"

lemma pool_like_trans: "pool_like p q \<Longrightarrow> pool_like q r \<Longrightarrow> pool_like p r"
  by (simp add: pool_like_def)

lemma pool_like_capacity: "pool_like p q \<Longrightarrow> max_capacity p = max_capacity q"
  using max_capacity_shape by (auto simp: pool_like_def)

definition at_rest :: "pg_client \<Rightarrow> bytes \<Rightarrow> multi_buffer_pool \<Rightarrow> pg_client" where
  "at_rest c rest p = c\<lparr>pc_pool := p, pc_link := (pc_link c)\<lparr>lk_rx := rest\<rparr>\<rparr>"

lemma sint_small: "n < 2 ^ 31 \<Longrightarrow> sint (of_nat n :: i32) = int n"
  by (simp add: signed_of_nat signed_take_bit_int_eq_self)

lemma at_rest_pool: "(at_rest c rest p)\<lparr>pc_pool := q\<rparr> = at_rest c rest q"
  by (simp add: at_rest_def)

lemma header_step:
  assumes "lk_rx (pc_link c) = frame tag body @ rest" and "length body + 4 < 2 ^ 31"
  shows "read_message_header c = (Ok (tag, length body), at_rest c (body @ rest) (pc_pool c))"
proof -
  let ?w = "of_nat (length body + 4) :: i32"
  let ?h = "tag # to_be32 ?w"
  have h: "length ?h = 5" "lk_rx (pc_link c) = ?h @ body @ rest" using assms(1) by (simp_all add: frame_def to_be32_length)
  then have "ts_read_exact 5 (pc_link c) = (Ok ?h, (pc_link c)\<lparr>lk_rx := body @ rest\<rparr>)"
    by (simp add: ts_read_exact_def link_read_def map_err_def)
  moreover have "sint ?w = int (length body + 4)" using sint_small[OF assms(2)] .
  moreover have "sint (?w - 4) = int (length body)"
  proof -
    have "?w - 4 = of_nat (length body)" by simp
    then show ?thesis using assms(2) sint_small[of "length body"] by simp
  qed
  moreover have "be32_at (drop 1 ?h) = ?w" using be32_at_to_be32[of ?w "[]"] by simp
  ultimately show ?thesis
    by (simp add: read_message_header_def bnd_def on_link_def prog_simps Let_def i32_as_usize_nonneg at_rest_def)
qed

lemma body_step:
  assumes "lk_rx (pc_link c) = body @ rest" and "length body \<le> max_capacity (pc_pool c)" and "pool_inv (pc_pool c)"
  shows "\<exists>pb p. pg_read_message_body (length body) c = (Ok pb, at_rest c rest p) \<and> body_of pb = body \<and>
    rented_ok (pool_shape (pc_pool c)) pb \<and> pool_like p (pc_pool c)"
proof -
  obtain pb p where rent: "pool_get (length body) (pc_pool c) = (Ok pb, p)" and p: "pool_inv p" "pool_shape p = pool_shape (pc_pool c)"
      and pb: "rented_ok (pool_shape (pc_pool c)) pb" "exposed pb = length body"
    using shared_pool.rent_law[OF assms(3,2)] by auto
  have "pg_read_message_body (length body) c = (Ok (fill_pooled body pb), at_rest c rest p)"
    using assms(1,2) rent pb(2)
    by (simp add: pg_read_message_body_def bnd_def prog_simps rent_buffer_def read_into_def on_link_def ts_read_exact_def
        link_read_def map_err_def put_pc_pool_def at_rest_def)
  moreover have "rented_ok (pool_shape (pc_pool c)) (fill_pooled body pb)" "body_of (fill_pooled body pb) = body"
    using pb shared_pool.put_owed[of "pool_shape (pc_pool c)" pb body] body_of_fill[of "pool_shape (pc_pool c)" pb body] by simp_all
  ultimately show ?thesis using p by (auto simp: pool_like_def)
qed

lemma pg_scope_step:
  assumes "m c = (r, c')" and "pool_like (pc_pool c') q" and "rented_ok (pool_shape q) pb"
  shows "\<exists>p. drop_after pc_pool put_pc_pool pb m c = (r, c'\<lparr>pc_pool := p\<rparr>) \<and> pool_like p q"
proof -
  obtain p where "pooled_drop pb (pc_pool c') = (Ok (), p)" "pg_pool.holds (pool_shape q) (put_pc_pool p c')"
    using pg_pool.drop_ok[of "pool_shape q" c' pb] assms(2,3) by (auto simp: pg_pool.holds_def pool_like_def)
  then show ?thesis
    using assms(1) by (auto simp: drop_after_def put_pc_pool_def pg_pool.holds_def pool_like_def)
qed

text \<open>One framed message, with whatever its owner's scope does.\<close>

lemma framed_step:
  assumes "lk_rx (pc_link c) = frame tag body @ rest" and "length body \<le> max_capacity (pc_pool c)"
    and "max_capacity (pc_pool c) < 2 ^ 30" and "pool_inv (pc_pool c)"
    and "\<And>p. pool_like p (pc_pool c) \<Longrightarrow> \<exists>p'. m tag body (at_rest c rest p) = (r, c'\<lparr>pc_pool := p'\<rparr>) \<and> pool_like p' (pc_pool c)"
  shows "\<exists>p'. bnd read_message_header (\<lambda>(tag, len). bnd (pg_read_message_body len) (\<lambda>pb.
      drop_after pc_pool put_pc_pool pb (m tag (body_of pb)))) c = (r, c'\<lparr>pc_pool := p'\<rparr>) \<and> pool_like p' (pc_pool c)"
proof -
  let ?c1 = "at_rest c (body @ rest) (pc_pool c)"
  have h: "read_message_header c = (Ok (tag, length body), ?c1)"
    using header_step[OF assms(1)] assms(2,3) by simp
  obtain pb p where b: "pg_read_message_body (length body) ?c1 = (Ok pb, at_rest ?c1 rest p)" "body_of pb = body"
      "rented_ok (pool_shape (pc_pool c)) pb" "pool_like p (pc_pool c)"
    using body_step[of ?c1 body rest] assms(2,4) by (auto simp: at_rest_def)
  have c1: "at_rest ?c1 rest p = at_rest c rest p" by (simp add: at_rest_def)
  obtain p' where m: "m tag body (at_rest c rest p) = (r, c'\<lparr>pc_pool := p'\<rparr>)" "pool_like p' (pc_pool c)"
    using assms(5)[OF b(4)] by blast
  obtain q where "drop_after pc_pool put_pc_pool pb (m tag body) (at_rest c rest p) = (r, c'\<lparr>pc_pool := p'\<rparr>\<lparr>pc_pool := q\<rparr>)"
      "pool_like q (pc_pool c)"
    using pg_scope_step[where m = "m tag body" and c = "at_rest c rest p" and q = "pc_pool c", OF m(1) _ b(3)] m(2) by auto
  then show ?thesis using h b(1,2) c1 by (auto simp: bnd_def)
qed

subsection \<open>The messages of a backend that accepts\<close>

datatype startup_item = AuthOk | Announce startup_notification | KeyData backend_key_data

fun item_message :: "startup_item \<Rightarrow> u8 \<times> bytes" where
  "item_message AuthOk = (0x52, to_be32 0)"
| "item_message (Announce n) = notification_frame n"
| "item_message (KeyData k) = (0x4B, to_be32 (bk_pid k) @ to_be32 (bk_secret k))"

definition item_frame :: "startup_item \<Rightarrow> bytes" where
  "item_frame i = frame (fst (item_message i)) (snd (item_message i))"

fun good_item :: "startup_item \<Rightarrow> bool" where
  "good_item (Announce (ParameterStatus name v)) \<longleftrightarrow> plain_text name \<and> plain_text v"
| "good_item _ \<longleftrightarrow> True"

fun absorb :: "startup_item \<Rightarrow> pg_client \<Rightarrow> pg_client" where
  "absorb AuthOk c = c"
| "absorb (Announce n) c = c\<lparr>pc_notifications := pc_notifications c @ [n]\<rparr>"
| "absorb (KeyData k) c = c\<lparr>pc_backend_key := Some k\<rparr>"

fun announced :: "startup_item list \<Rightarrow> startup_notification list" where
  "announced [] = []"
| "announced (Announce n # is) = n # announced is"
| "announced (_ # is) = announced is"

lemma parameter_status_step:
  assumes "plain_text name" and "plain_text v"
  shows "handle_parameter_status (put_cstr (put_cstr [] name) v) c =
    (Ok (), c\<lparr>pc_notifications := pc_notifications c @ [ParameterStatus name v]\<rparr>)"
proof -
  let ?body = "put_cstr (put_cstr [] name) v"
  let ?r0 = "reader_new ?body" let ?r1 = "?r0\<lparr>pos := pos ?r0 + length name + 1\<rparr>"
  have u0: "unread ?r0 = put_cstr [] name @ put_cstr [] v @ []" by (simp add: unread_def reader_new_def put_cstr_def)
  have s0: "read_string ?r0 = (Ok name, ?r1)" and u1: "unread ?r1 = put_cstr [] v @ []"
    using read_string_cstr[OF u0] assms(1) by (simp_all add: plain_text_def)
  obtain r2 where s1: "read_string ?r1 = (Ok v, r2)" using read_string_cstr(1)[OF u1] assms(2) by (simp add: plain_text_def)
  show ?thesis using s0 s1 by (simp add: handle_parameter_status_def bnd_def map_err_def on_reader_def prog_simps)
qed

lemma item_step:
  assumes "good_item i"
  shows "(case item_message i of (tag, body) \<Rightarrow> handle_backend_message C N rnd cfg tag body c) = (Ok False, absorb i c)"
proof (cases i)
  case AuthOk
  then show ?thesis
    using be32_at_to_be32[of 0 "[]"] by (simp add: handle_backend_message_def handle_auth_request_def bnd_def prog_simps to_be32_length)
next
  case (Announce n)
  then show ?thesis
    using assms by (cases n) (simp_all add: handle_backend_message_def bnd_def prog_simps parameter_status_step)
next
  case (KeyData k)
  have "be32_at (drop 4 (to_be32 (bk_pid k) @ to_be32 (bk_secret k))) = bk_secret k"
    using be32_at_to_be32[of "bk_secret k" "[]"] by (simp add: to_be32_length)
  then show ?thesis
    using KeyData be32_at_to_be32[of "bk_pid k"] by (simp add: handle_backend_message_def bnd_def prog_simps to_be32_length)
qed

lemma absorb_pool: "absorb i (at_rest c rest p) = (at_rest (absorb i c) rest p)"
  "absorb i (c\<lparr>pc_pool := p\<rparr>) = (absorb i c)\<lparr>pc_pool := p\<rparr>"
  by (cases i; simp add: at_rest_def)+

lemma absorb_keeps: "pc_pool (absorb i c) = pc_pool c" "pc_link (absorb i c) = pc_link c"
  by (cases i; simp)+

lemma fold_absorb:
  "pc_notifications (fold absorb is c) = pc_notifications c @ announced is"
  "pc_verified (fold absorb is c) = pc_verified c" "pc_host (fold absorb is c) = pc_host c"
  by (induction "is" arbitrary: c rule: announced.induct) simp_all

lemma handshake_item:
  assumes "good_item i" and "lk_rx (pc_link c) = item_frame i @ rest" and "length (snd (item_message i)) \<le> max_capacity (pc_pool c)"
    and "max_capacity (pc_pool c) < 2 ^ 30" and "pool_inv (pc_pool c)"
  shows "\<exists>p. handshake_step C N rnd cfg c = (Ok False, at_rest (absorb i c) rest p) \<and> pool_like p (pc_pool c)"
proof -
  obtain tag body where m: "item_message i = (tag, body)" by fastforce
  have "handle_backend_message C N rnd cfg tag body (at_rest c rest p) = (Ok False, (at_rest (absorb i c) rest p)\<lparr>pc_pool := p\<rparr>)" for p
    using item_step[OF assms(1), of C N rnd cfg "at_rest c rest p"] m absorb_pool(1)[of i c rest p] by (simp add: at_rest_def)
  then have run: "\<exists>p'. handle_backend_message C N rnd cfg tag body (at_rest c rest p) =
      (Ok False, (at_rest (absorb i c) rest (pc_pool c))\<lparr>pc_pool := p'\<rparr>) \<and> pool_like p' (pc_pool c)"
    if "pool_like p (pc_pool c)" for p
    using that by (auto simp: at_rest_def)
  have rx: "lk_rx (pc_link c) = frame tag body @ rest" using assms(2) m by (simp add: item_frame_def)
  have "length body \<le> max_capacity (pc_pool c)" using assms(3) m by simp
  from framed_step[where m = "handle_backend_message C N rnd cfg", OF rx this assms(4,5) run]
  show ?thesis by (simp add: handshake_step_def at_rest_pool)
qed

lemma handshake_ready:
  assumes "lk_rx (pc_link c) = frame 0x5A [status] @ rest" and "1 \<le> max_capacity (pc_pool c)"
    and "max_capacity (pc_pool c) < 2 ^ 30" and "pool_inv (pc_pool c)"
  shows "\<exists>p. handshake_step C N rnd cfg c = (Ok True, at_rest (c\<lparr>pc_ready_status := Some status\<rparr>) rest p) \<and> pool_like p (pc_pool c)"
proof -
  have run: "\<exists>p'. handle_backend_message C N rnd cfg 0x5A [status] (at_rest c rest p) =
      (Ok True, (at_rest (c\<lparr>pc_ready_status := Some status\<rparr>) rest (pc_pool c))\<lparr>pc_pool := p'\<rparr>) \<and> pool_like p' (pc_pool c)"
    if "pool_like p (pc_pool c)" for p
    by (rule exI[of _ p]) (use that in \<open>simp add: handle_backend_message_def bnd_def prog_simps at_rest_def\<close>)
  have "length [status] \<le> max_capacity (pc_pool c)" using assms(2) by simp
  from framed_step[where m = "handle_backend_message C N rnd cfg", OF assms(1) this assms(3,4) run]
  show ?thesis by (simp add: handshake_step_def at_rest_pool)
qed

lemma handshake_loop_items:
  assumes "list_all good_item is" and "lk_rx (pc_link c) = concat (map item_frame is) @ frame 0x5A [status] @ rest"
    and "\<forall>i \<in> set is. length (snd (item_message i)) \<le> max_capacity (pc_pool c)" and "1 \<le> max_capacity (pc_pool c)"
    and "max_capacity (pc_pool c) < 2 ^ 30" and "pool_inv (pc_pool c)" and "length is < n"
  shows "\<exists>p. handshake_loop n C N rnd cfg c = (Ok (), at_rest ((fold absorb is c)\<lparr>pc_ready_status := Some status\<rparr>) rest p)
    \<and> pool_like p (pc_pool c)"
  using assms
proof (induction "is" arbitrary: c n)
  case Nil
  then obtain m where n: "n = Suc m" by (cases n) auto
  have "\<exists>p. handshake_step C N rnd cfg c = (Ok True, at_rest (c\<lparr>pc_ready_status := Some status\<rparr>) rest p) \<and> pool_like p (pc_pool c)"
    by (rule handshake_ready) (use Nil in auto)
  then show ?case by (auto simp: n bnd_def prog_simps)
next
  case (Cons i "is")
  then obtain m where n: "n = Suc m" by (cases n) auto
  let ?more = "concat (map item_frame is) @ frame 0x5A [status] @ rest"
  have "\<exists>p. handshake_step C N rnd cfg c = (Ok False, at_rest (absorb i c) ?more p) \<and> pool_like p (pc_pool c)"
    by (rule handshake_item) (use Cons.prems in auto)
  then obtain p where p: "handshake_step C N rnd cfg c = (Ok False, at_rest (absorb i c) ?more p)" "pool_like p (pc_pool c)"
    by blast
  let ?c = "at_rest (absorb i c) ?more p"
  have cap: "max_capacity (pc_pool ?c) = max_capacity (pc_pool c)" "pool_inv (pc_pool ?c)"
    using pool_like_capacity[OF p(2)] p(2) by (simp_all add: at_rest_def pool_like_def)
  have "\<exists>q. handshake_loop m C N rnd cfg ?c = (Ok (), at_rest ((fold absorb is ?c)\<lparr>pc_ready_status := Some status\<rparr>) rest q)
      \<and> pool_like q (pc_pool ?c)"
    by (rule Cons.IH) (use Cons.prems cap n in \<open>auto simp: at_rest_def\<close>)
  then obtain q where q: "handshake_loop m C N rnd cfg ?c = (Ok (), at_rest ((fold absorb is ?c)\<lparr>pc_ready_status := Some status\<rparr>) rest q)"
      "pool_like q (pc_pool ?c)" by blast
  have "fold absorb is (at_rest c' x p') = at_rest (fold absorb is c') x p'" for c' x p'
    by (induction "is" arbitrary: c') (simp_all add: absorb_pool)
  then have "at_rest ((fold absorb is ?c)\<lparr>pc_ready_status := Some status\<rparr>) rest q =
      at_rest ((fold absorb (i # is) c)\<lparr>pc_ready_status := Some status\<rparr>) rest q"
    by (simp add: at_rest_def)
  then show ?case
    using p q pool_like_trans[OF _ p(2), of q] by (auto simp: n bnd_def at_rest_def)
qed

subsection \<open>The SASL exchange\<close>

lemma pg_write_open:
  "lk_left (pc_link c) = None \<Longrightarrow> pg_write_message tag body c =
     (Ok (), c\<lparr>pc_link := (pc_link c)\<lparr>lk_tx := lk_tx (pc_link c) @ [frame tag body]\<rparr>\<rparr>)"
  by (simp add: pg_write_message_def pg_write_raw_def on_link_def ts_write_all_def link_write_def map_err_def frame_def add.commute)

lemma auth_data_step:
  assumes "lk_rx (pc_link c) = frame 0x52 (to_be32 code @ data) @ rest"
    and "length data + 4 \<le> max_capacity (pc_pool c)" and "max_capacity (pc_pool c) < 2 ^ 30" and "pool_inv (pc_pool c)"
  shows "\<exists>p. read_authentication_data N code c = (Ok data, at_rest c rest p) \<and> pool_like p (pc_pool c)"
proof -
  let ?m = "\<lambda>tag payload.
       if tag = 0x45 then throw (backend_error payload)
       else if tag \<noteq> 0x52 then
         throw (PgProtocol (''expected an authentication message, got '' @ net_debug_byte N tag))
       else if length payload < 4 then
         throw (PgProtocol ''authentication message is shorter than its sub-code'')
       else
         (let auth_type = be32_at payload in
          if auth_type \<noteq> code then
            throw (PgProtocol (''expected authentication sub-code '' @ show_u32 code @ '', got '' @ show_u32 auth_type))
          else ret (drop 4 payload))"
  let ?body = "to_be32 code @ data"
  have len: "length ?body \<le> max_capacity (pc_pool c)" using assms(2) by (simp add: to_be32_length)
  have run: "\<exists>p'. ?m 0x52 ?body (at_rest c rest p) = (Ok data, (at_rest c rest (pc_pool c))\<lparr>pc_pool := p'\<rparr>) \<and> pool_like p' (pc_pool c)"
    if "pool_like p (pc_pool c)" for p
    by (rule exI[of _ p]) (use that in \<open>simp add: be32_at_to_be32 to_be32_length prog_simps at_rest_def\<close>)
  from framed_step[where m = ?m, OF assms(1) len assms(3,4) run]
  show ?thesis by (simp add: read_authentication_data_def Let_def at_rest_pool)
qed

definition sasl_client :: "crypto \<Rightarrow> (nat \<Rightarrow> bytes) \<Rightarrow> pg_config \<Rightarrow> sasl_mechanism \<Rightarrow> pg_client \<Rightarrow> scram_client" where
  "sasl_client C rnd cfg chosen c =
     client_for C rnd cfg (pc_draws c) (if chosen = ScramSha256Plus then map_option cbind_input (pc_cert_hash c) else None)"

lemma select_scram_step:
  assumes "select_mechanism mode (pc_cert_hash c \<noteq> None) ms = Inr chosen"
  shows "select_scram C rnd cfg chosen c = (Ok (sasl_client C rnd cfg chosen c), c\<lparr>pc_draws := pc_draws c + 1\<rparr>)"
proof -
  have "pc_cert_hash c \<noteq> None" if "chosen = ScramSha256Plus"
    using assms that by (cases mode) (auto simp: select_mechanism_def split: if_splits)
  then show ?thesis
    by (auto simp: select_scram_def sasl_client_def client_for_def bnd_def prog_simps Let_def split: option.splits)
qed

definition sasl_first_frame :: "sasl_mechanism \<Rightarrow> scram_client \<Rightarrow> bytes" where
  "sasl_first_frame chosen cl = frame 0x70 (sasl_initial_body (mechanism_name chosen) (client_first_message cl))"

lemma sasl_step:
  assumes "lk_rx (pc_link c) = frame 0x52 (to_be32 11 @ as_bytes s1) @ frame 0x52 (to_be32 12 @ as_bytes s2) @ rest"
    and "select_mechanism (channel_binding (cf_tls cfg)) (pc_cert_hash c \<noteq> None) ms = Inr chosen"
    and "cl = sasl_client C rnd cfg chosen c"
    and "client_final_message C s1 (cf_salt cfg) (cf_iterations cfg) cl = (Ok c2, cl')" and "verify_server_final C cl' s2 = Inr verified"
    and "utf8_valid (as_bytes s1)" and "utf8_valid (as_bytes s2)" and "lk_left (pc_link c) = None"
    and "length s1 + 4 \<le> max_capacity (pc_pool c)" and "length s2 + 4 \<le> max_capacity (pc_pool c)"
    and "max_capacity (pc_pool c) < 2 ^ 30" and "pool_inv (pc_pool c)"
  shows "\<exists>p. handle_sasl C N rnd cfg (mechanism_list ms) c = (Ok (), c\<lparr>pc_draws := pc_draws c + 1, pc_verified := verified, pc_pool := p,
      pc_link := (pc_link c)\<lparr>lk_rx := rest, lk_tx := lk_tx (pc_link c) @ [sasl_first_frame chosen cl, frame 0x70 (as_bytes c2)]\<rparr>\<rparr>)
    \<and> pool_like p (pc_pool c)"
proof -
  let ?rx = "frame 0x52 (to_be32 12 @ as_bytes s2) @ rest"
  let ?c1 = "c\<lparr>pc_draws := pc_draws c + 1, pc_link := (pc_link c)\<lparr>lk_tx := lk_tx (pc_link c) @ [sasl_first_frame chosen cl]\<rparr>\<rparr>"
  have "\<exists>p. read_authentication_data N 11 ?c1 = (Ok (as_bytes s1), at_rest ?c1 ?rx p) \<and> pool_like p (pc_pool ?c1)"
    by (rule auth_data_step) (use assms in \<open>simp_all add: length_as_bytes\<close>)
  then obtain p where p: "read_authentication_data N 11 ?c1 = (Ok (as_bytes s1), at_rest ?c1 ?rx p)" "pool_like p (pc_pool c)"
    by auto
  let ?c2 = "(at_rest ?c1 ?rx p)\<lparr>pc_link := (pc_link ?c1)\<lparr>lk_rx := ?rx, lk_tx := lk_tx (pc_link ?c1) @ [frame 0x70 (as_bytes c2)]\<rparr>\<rparr>"
  have "\<exists>q. read_authentication_data N 12 ?c2 = (Ok (as_bytes s2), at_rest ?c2 rest q) \<and> pool_like q (pc_pool ?c2)"
    by (rule auth_data_step)
       (use assms(10,11) p(2) pool_like_capacity[OF p(2)] in \<open>simp_all add: length_as_bytes at_rest_def pool_like_def\<close>)
  then obtain q where q: "read_authentication_data N 12 ?c2 = (Ok (as_bytes s2), at_rest ?c2 rest q)" "pool_like q (pc_pool c)"
    using pool_like_trans[OF _ p(2)] by (auto simp: at_rest_def)
  have ms: "ms \<noteq> []" using assms(2) by (cases "channel_binding (cf_tls cfg)") (auto simp: select_mechanism_def split: if_splits)
  have w1: "pg_write_message 0x70 (put_cstr [] (mechanism_name chosen) @ to_be32 (of_nat (length (client_first_message cl)))
      @ as_bytes (client_first_message cl)) (c\<lparr>pc_draws := pc_draws c + 1\<rparr>) = (Ok (), ?c1)"
    using assms(8) by (simp add: pg_write_open sasl_first_frame_def sasl_initial_body_def)
  have w2: "pg_write_message 0x70 (as_bytes c2) (at_rest ?c1 ?rx p) = (Ok (), ?c2)"
    using assms(8) by (simp add: pg_write_open at_rest_def)
  have sel: "select_scram C rnd cfg chosen c = (Ok cl, c\<lparr>pc_draws := pc_draws c + 1\<rparr>)"
    using select_scram_step[OF assms(2)] assms(3) by simp
  have "handle_sasl C N rnd cfg (mechanism_list ms) c = (Ok (), (at_rest ?c2 rest q)\<lparr>pc_verified := verified\<rparr>)"
    using ms sel w1 p(1) w2 q(1) assms(2,4-7)
    by (simp add: handle_sasl_def parse_mechanism_list Let_def bnd_def prog_simps from_utf8_as_bytes)
  then show ?thesis using q(2) by (intro exI[of _ q]) (simp add: at_rest_def)
qed

lemma sasl_message_step:
  assumes "lk_rx (pc_link c) = frame 0x52 (to_be32 10 @ mechanism_list ms) @ later"
    and "later = frame 0x52 (to_be32 11 @ as_bytes s1) @ frame 0x52 (to_be32 12 @ as_bytes s2) @ rest"
    and "select_mechanism (channel_binding (cf_tls cfg)) (pc_cert_hash c \<noteq> None) ms = Inr chosen"
    and "cl = sasl_client C rnd cfg chosen c"
    and "client_final_message C s1 (cf_salt cfg) (cf_iterations cfg) cl = (Ok c2, cl')" and "verify_server_final C cl' s2 = Inr verified"
    and "utf8_valid (as_bytes s1)" and "utf8_valid (as_bytes s2)" and "lk_left (pc_link c) = None"
    and "length (mechanism_list ms) + 4 \<le> max_capacity (pc_pool c)"
    and "length s1 + 4 \<le> max_capacity (pc_pool c)" and "length s2 + 4 \<le> max_capacity (pc_pool c)"
    and "max_capacity (pc_pool c) < 2 ^ 30" and "pool_inv (pc_pool c)"
  shows "\<exists>p. handshake_step C N rnd cfg c = (Ok False, c\<lparr>pc_draws := pc_draws c + 1, pc_verified := verified, pc_pool := p,
      pc_link := (pc_link c)\<lparr>lk_rx := rest, lk_tx := lk_tx (pc_link c) @ [sasl_first_frame chosen cl, frame 0x70 (as_bytes c2)]\<rparr>\<rparr>)
    \<and> pool_like p (pc_pool c)"
proof -
  let ?body = "to_be32 10 @ mechanism_list ms"
  let ?done = "\<lambda>p. c\<lparr>pc_draws := pc_draws c + 1, pc_verified := verified, pc_pool := p,
      pc_link := (pc_link c)\<lparr>lk_rx := rest, lk_tx := lk_tx (pc_link c) @ [sasl_first_frame chosen cl, frame 0x70 (as_bytes c2)]\<rparr>\<rparr>"
  have len: "length ?body \<le> max_capacity (pc_pool c)" using assms(10) by (simp add: to_be32_length)
  have run: "\<exists>p'. handle_backend_message C N rnd cfg 0x52 ?body (at_rest c later p) = (Ok False, (?done (pc_pool c))\<lparr>pc_pool := p'\<rparr>)
      \<and> pool_like p' (pc_pool c)" if p: "pool_like p (pc_pool c)" for p
  proof -
    have "\<exists>q. handle_sasl C N rnd cfg (mechanism_list ms) (at_rest c later p) = (Ok (), (at_rest c later p)\<lparr>pc_draws := pc_draws (at_rest c later p) + 1,
        pc_verified := verified, pc_pool := q, pc_link := (pc_link (at_rest c later p))\<lparr>lk_rx := rest,
        lk_tx := lk_tx (pc_link (at_rest c later p)) @ [sasl_first_frame chosen cl, frame 0x70 (as_bytes c2)]\<rparr>\<rparr>)
      \<and> pool_like q (pc_pool (at_rest c later p))"
      by (rule sasl_step[where ?s1.0 = s1 and ?s2.0 = s2 and cl' = cl'])
         (use assms p pool_like_capacity[OF p] in \<open>simp_all add: at_rest_def pool_like_def sasl_client_def\<close>)
    then obtain q where q: "handle_sasl C N rnd cfg (mechanism_list ms) (at_rest c later p) = (Ok (), ?done q)" "pool_like q (pc_pool c)"
      using pool_like_trans[OF _ p] by (auto simp: at_rest_def)
    have "handle_auth_request C N rnd cfg ?body = handle_sasl C N rnd cfg (mechanism_list ms)"
      using be32_at_to_be32[of 10 "mechanism_list ms"] by (simp add: handle_auth_request_def to_be32_length)
    then show ?thesis using q by (intro exI[of _ q]) (simp add: handle_backend_message_def bnd_def prog_simps)
  qed
  from framed_step[where m = "handle_backend_message C N rnd cfg" and c' = "?done (pc_pool c)", OF assms(1) len assms(13,14) run]
  obtain p' where "handshake_step C N rnd cfg c = (Ok False, (?done (pc_pool c))\<lparr>pc_pool := p'\<rparr>)" "pool_like p' (pc_pool c)"
    unfolding handshake_step_def by blast
  then show ?thesis by (intro exI[of _ p']) simp
qed

lemma items_fuel: "length is \<le> length (concat (map item_frame is))"
  by (induction "is") (simp_all add: item_frame_def frame_def to_be32_length)

lemma login_handshake:
  assumes "lk_rx (pc_link c) = frame 0x52 (to_be32 10 @ mechanism_list ms) @ frame 0x52 (to_be32 11 @ as_bytes s1)
      @ frame 0x52 (to_be32 12 @ as_bytes s2) @ concat (map item_frame is) @ frame 0x5A [status] @ rest"
    and "select_mechanism (channel_binding (cf_tls cfg)) (pc_cert_hash c \<noteq> None) ms = Inr chosen"
    and "cl = sasl_client C rnd cfg chosen c"
    and "client_final_message C s1 (cf_salt cfg) (cf_iterations cfg) cl = (Ok c2, cl')" and "verify_server_final C cl' s2 = Inr verified"
    and "utf8_valid (as_bytes s1)" and "utf8_valid (as_bytes s2)" and "lk_left (pc_link c) = None"
    and "list_all good_item is"
    and "\<forall>n \<in> {length (mechanism_list ms) + 4, length s1 + 4, length s2 + 4, 1} \<union> (\<lambda>i. length (snd (item_message i))) ` set is.
      n \<le> max_capacity (pc_pool c)"
    and "max_capacity (pc_pool c) < 2 ^ 30" and "pool_inv (pc_pool c)"
  shows "\<exists>c'. handle_startup_handshake C N rnd cfg c = (Ok (), c') \<and> pool_like (pc_pool c') (pc_pool c) \<and> pc_verified c' = verified \<and>
    pc_notifications c' = pc_notifications c @ announced is \<and> pc_ready_status c' = Some status \<and>
    lk_rx (pc_link c') = rest \<and>
    lk_tx (pc_link c') = lk_tx (pc_link c) @ [sasl_first_frame chosen cl, frame 0x70 (as_bytes c2)]"
proof -
  let ?tail = "concat (map item_frame is) @ frame 0x5A [status] @ rest"
  let ?done = "\<lambda>p. c\<lparr>pc_draws := pc_draws c + 1, pc_verified := verified, pc_pool := p,
      pc_link := (pc_link c)\<lparr>lk_rx := ?tail, lk_tx := lk_tx (pc_link c) @ [sasl_first_frame chosen cl, frame 0x70 (as_bytes c2)]\<rparr>\<rparr>"
  have "\<exists>p. handshake_step C N rnd cfg c = (Ok False, ?done p) \<and> pool_like p (pc_pool c)"
    by (rule sasl_message_step[OF assms(1) refl assms(2-8)]) (use assms(10-12) in auto)
  then obtain p where p: "handshake_step C N rnd cfg c = (Ok False, ?done p)" "pool_like p (pc_pool c)" by blast
  have fuel: "length is < length (lk_rx (pc_link c))" using assms(1) items_fuel[of "is"] by (simp add: frame_def)
  have "\<exists>q. handshake_loop (length (lk_rx (pc_link c))) C N rnd cfg (?done p) =
      (Ok (), at_rest ((fold absorb is (?done p))\<lparr>pc_ready_status := Some status\<rparr>) rest q) \<and> pool_like q (pc_pool (?done p))"
    by (rule handshake_loop_items)
       (use assms(9-12) p(2) pool_like_capacity[OF p(2)] fuel in \<open>auto simp: pool_like_def\<close>)
  then obtain q where q: "handshake_loop (length (lk_rx (pc_link c))) C N rnd cfg (?done p) =
      (Ok (), at_rest ((fold absorb is (?done p))\<lparr>pc_ready_status := Some status\<rparr>) rest q)" "pool_like q (pc_pool c)"
    using pool_like_trans[OF _ p(2)] by auto
  have link: "pc_link (fold absorb is d) = pc_link d" for d
    by (induction "is" arbitrary: d) (simp_all add: absorb_keeps)
  show ?thesis
    using p(1) q by (simp add: handle_startup_handshake_def bnd_def at_rest_def fold_absorb link)
qed

text \<open>
  C15. The proxy completes a SASL login with a backend that answers its messages: from the request to
  \<open>ReadyForQuery\<close>, in one handshake, it sends exactly its two SCRAM messages, reads exactly the
  backend's messages, records whether the backend's signature was verified, and collects what the
  backend announced in order.
\<close>

theorem backend_login_completes:
  assumes "lk_rx (pc_link c) = frame 0x52 (to_be32 10 @ mechanism_list ms) @ frame 0x52 (to_be32 11 @ as_bytes s1)
      @ frame 0x52 (to_be32 12 @ as_bytes s2) @ concat (map item_frame is) @ frame 0x5A [status] @ rest"
    and "select_mechanism (channel_binding (cf_tls cfg)) (pc_cert_hash c \<noteq> None) ms = Inr chosen"
    and "cl = sasl_client C rnd cfg chosen c"
    and "client_final_message C s1 (cf_salt cfg) (cf_iterations cfg) cl = (Ok c2, cl')" and "verify_server_final C cl' s2 = Inr verified"
    and "utf8_valid (as_bytes s1)" and "utf8_valid (as_bytes s2)" and "lk_left (pc_link c) = None"
    and "list_all good_item is"
    and "\<forall>n \<in> {length (mechanism_list ms) + 4, length s1 + 4, length s2 + 4, 1} \<union> (\<lambda>i. length (snd (item_message i))) ` set is.
      n \<le> max_capacity (pc_pool c)"
    and "max_capacity (pc_pool c) < 2 ^ 30" and "pool_inv (pc_pool c)"
  shows "\<exists>c'. handle_startup_handshake C N rnd cfg c = (Ok (), c') \<and> pc_verified c' = verified \<and>
    pc_notifications c' = pc_notifications c @ announced is \<and> pc_ready_status c' = Some status \<and>
    lk_rx (pc_link c') = rest \<and>
    lk_tx (pc_link c') = lk_tx (pc_link c) @ [sasl_first_frame chosen cl, frame 0x70 (as_bytes c2)]"
  using login_handshake[OF assms] by blast

text \<open>
  C16. What a backend announces reaches the client unchanged: every \<open>ParameterStatus\<close> and notice the
  backend sends during its startup is sent on byte for byte and in order, followed by the minted
  cancel key in place of the backend's own, and by the backend's transaction status.
\<close>

theorem announcements_reach_the_client_unchanged:
  assumes "lk_rx (pc_link c) = concat (map item_frame is) @ frame 0x5A [status] @ rest" and "list_all good_item is"
    and "\<forall>n \<in> insert 1 ((\<lambda>i. length (snd (item_message i))) ` set is). n \<le> max_capacity (pc_pool c)"
    and "max_capacity (pc_pool c) < 2 ^ 30" and "pool_inv (pc_pool c)" and "pc_notifications c = []"
    and "cn_transport s \<noteq> EmptyLink" and "cn_writes_left s = None"
    and "session_key_new (e_key_rng E) (cn_key_pos s) = (key, i)" and "lookup_by_key (cn_registry s) key = None"
  shows "\<exists>c' s'. handle_startup_handshake C N rnd cfg c = (Ok (), c') \<and>
    publish_session E (backend_of_client c') s = (Ok Ready, s') \<and>
    cn_sent s' = cn_sent s @ map (\<lambda>bs. (cn_transport s, bs))
      (map (item_frame \<circ> Announce) (announced is) @
       [frame 0x4B (to_be32 (skey key) @ to_be32 (ssecret key)), frame 0x5A [status]])"
proof -
  have fuel: "length is < Suc (length (lk_rx (pc_link c)))" using assms(1) items_fuel[of "is"] by simp
  have "\<exists>q. handshake_loop (Suc (length (lk_rx (pc_link c)))) C N rnd cfg c =
      (Ok (), at_rest ((fold absorb is c)\<lparr>pc_ready_status := Some status\<rparr>) rest q) \<and> pool_like q (pc_pool c)"
    by (rule handshake_loop_items) (use assms(1-5) fuel in auto)
  then obtain q where q: "handle_startup_handshake C N rnd cfg c =
      (Ok (), at_rest ((fold absorb is c)\<lparr>pc_ready_status := Some status\<rparr>) rest q)"
    by (auto simp: handle_startup_handshake_def simp del: handshake_loop.simps)
  let ?b = "backend_of_client (at_rest ((fold absorb is c)\<lparr>pc_ready_status := Some status\<rparr>) rest q)"
  have b: "be_notifications ?b = announced is" "be_ready_status ?b = status"
    using assms(6) by (simp_all add: backend_of_client_def at_rest_def fold_absorb)
  have "session_frames ?b key = map (item_frame \<circ> Announce) (announced is) @
       [frame 0x4B (to_be32 (skey key) @ to_be32 (ssecret key)), frame 0x5A [status]]"
    using b by (simp add: session_frames_def item_frame_def)
  then show ?thesis
    using q publish_session_step[OF assms(7-10), of ?b] by metis
qed

end
