(* ===== verification/Conn_Ready.thy ===== *)
theory Conn_Ready
  imports Pg_Complete
begin

section \<open>A startup that succeeds\<close>

text \<open>
  The whole startup of a session, end to end: the SASL exchange with the client, the backend link and
  the announcement. The examples are in the theory of the demonstrations.
\<close>

lemma backend_accepts:
  assumes "net_connect N (cf_host cfg @ '':'' @ show_u16 (cf_port cfg)) = Inr tcp" and "try_tls C N cfg tcp = (Ok hash, l)"
    and "lk_left l = None" and "lk_rx l = concat (map item_frame is) @ frame 0x5A [status] @ rest"
    and "list_all good_item is" and "\<forall>n \<in> insert 1 ((\<lambda>i. length (snd (item_message i))) ` set is). n \<le> max_capacity p"
    and "max_capacity p < 2 ^ 30" and "pool_inv p"
  shows "\<exists>b q. backend_new C N rnd cfg p = (Ok b, q) \<and> pool_like q p \<and> be_notifications b = announced is \<and>
    be_ready_status b = status"
proof -
  let ?c = "\<lparr>pc_pool = p, pc_link = l, pc_notifications = [], pc_backend_key = None,
       pc_ready_status = None, pc_verified = False, pc_cert_hash = hash, pc_host = cf_host cfg,
       pc_port = cf_port cfg, pc_connect_timeout = cf_connect_timeout cfg, pc_draws = 0\<rparr>"
  let ?c1 = "?c\<lparr>pc_link := l\<lparr>lk_tx := lk_tx l @ [to_be32 (of_nat (4 + length (startup_body cfg))) @ startup_body cfg]\<rparr>\<rparr>"
  have w: "write_startup_message cfg ?c = (Ok (), ?c1)"
    using assms(3) by (simp add: write_startup_message_def pg_write_raw_def on_link_def ts_write_all_def link_write_def map_err_def)
  have fuel: "length is < Suc (length (lk_rx l))" using assms(4) items_fuel[of "is"] by simp
  have "\<exists>q. handshake_loop (Suc (length (lk_rx l))) C N rnd cfg ?c1 =
      (Ok (), at_rest ((fold absorb is ?c1)\<lparr>pc_ready_status := Some status\<rparr>) rest q) \<and> pool_like q (pc_pool ?c1)"
    by (rule handshake_loop_items) (use assms(4-8) fuel in auto)
  then obtain q where q: "handle_startup_handshake C N rnd cfg ?c1 =
      (Ok (), at_rest ((fold absorb is ?c1)\<lparr>pc_ready_status := Some status\<rparr>) rest q)" "pool_like q p"
    by (auto simp: handle_startup_handshake_def simp del: handshake_loop.simps)
  let ?d = "at_rest ((fold absorb is ?c1)\<lparr>pc_ready_status := Some status\<rparr>) rest q"
  have "pg_connect C N rnd cfg p = (Ok ?d, q)"
    using assms(1,2) w q(1) by (simp add: pg_connect_def bnd_def at_rest_def)
  then have "backend_new C N rnd cfg p = (Ok (backend_of_client ?d), q)" by (simp add: backend_new_def bnd_def prog_simps)
  moreover have "be_notifications (backend_of_client ?d) = announced is" "be_ready_status (backend_of_client ?d) = status"
    by (simp_all add: backend_of_client_def at_rest_def fold_absorb)
  ultimately show ?thesis using q(2) by blast
qed

lemma open_backend_step:
  assumes "cn_user s = Some user" and "cn_database s = Some database" and "e_lookup E user (cn_provider s) = (Ok (Some v), p)"
    and "backend_host_port (e_config E) = Inr (host, port)"
    and "backend_new (e_crypto E) (e_net E) (e_client_nonce E) (make_pg_config E s key v user database host port) (cn_pool s) = (Ok b, q)"
  shows "open_backend E key s = (Ok b, s\<lparr>cn_provider := p, cn_pool := q\<rparr>)"
  using assms
  by (simp add: open_backend_def bnd_def prog_simps map_err_def on_provider_def on_pool_def put_cn_pool_def)

subsection \<open>From the startup message to \<open>ReadyForQuery\<close>\<close>

lemma startup_packet_opens:
  assumes "parse_startup_message version r s0 = (Ok (), s)"
    and "pool_inv (cn_pool s)" and "cn_transport s \<noteq> EmptyLink" and "cn_writes_left s = None"
    and "cn_user s = Some user" and "user \<noteq> []" and "e_lookup E user (cn_provider s) = (Ok (Some v), p)"
    and "incoming s = frame 0x70 (sasl_initial_body mech c1) @ frame 0x70 (as_bytes c2) @ rest"
    and "utf8_valid (as_bytes c1)" and "utf8_valid (as_bytes c2)" and "4 \<le> length c2"
    and "length (sasl_initial_body mech c1) \<le> max_capacity (cn_pool s)"
    and "length c2 \<le> max_capacity (cn_pool s)" and "max_capacity (cn_pool s) < 2 ^ 31"
    and "scram = authenticator_new v (offered_cert_hash E s)"
    and "handle_client_first (e_crypto E) (e_nonce E (cn_nonce_pos s)) mech c1 user scram = (Ok s1, a)"
    and "handle_client_final (e_crypto E) c2 user a = (Ok s2, a')" and "extracted_client_key a' = Some client_key"
    and "cn_database s = Some database" and "e_lookup E user p = (Ok (Some w), p')"
    and "backend_host_port (e_config E) = Inr (host, port)"
    and "cfg = make_pg_config E s client_key w user database host port"
    and "session_key_new (e_key_rng E) (cn_key_pos s) = (key, i)" and "lookup_by_key (cn_registry s) key = None"
    and opens: "\<And>q. pool_like q (cn_pool s) \<Longrightarrow>
      \<exists>b q'. backend_new (e_crypto E) (e_net E) (e_client_nonce E) cfg q = (Ok b, q') \<and> pool_like q' q \<and> B b"
  shows "\<exists>b s'. handle_startup_packet E version r s0 = (Ok Ready, s') \<and> B b \<and>
    lookup_by_key (cn_registry s') key = Some b \<and> cn_verified s' = be_verified b \<and>
    cn_sent s' = cn_sent s @ map (\<lambda>bs. (cn_transport s, bs)) (auth_frames (mechanisms scram) s1 s2 @ session_frames b key) \<and>
    pool_like (cn_pool s') (cn_pool s)"
proof -
  obtain rbuf segments q where auth: "handle_authentication E s = (Ok (Some client_key),
      s\<lparr>cn_provider := p, cn_nonce_pos := cn_nonce_pos s + 1,
        cn_sent := cn_sent s @ map (\<lambda>bs. (cn_transport s, bs)) (auth_frames (mechanisms scram) s1 s2),
        cn_rbuf := rbuf, cn_sock := segments, cn_pool := q\<rparr>)" and q: "pool_like q (cn_pool s)"
    using authentication_step[OF assms(2-14) assms(15-17)] assms(18) by (auto simp: pool_like_def)
  let ?t = "s\<lparr>cn_provider := p, cn_nonce_pos := cn_nonce_pos s + 1,
        cn_sent := cn_sent s @ map (\<lambda>bs. (cn_transport s, bs)) (auth_frames (mechanisms scram) s1 s2),
        cn_rbuf := rbuf, cn_sock := segments, cn_pool := q\<rparr>"
  have cfg: "make_pg_config E ?t client_key w user database host port = cfg" by (simp add: assms(22) make_pg_config_def Let_def)
  obtain b q' where b: "backend_new (e_crypto E) (e_net E) (e_client_nonce E) cfg q = (Ok b, q')" "pool_like q' q" "B b"
    using opens[OF q] by blast
  let ?u = "?t\<lparr>cn_provider := p', cn_pool := q'\<rparr>"
  have opened: "open_backend E client_key ?t = (Ok b, ?u)"
    by (rule open_backend_step) (use assms(5,19-21) b(1) cfg in auto)
  obtain s' where "publish_session E b ?u = (Ok Ready, s')" "cn_pool s' = q'" "lookup_by_key (cn_registry s') key = Some b"
      "cn_verified s' = be_verified b" "cn_sent s' = cn_sent ?u @ map (\<lambda>bs. (cn_transport ?u, bs)) (session_frames b key)"
    using publish_session_step[of ?u E key i b] assms(3,4,23,24) by auto
  moreover have "pool_like q' (cn_pool s)" using pool_like_trans[OF b(2) q] .
  ultimately show ?thesis
    using assms(1) auth opened b(3) by (intro exI[of _ b] exI[of _ s']) (simp add: handle_startup_packet_def bnd_def)
qed

lemma announced_frames:
  "be_notifications b = announced is \<Longrightarrow> be_ready_status b = status \<Longrightarrow>
   session_frames b key = map (item_frame \<circ> Announce) (announced is) @
     [frame 0x4B (to_be32 (skey key) @ to_be32 (ssecret key)), frame 0x5A [status]]"
  by (simp add: session_frames_def item_frame_def)

subsection \<open>The whole startup\<close>

definition startup_frame :: "(string \<times> string) list \<Rightarrow> bytes" where
  "startup_frame ps =
     (let body = to_be32 PROTOCOL_VERSION_NUMBER @ encode_pairs ps @ [0] in to_be32 (of_nat (length body + 4)) @ body)"

definition session_database :: "params \<Rightarrow> string \<Rightarrow> string" where
  "session_database ps user = (case nonempty (map_of ps ''database'') of Some d \<Rightarrow> d | None \<Rightarrow> user)"

lemma parse_startup_step:
  assumes "unread r = encode_pairs ps @ [0]" and "list_all good_pair ps" and "cn_params s = []"
    and "merge_options (hm_extend [] ps) = Inr m" and "map_of m ''replication'' = None"
    and "map_of m ''user'' = Some user" and "user \<noteq> []"
  shows "parse_startup_message version r s = (Ok (), s\<lparr>cn_protocol_version := Some version, cn_params := m,
    cn_user := Some user, cn_database := Some (session_database m user)\<rparr>)"
proof -
  obtain r' where "read_params r [] = (Ok (True, r'), hm_extend [] ps)" "remaining r' = 0"
    using read_params_pairs[OF assms(2,1)] by blast
  then show ?thesis
    using assms(3-7)
    by (simp add: parse_startup_message_def bnd_def on_params_def prog_simps set_identity_def nonempty_def session_database_def)
qed

lemma startup_read_step:
  assumes "incoming s = startup_frame ps @ rest" and "cn_transport s \<noteq> EmptyLink" and "pool_inv (cn_pool s)"
    and "body = to_be32 PROTOCOL_VERSION_NUMBER @ encode_pairs ps @ [0]"
    and "length body \<le> max_capacity (cn_pool s)" and "length body + 4 \<le> limit" and "limit < 2 ^ 32"
  shows "\<exists>pb t. read_startup_packet limit s = (Ok pb, t) \<and> body_of pb = body \<and>
    rented_ok (pool_shape (cn_pool s)) pb \<and> incoming t = rest \<and> moved s t"
proof -
  have "incoming s = to_be32 (of_nat (length body + 4)) @ body @ rest"
    using assms(1,4) by (simp add: startup_frame_def Let_def)
  then obtain t where t: "read_message_length s = (Ok (length body), t)" "incoming t = body @ rest" "moved s t"
    using message_length_step[of s "length body + 4"] assms(2,3,6,7) by auto
  note tm = moved_facts[OF t(3)]
  have ne: "body \<noteq> []" using assms(4) by simp
  obtain pb u where u: "read_message_body (length body) t = (Ok (Some pb), u)" "body_of pb = body"
      "rented_ok (pool_shape (cn_pool t)) pb" "incoming u = rest" "moved t u"
    using message_body_step[OF t(2) ne] assms(2,5) tm by auto
  have "pool_shape (cn_pool t) = pool_shape (cn_pool s)" using t(3) by (auto simp: moved_def)
  moreover have "read_startup_packet limit s = (Ok pb, u)"
    using t(1) u(1) assms(6) by (simp add: read_startup_packet_def bnd_def prog_simps)
  ultimately show ?thesis using u moved_trans[OF t(3) u(5)] by auto
qed

lemma packet_scope:
  assumes "m s = (r, t)" and "pool_like (cn_pool t) (cn_pool s)" and "rented_ok (pool_shape (cn_pool s)) pb"
  shows "\<exists>p. drop_after cn_pool put_cn_pool pb m s = (r, put_cn_pool p t) \<and> pool_like p (cn_pool s)"
proof -
  obtain p where "pooled_drop pb (cn_pool t) = (Ok (), p)" "conn_pool.holds (pool_shape (cn_pool t)) (put_cn_pool p t)"
    using conn_pool.drop_ok[of "pool_shape (cn_pool t)" t pb] assms(2,3) by (auto simp: conn_pool.holds_def pool_like_def)
  then show ?thesis
    using assms by (auto simp: drop_after_def conn_pool.holds_def put_cn_pool_def pool_like_def)
qed

text \<open>The driver around a startup packet: framing, dispatch and the scope of the message buffer.\<close>

lemma drive_packet_step:
  assumes "incoming s = startup_frame ps @ rest" and "pool_inv (cn_pool s)" and "cn_transport s \<noteq> EmptyLink" and "\<not> cn_required_tls s"
    and "length (startup_frame ps) \<le> max_startup_bytes (limits (e_config E))" and "max_startup_bytes (limits (e_config E)) < 2 ^ 32"
    and "length (startup_frame ps) \<le> max_capacity (cn_pool s)"
    and packet: "\<And>r t. unread r = encode_pairs ps @ [0] \<Longrightarrow> incoming t = rest \<Longrightarrow> moved s t \<Longrightarrow>
      \<exists>s'. handle_startup_packet E PROTOCOL_VERSION_NUMBER r t = (Ok Ready, s') \<and> P s' \<and> pool_like (cn_pool s') (cn_pool t)"
    and stable: "\<And>p s. P (put_cn_pool p s) = P s"
  shows "\<exists>s'. drive_startup_until_ready E s = (Ok Ready, s') \<and> P s'"
proof -
  let ?body = "to_be32 PROTOCOL_VERSION_NUMBER @ encode_pairs ps @ [0]"
  have "length (startup_frame ps) = length ?body + 4" by (simp add: startup_frame_def Let_def to_be32_length)
  then have fits: "length ?body \<le> max_capacity (cn_pool s)" "length ?body + 4 \<le> max_startup_bytes (limits (e_config E))"
    using assms(5,7) by auto
  obtain pb t where t: "read_startup_packet (max_startup_bytes (limits (e_config E))) s = (Ok pb, t)" "body_of pb = ?body"
      "rented_ok (pool_shape (cn_pool s)) pb" "incoming t = rest" "moved s t"
    using startup_read_step[OF assms(1,3,2) refl fits assms(6)] by blast
  let ?r = "(reader_new ?body)\<lparr>pos := 4\<rparr>"
  have u: "unread ?r = encode_pairs ps @ [0]" by (simp add: unread_def reader_new_def to_be32_length)
  have code: "read_u32 (reader_new ?body) = (Ok PROTOCOL_VERSION_NUMBER, ?r)"
    using read_u32_to_be32[of "reader_new ?body" PROTOCOL_VERSION_NUMBER "encode_pairs ps @ [0]"]
    by (simp add: unread_def reader_new_def)
  obtain s' where s': "handle_startup_packet E PROTOCOL_VERSION_NUMBER ?r t = (Ok Ready, s')" "P s'"
      "pool_like (cn_pool s') (cn_pool t)"
    using packet[OF u t(4,5)] by blast
  have sh: "pool_shape (cn_pool t) = pool_shape (cn_pool s)" "\<not> cn_required_tls t" using t(5) assms(4) by (auto simp: moved_def)
  have dispatch: "startup_dispatch E ?body t = (Ok Ready, s')"
    using code s'(1) sh(2) by (simp add: startup_dispatch_def bnd_def on_reader_def prog_simps startup_codes)
  obtain p where "drop_after cn_pool put_cn_pool pb (startup_dispatch E ?body) t = (Ok Ready, put_cn_pool p s')"
    using packet_scope[where m = "startup_dispatch E ?body" and s = t, OF dispatch s'(3)] t(3) sh(1) by auto
  then have "handle_startup E s = (Ok Ready, put_cn_pool p s')"
    using t(1,2) by (simp add: handle_startup_def bnd_def)
  then have "drive (Suc n) E s = (Ok Ready, put_cn_pool p s')" for n by simp
  from this[of 2] have "drive_startup_until_ready E s = (Ok Ready, put_cn_pool p s')"
    by (simp add: drive_startup_until_ready_def)
  then show ?thesis using s'(2) stable by blast
qed

text \<open>A session whose backend opens, whatever opening it takes.\<close>

lemma startup_opens:
  assumes "incoming s = startup_frame ps @ frame 0x70 (sasl_initial_body mech c1) @ frame 0x70 (as_bytes c2) @ rest"
    and "list_all good_pair ps" and "merge_options (hm_extend [] ps) = Inr m" and "map_of m ''replication'' = None"
    and "map_of m ''user'' = Some user" and "user \<noteq> []" and "cn_params s = []" and "\<not> cn_required_tls s"
    and "pool_inv (cn_pool s)" and "cn_transport s \<noteq> EmptyLink" and "cn_writes_left s = None"
    and "length (startup_frame ps) \<le> max_startup_bytes (limits (e_config E))" and "max_startup_bytes (limits (e_config E)) < 2 ^ 32"
    and "\<forall>n \<in> {length (startup_frame ps), length (sasl_initial_body mech c1), length c2}. n \<le> max_capacity (cn_pool s)"
    and "max_capacity (cn_pool s) < 2 ^ 31"
    and "e_lookup E user (cn_provider s) = (Ok (Some v), p)" and "e_lookup E user p = (Ok (Some w), p')"
    and "utf8_valid (as_bytes c1)" and "utf8_valid (as_bytes c2)" and "4 \<le> length c2"
    and "scram = authenticator_new v (offered_cert_hash E s)"
    and "handle_client_first (e_crypto E) (e_nonce E (cn_nonce_pos s)) mech c1 user scram = (Ok s1, a)"
    and "handle_client_final (e_crypto E) c2 user a = (Ok s2, a')" and "extracted_client_key a' = Some client_key"
    and "backend_host_port (e_config E) = Inr (host, port)"
    and "cfg = make_pg_config E (s\<lparr>cn_params := m\<rparr>) client_key w user (session_database m user) host port"
    and "session_key_new (e_key_rng E) (cn_key_pos s) = (key, i)" and "lookup_by_key (cn_registry s) key = None"
    and opens: "\<And>q. pool_like q (cn_pool s) \<Longrightarrow>
      \<exists>b q'. backend_new (e_crypto E) (e_net E) (e_client_nonce E) cfg q = (Ok b, q') \<and> pool_like q' q \<and> B b"
  shows "\<exists>s'. drive_startup_until_ready E s = (Ok Ready, s') \<and> (\<exists>b. B b \<and> lookup_by_key (cn_registry s') key = Some b \<and>
    cn_verified s' = be_verified b \<and>
    cn_sent s' = cn_sent s @ map (\<lambda>bs. (cn_transport s, bs)) (auth_frames (mechanisms scram) s1 s2 @ session_frames b key))"
proof (rule drive_packet_step[OF assms(1,9,10,8,12,13)])
  show "length (startup_frame ps) \<le> max_capacity (cn_pool s)" using assms(14) by simp
next
  fix r t
  assume u: "unread r = encode_pairs ps @ [0]"
    and t: "incoming t = frame 0x70 (sasl_initial_body mech c1) @ frame 0x70 (as_bytes c2) @ rest" "moved s t"
  obtain rb sk q where e: "t = s\<lparr>cn_rbuf := rb, cn_sock := sk, cn_pool := q\<rparr>" "pool_like q (cn_pool s)"
    using t(2) by (auto simp: moved_def pool_like_def)
  have cap: "max_capacity q = max_capacity (cn_pool s)" using pool_like_capacity[OF e(2)] .
  let ?u = "t\<lparr>cn_protocol_version := Some PROTOCOL_VERSION_NUMBER, cn_params := m, cn_user := Some user,
    cn_database := Some (session_database m user)\<rparr>"
  have parse: "parse_startup_message PROTOCOL_VERSION_NUMBER r t = (Ok (), ?u)"
    by (rule parse_startup_step[OF u assms(2) _ assms(3-6)]) (use assms(7) e(1) in simp)
  have inu: "incoming ?u = frame 0x70 (sasl_initial_body mech c1) @ frame 0x70 (as_bytes c2) @ rest"
    using t(1) by (simp add: incoming_def)
  have cfg: "cfg = make_pg_config E ?u client_key w user (session_database m user) host port"
    using assms(26) e(1) by (simp add: make_pg_config_def)
  have "\<exists>b s'. handle_startup_packet E PROTOCOL_VERSION_NUMBER r t = (Ok Ready, s') \<and> B b \<and>
    lookup_by_key (cn_registry s') key = Some b \<and> cn_verified s' = be_verified b \<and>
    cn_sent s' = cn_sent ?u @ map (\<lambda>bs. (cn_transport ?u, bs)) (auth_frames (mechanisms scram) s1 s2 @ session_frames b key) \<and>
    pool_like (cn_pool s') (cn_pool ?u)"
  proof (rule startup_packet_opens[OF parse _ _ _ _ assms(6) _ inu assms(18-20) _ _ _ _ _ assms(23,24) _ assms(17,25) cfg])
    fix q' assume "pool_like q' (cn_pool ?u)"
    then show "\<exists>b q''. backend_new (e_crypto E) (e_net E) (e_client_nonce E) cfg q' = (Ok b, q'') \<and> pool_like q'' q' \<and> B b"
      using opens[of q'] pool_like_trans[OF _ e(2)] e(1) by simp
  qed (use assms e cap in \<open>auto simp: offered_cert_hash_def pool_like_def\<close>)
  then show "\<exists>s'. handle_startup_packet E PROTOCOL_VERSION_NUMBER r t = (Ok Ready, s') \<and> (\<exists>b. B b \<and>
      lookup_by_key (cn_registry s') key = Some b \<and> cn_verified s' = be_verified b \<and>
      cn_sent s' = cn_sent s @ map (\<lambda>bs. (cn_transport s, bs)) (auth_frames (mechanisms scram) s1 s2 @ session_frames b key)) \<and>
      pool_like (cn_pool s') (cn_pool t)"
    using e(1) by auto
qed (simp add: put_cn_pool_def)

text \<open>
  C9. A client that speaks the protocol is let in: a startup message with its parameters, a SASL exchange
  the authenticator accepts and a backend that accepts the proxy's login lead the driver to \<open>Ready\<close>. The client
  is sent exactly the four authentication messages, what the backend announced, the cancel key and
  \<open>ReadyForQuery\<close> with the backend's status, in that order.
\<close>

theorem valid_startup_becomes_ready:
  assumes "incoming s = startup_frame ps @ frame 0x70 (sasl_initial_body mech c1) @ frame 0x70 (as_bytes c2) @ rest"
    and "list_all good_pair ps" and "merge_options (hm_extend [] ps) = Inr m" and "map_of m ''replication'' = None"
    and "map_of m ''user'' = Some user" and "user \<noteq> []" and "cn_params s = []" and "\<not> cn_required_tls s"
    and "pool_inv (cn_pool s)" and "cn_transport s \<noteq> EmptyLink" and "cn_writes_left s = None"
    and "length (startup_frame ps) \<le> max_startup_bytes (limits (e_config E))" and "max_startup_bytes (limits (e_config E)) < 2 ^ 32"
    and "\<forall>n \<in> {length (startup_frame ps), length (sasl_initial_body mech c1), length c2, 1} \<union>
      (\<lambda>i. length (snd (item_message i))) ` set is. n \<le> max_capacity (cn_pool s)" and "max_capacity (cn_pool s) < 2 ^ 30"
    and "e_lookup E user (cn_provider s) = (Ok (Some v), p)" and "e_lookup E user p = (Ok (Some w), p')"
    and "utf8_valid (as_bytes c1)" and "utf8_valid (as_bytes c2)" and "4 \<le> length c2"
    and "scram = authenticator_new v (offered_cert_hash E s)"
    and "handle_client_first (e_crypto E) (e_nonce E (cn_nonce_pos s)) mech c1 user scram = (Ok s1, a)"
    and "handle_client_final (e_crypto E) c2 user a = (Ok s2, a')" and "extracted_client_key a' = Some client_key"
    and "backend_host_port (e_config E) = Inr (host, port)"
    and "cfg = make_pg_config E (s\<lparr>cn_params := m\<rparr>) client_key w user (session_database m user) host port"
    and "net_connect (e_net E) (host @ '':'' @ show_u16 port) = Inr tcp" and "try_tls (e_crypto E) (e_net E) cfg tcp = (Ok hash, l)"
    and "lk_left l = None" and "lk_rx l = concat (map item_frame is) @ frame 0x5A [status] @ later" and "list_all good_item is"
    and "session_key_new (e_key_rng E) (cn_key_pos s) = (key, i)" and "lookup_by_key (cn_registry s) key = None"
  shows "\<exists>s'. drive_startup_until_ready E s = (Ok Ready, s') \<and>
    cn_sent s' = cn_sent s @ map (\<lambda>bs. (cn_transport s, bs)) (auth_frames (mechanisms scram) s1 s2 @
      map (item_frame \<circ> Announce) (announced is) @
      [frame 0x4B (to_be32 (skey key) @ to_be32 (ssecret key)), frame 0x5A [status]])"
proof -
  have "\<exists>s'. drive_startup_until_ready E s = (Ok Ready, s') \<and> (\<exists>b. (be_notifications b = announced is \<and> be_ready_status b = status) \<and>
    lookup_by_key (cn_registry s') key = Some b \<and> cn_verified s' = be_verified b \<and>
    cn_sent s' = cn_sent s @ map (\<lambda>bs. (cn_transport s, bs)) (auth_frames (mechanisms scram) s1 s2 @ session_frames b key))"
  proof (rule startup_opens[OF assms(1-13) _ _ assms(16-26) assms(32,33)])
    fix q assume "pool_like q (cn_pool s)"
    moreover have "cf_host cfg = host" "cf_port cfg = port" by (simp_all add: assms(26) make_pg_config_def Let_def)
    ultimately show "\<exists>b q'. backend_new (e_crypto E) (e_net E) (e_client_nonce E) cfg q = (Ok b, q') \<and> pool_like q' q \<and>
        be_notifications b = announced is \<and> be_ready_status b = status"
      using assms(14,15,27-31) pool_like_capacity[of q "cn_pool s"] by (intro backend_accepts) (auto simp: pool_like_def)
  qed (use assms(14,15) in auto)
  then show ?thesis using announced_frames by fastforce
qed

end
