(* ===== verification/Credential_Source.thy ===== *)
theory Credential_Source
  imports Verifier
begin

section \<open>What a session relies on (the trait \<open>VerifierProvider\<close> of \<open>auth/verifier.rs\<close>)\<close>

text \<open>
  The contract between the authentication of a client and the credential store: a lookup ends in one of three
  ways, a verifier, no such user, or an error; a verifier it returns is that of a real user; the dummy of an
  unknown user is marked as one, is the same on every attempt and looks like a verifier. The store interprets
  the locale, the server theory applies it to sessions.
\<close>

locale credential_source =
  fixes look_up :: "string \<Rightarrow> ('s, verifier option, provider_error) prog"
    and dummy :: "'s \<Rightarrow> string \<Rightarrow> verifier"
    and wf :: "'s \<Rightarrow> bool"
  assumes look_up_total: "fst (look_up user s) \<notin> {Panic, Pending}"
    and look_up_wf: "wf s \<Longrightarrow> wf (snd (look_up user s))"
    and look_up_real: "wf s \<Longrightarrow> fst (look_up user s) = Ok (Some v) \<Longrightarrow> \<not> v_dummy v"
    and dummy_marked: "v_dummy (dummy s user)"
    and dummy_stable: "dummy (snd (look_up user' s)) user = dummy s user"
begin

text \<open>After any number of lookups.\<close>

lemma lookups_keep:
  assumes "wf s"
  shows "wf (fold (\<lambda>user s. snd (look_up user s)) users s) \<and>
    dummy (fold (\<lambda>user s. snd (look_up user s)) users s) user = dummy s user"
  using assms by (induction users arbitrary: s) (simp_all add: look_up_wf dummy_stable)

lemma later_answer_is_real:
  assumes "wf s" and "look_up user (fold (\<lambda>user s. snd (look_up user s)) users s) = (Ok (Some v), t)"
  shows "\<not> v_dummy v \<and> v \<noteq> dummy s user"
proof -
  let ?t = "fold (\<lambda>user s. snd (look_up user s)) users s"
  have "\<not> v_dummy v" using look_up_real[of ?t user v] lookups_keep[OF assms(1)] assms(2) by simp
  then show ?thesis using dummy_marked by metis
qed

end

end
