(* ===== verification/Conn_Source.thy ===== *)
theory Conn_Source
  imports Conn_Ready Credential_Source
begin

section \<open>Sessions on a credential source\<close>

text \<open>
  What the contract of a credential source gives a session: a session whose lookups and dummies are those of the
  source has a well-behaved environment, and it becomes ready only for a user the source returned. These are the
  client's lemmas of the locale \<open>credential_source\<close>, proved once for every source.
\<close>

definition tls_total :: "frontend_tls option \<Rightarrow> bool" where
  "tls_total tls \<longleftrightarrow> (\<forall>t segments eof. tls = Some t \<longrightarrow> ft_accept t segments eof \<noteq> Panic)"

context credential_source
begin

lemma session_env_ok:
  assumes "e_lookup E = look_up" and "tls_total (e_tls E)"
  shows "env_ok E"
  using look_up_total assms by (simp add: env_ok_def tls_total_def)

lemma session_ready:
  assumes "e_lookup E = look_up" and "e_dummy E = dummy" and "crypto_laws (e_crypto E)"
    and "handle_startup_packet E version r s = (Ok Ready, s')"
  shows "\<exists>user v key p p'. cn_user s' = Some user \<and> user \<noteq> [] \<and> look_up user p = (Ok (Some v), p') \<and> \<not> v_dummy v \<and>
    scram_accepted (e_crypto E) user v key \<and> sha256 (e_crypto E) key = v_stored_key v"
  using ready_authenticated[OF assms(3) _ assms(4)] dummy_marked assms(1,2) by auto

end

end
