(* ===== verification/Store.thy ===== *)
theory Store
  imports Credential_File Auth_Query Metrics Conn_Source
begin

section \<open>The credential store (\<open>auth/credentials/store.rs\<close>)\<close>

text \<open>
  A store is a source, the current snapshot behind an atomic swap, the error of the last reload, the nonce
  of the dummy verifiers and the counters. The clones of a store and its reload handles share one \<open>Inner\<close>,
  which is the record \<open>store\<close>. The file system is the parameter \<open>read\<close>, the content of a path at the time of the
  call; the salts drawn so far are counted in the store. A generation is a \<open>u64\<close> that wraps around.
  The last part splits a reload into its atomic steps and runs several of them at once.
\<close>

datatype source = File string | Memory | Failing string | AuthQuery auth_query_source

record store =
  st_source :: source
  st_snapshot :: snapshot
  st_cluster_nonce :: bytes
  st_last_error :: "config_error option"
  st_metrics :: credential_metrics
  st_salts :: nat

record reload_report =
  rr_user_count :: nat
  rr_previous_generation :: u64

text \<open>The libraries a store uses.\<close>

record store_env =
  se_crypto :: crypto
  se_parse :: "string \<Rightarrow> raw_user list option"
  se_salts :: "nat \<Rightarrow> bytes"

subsection \<open>Building a store\<close>

definition from_source :: "source \<Rightarrow> snapshot \<Rightarrow> bytes \<Rightarrow> nat \<Rightarrow> store" where
  "from_source source snapshot nonce salts =
     (let snapshot = (if sn_generation snapshot = 0 then snapshot\<lparr>sn_generation := 1\<rparr> else snapshot) in
      \<lparr>st_source = source, st_snapshot = snapshot, st_cluster_nonce = nonce, st_last_error = None,
       st_metrics = metrics_set_generation (sn_generation snapshot) metrics_default, st_salts = salts\<rparr>)"

definition read_file :: "(string \<Rightarrow> string option) \<Rightarrow> string \<Rightarrow> config_error + string" where
  "read_file read path = ok_or (read path) (config_error_single ''path'' ''unable to read the credentials file'')"

definition store_from_yaml :: "store_env \<Rightarrow> string \<Rightarrow> bytes \<Rightarrow> nat \<Rightarrow> config_error + store" where
  "store_from_yaml W document nonce salts =
     (case snapshot_from_yaml (se_crypto W) (se_parse W) (se_salts W) document salts of (r, salts) \<Rightarrow>
        and_then r (\<lambda>snapshot. Inr (from_source Memory snapshot nonce salts)))"

definition store_from_file :: "store_env \<Rightarrow> (string \<Rightarrow> string option) \<Rightarrow> string \<Rightarrow> bytes \<Rightarrow> nat \<Rightarrow> config_error + store" where
  "store_from_file W read path nonce salts =
     and_then (read_file read path) (\<lambda>document.
     case snapshot_from_yaml (se_crypto W) (se_parse W) (se_salts W) document salts of (r, salts) \<Rightarrow>
       and_then r (\<lambda>snapshot. Inr (from_source (File path) snapshot nonce salts)))"

definition store_with_password :: "store_env \<Rightarrow> string \<Rightarrow> string \<Rightarrow> bytes \<Rightarrow> nat \<Rightarrow> store" where
  "store_with_password W user password nonce salts =
     from_source Memory
       \<lparr>sn_generation = 1, sn_users = [(user, derive_verifier (se_crypto W) password (se_salts W salts) DEFAULT_ITERATIONS)]\<rparr>
       nonce (Suc salts)"

definition store_failing :: "string \<Rightarrow> bytes \<Rightarrow> nat \<Rightarrow> store" where
  "store_failing reason nonce salts = from_source (Failing reason) (snapshot_empty 1) nonce salts"

definition store_len :: "store \<Rightarrow> nat" where
  "store_len s = snapshot_len (st_snapshot s)"

definition store_is_empty :: "store \<Rightarrow> bool" where
  "store_is_empty s = snapshot_is_empty (st_snapshot s)"

lemma store_is_empty_iff: "store_is_empty s \<longleftrightarrow> store_len s = 0"
  by (simp add: store_is_empty_def snapshot_is_empty_def store_len_def snapshot_len_def)

definition store_generation :: "store \<Rightarrow> u64" where
  "store_generation s = sn_generation (st_snapshot s)"

definition collect_metrics :: "store \<Rightarrow> string" where
  "collect_metrics s = metrics_gather (st_metrics s)"

subsection \<open>Lookups\<close>

definition lookup_source :: "crypto \<Rightarrow> lookup_db \<Rightarrow> nat \<Rightarrow> string \<Rightarrow> (store, verifier option, provider_error) prog" where
  "lookup_source C D now user s =
     (case st_source s of
        File _ \<Rightarrow> (Ok (snapshot_get (st_snapshot s) user), s)
      | Memory \<Rightarrow> (Ok (snapshot_get (st_snapshot s) user), s)
      | Failing reason \<Rightarrow> (Err (Unavailable reason), s)
      | AuthQuery source \<Rightarrow>
          (case aq_lookup C D now user source of (x, source) \<Rightarrow> (x, s\<lparr>st_source := AuthQuery source\<rparr>)))"

fun lookup_outcome :: "(verifier option, provider_error) outcome \<Rightarrow> lookup_result" where
  "lookup_outcome (Ok (Some _)) = Hit"
| "lookup_outcome (Ok None) = Miss"
| "lookup_outcome _ = LookupUnavailable"

definition store_lookup :: "crypto \<Rightarrow> lookup_db \<Rightarrow> nat \<Rightarrow> string \<Rightarrow> (store, verifier option, provider_error) prog" where
  "store_lookup C D now user s =
     (case lookup_source C D now user s of (x, s) \<Rightarrow>
        (x, s\<lparr>st_metrics := record_lookup (lookup_outcome x) (st_metrics s)\<rparr>))"

definition get_dummy_verifier :: "crypto \<Rightarrow> store \<Rightarrow> string \<Rightarrow> verifier" where
  "get_dummy_verifier C s user = dummy_verifier C user (st_cluster_nonce s)"

subsection \<open>Reloads\<close>

definition record_load_error :: "config_error \<Rightarrow> store \<Rightarrow> store" where
  "record_load_error e s = s\<lparr>st_last_error := Some e\<rparr>"

definition reload_file :: "store_env \<Rightarrow> (string \<Rightarrow> string option) \<Rightarrow> string \<Rightarrow> store \<Rightarrow> (config_error + reload_report) \<times> store" where
  "reload_file W read path s =
     (case read_file read path of
        Inl e \<Rightarrow> (Inl e, record_load_error e s)
      | Inr document \<Rightarrow>
          (case snapshot_from_yaml (se_crypto W) (se_parse W) (se_salts W) document (st_salts s) of
             (Inl e, salts) \<Rightarrow> (Inl e, record_load_error e (s\<lparr>st_salts := salts\<rparr>))
           | (Inr loaded, salts) \<Rightarrow>
               (let previous = sn_generation (st_snapshot s);
                    s = s\<lparr>st_salts := salts, st_snapshot := loaded\<lparr>sn_generation := previous + 1\<rparr>, st_last_error := None\<rparr>
                in (Inr \<lparr>rr_user_count = snapshot_len (st_snapshot s), rr_previous_generation = previous\<rparr>, s))))"

definition reload_inner :: "store_env \<Rightarrow> (string \<Rightarrow> string option) \<Rightarrow> store \<Rightarrow> (config_error + reload_report) \<times> store" where
  "reload_inner W read s =
     (case (case st_source s of
              File path \<Rightarrow> reload_file W read path s
            | Memory \<Rightarrow> (Inl (config_error_single ''memory'' ''in-memory store cannot reload''), s)
            | Failing _ \<Rightarrow> (Inl (config_error_single ''source'' ''failing store cannot reload''), s)
            | AuthQuery _ \<Rightarrow> (Inl (config_error_single ''auth_query'' ''auth_query store has no on-disk snapshot to reload''), s)) of
        (Inl e, s) \<Rightarrow> (Inl e, s\<lparr>st_metrics := record_reload False (st_metrics s)\<rparr>)
      | (Inr report, s) \<Rightarrow>
          (Inr report, s\<lparr>st_metrics := metrics_set_generation (rr_previous_generation report + 1) (record_reload True (st_metrics s))\<rparr>))"

definition last_reload_error :: "store \<Rightarrow> config_error option" where
  "last_reload_error s = st_last_error s"

subsection \<open>The store is a credential source\<close>

definition real_answer :: "verifier option \<Rightarrow> bool" where
  "real_answer r \<longleftrightarrow> (\<forall>v. r = Some v \<longrightarrow> \<not> v_dummy v)"

definition source_wf :: "source \<Rightarrow> bool" where
  "source_wf src \<longleftrightarrow>
     (\<forall>q. src = AuthQuery q \<longrightarrow> (\<exists>config. aq_ok config q) \<and> (\<forall>(user, at, r) \<in> remembered q. real_answer r))"

definition store_wf :: "store \<Rightarrow> bool" where
  "store_wf s \<longleftrightarrow> (\<forall>user. real_answer (snapshot_get (st_snapshot s) user)) \<and> source_wf (st_source s)"

lemma derive_verifier_real [simp]: "\<not> v_dummy (derive_verifier C password salt i)"
  by (simp add: derive_verifier_def from_password_def Let_def)

lemma entry_gives_real: "entry_gives C salts u v \<Longrightarrow> \<not> v_dummy v"
  using from_pg_secret_ok by (fastforce simp: entry_gives_def split: option.splits)

lemma loaded_real:
  assumes "snapshot_from_yaml C parse salts document drawn = (Inr snap, n)"
  shows "real_answer (snapshot_get snap user)"
  using assms
proof (rule snapshot_from_yaml_Inr)
  fix users
  assume known: "\<forall>u \<in> set users. \<exists>v. snapshot_get snap (ru_name u) = Some v \<and> entry_gives C salts u v"
    and unknown: "\<forall>n. n \<notin> ru_name ` set users \<longrightarrow> snapshot_get snap n = None"
  show ?thesis
    using known unknown entry_gives_real by (cases "user \<in> ru_name ` set users") (fastforce simp: real_answer_def)+
qed

lemma db_answer_real: "db_answer C D query k user = Some r \<Longrightarrow> real_answer r"
  using from_pg_secret_ok by (fastforce simp: db_answer_def real_answer_def split: option.splits sum.splits)

lemma aq_lookup_real:
  assumes "aq_lookup C D now user q = (x, q')" and "aq_ok config q" and "\<forall>(user, at, r) \<in> remembered q. real_answer r"
  shows "source_wf (AuthQuery q')" and "x = Ok r \<Longrightarrow> real_answer r"
proof -
  note step = aq_lookup_sound[OF assms(1,2)]
  show "source_wf (AuthQuery q')" using step(1,3) assms(3) db_answer_real by (fastforce simp: source_wf_def)
  show "real_answer r" if "x = Ok r" using step(2)[OF that] assms(3) db_answer_real by blast
qed

lemma lookup_source_ok:
  assumes "lookup_source C D now user s = (x, t)"
  shows "x \<notin> {Panic, Pending}" and "st_snapshot t = st_snapshot s \<and> st_cluster_nonce t = st_cluster_nonce s \<and> st_metrics t = st_metrics s"
    and "store_wf s \<Longrightarrow> store_wf t \<and> (\<forall>r. x = Ok r \<longrightarrow> real_answer r)"
proof -
  have total: "fst (aq_lookup C D now user q) \<notin> {Panic, Pending}" for q
    by (rule aq_lookup_cases[of C D now user q, OF surjective_pairing surjective_pairing]) auto
  then have total: "aq_lookup C D now user q \<noteq> (Panic, q')" "aq_lookup C D now user q \<noteq> (Pending, q')" for q q'
    by (metis fst_conv insertI1 insertI2)+
  show "x \<notin> {Panic, Pending}" "st_snapshot t = st_snapshot s \<and> st_cluster_nonce t = st_cluster_nonce s \<and> st_metrics t = st_metrics s"
    using assms total by (auto simp: lookup_source_def split: source.splits prod.splits)
  show "store_wf t \<and> (\<forall>r. x = Ok r \<longrightarrow> real_answer r)" if "store_wf s"
  proof (cases "st_source s")
    case (AuthQuery q)
    have "source_wf (AuthQuery q)" using that AuthQuery by (simp add: store_wf_def)
    then have q0: "\<exists>config. aq_ok config q" "\<forall>(user, at, r) \<in> remembered q. real_answer r" by (simp_all add: source_wf_def)
    from AuthQuery obtain q' where q: "aq_lookup C D now user q = (x, q')" "t = s\<lparr>st_source := AuthQuery q'\<rparr>"
      using assms by (auto simp: lookup_source_def split: prod.splits)
    then show ?thesis using aq_lookup_real[OF q(1)] that q(2) q0 by (auto simp: store_wf_def)
  qed (use assms that in \<open>auto simp: lookup_source_def store_wf_def\<close>)
qed

text \<open>A store together with the readings of the clock: each lookup happens at the next one.\<close>

definition clocked_lookup :: "crypto \<Rightarrow> lookup_db \<Rightarrow> (nat \<Rightarrow> nat) \<Rightarrow> string \<Rightarrow> (store \<times> nat, verifier option, provider_error) prog" where
  "clocked_lookup C D clock user p = (case store_lookup C D (clock (snd p)) user (fst p) of (x, s) \<Rightarrow> (x, (s, Suc (snd p))))"

interpretation stored: credential_source "clocked_lookup C D clock" "\<lambda>p. get_dummy_verifier C (fst p)" "\<lambda>p. store_wf (fst p)"
  for C D clock
proof
  fix user user' :: string and p :: "store \<times> nat" and v
  obtain x t where run: "lookup_source C D (clock (snd p)) user (fst p) = (x, t)" by fastforce
  note ok = lookup_source_ok[OF run]
  show "fst (clocked_lookup C D clock user p) \<notin> {Panic, Pending}"
    using run ok by (simp add: clocked_lookup_def store_lookup_def)
  show "store_wf (fst (snd (clocked_lookup C D clock user p)))" if "store_wf (fst p)"
    using run ok that by (simp add: clocked_lookup_def store_lookup_def store_wf_def)
  show "\<not> v_dummy v" if "store_wf (fst p)" "fst (clocked_lookup C D clock user p) = Ok (Some v)"
    using run ok that by (simp add: clocked_lookup_def store_lookup_def real_answer_def)
  show "v_dummy (get_dummy_verifier C (fst p) user)" by (simp add: get_dummy_verifier_def dummy_verifier_def)
  obtain x' t' where run': "lookup_source C D (clock (snd p)) user' (fst p) = (x', t')" by fastforce
  show "get_dummy_verifier C (fst (snd (clocked_lookup C D clock user' p))) user = get_dummy_verifier C (fst p) user"
    using run' lookup_source_ok(2)[OF run'] by (simp add: clocked_lookup_def store_lookup_def get_dummy_verifier_def)
qed

lemma from_source_wf:
  "(\<forall>user. real_answer (snapshot_get snap user)) \<Longrightarrow> source_wf src \<Longrightarrow> store_wf (from_source src snap nonce salts)"
  by (simp add: from_source_def Let_def store_wf_def snapshot_get_def)

lemma new_source_wf: "source_wf (AuthQuery (auth_query_source_new config))"
  by (auto simp: source_wf_def aq_ok_def auth_query_source_new_def cache_limits_def remembered_def cache_known_def
      cache_with_capacity_def cache_ok_def)

subsection \<open>Reloads, one at a time\<close>

text \<open>
  C21. A reload replaces the whole list or nothing. If it fails, every later lookup sees the users it saw before,
  under the same generation, and for a file the error is kept; if it succeeds, the users are exactly those
  of the document just read, under the next generation, the error is cleared, and the counters show the
  generation the store has. Only a file can be reloaded.
\<close>

theorem reload_is_all_or_nothing:
  assumes "reload_inner W read s = (r, t)"
  shows "st_source t = st_source s \<and> st_cluster_nonce t = st_cluster_nonce s \<and>
    (\<forall>e. r = Inl e \<longrightarrow> st_snapshot t = st_snapshot s \<and> m_generation (st_metrics t) = m_generation (st_metrics s) \<and>
       (if \<exists>path. st_source s = File path then st_last_error t = Some e else st_last_error t = st_last_error s)) \<and>
    (\<forall>report. r = Inr report \<longrightarrow> (\<exists>path document loaded n. st_source s = File path \<and> read path = Some document \<and>
       snapshot_from_yaml (se_crypto W) (se_parse W) (se_salts W) document (st_salts s) = (Inr loaded, n) \<and>
       sn_users (st_snapshot t) = sn_users loaded \<and> store_generation t = store_generation s + 1 \<and> st_last_error t = None \<and>
       m_generation (st_metrics t) = store_generation t \<and> rr_user_count report = store_len t))"
proof (cases "st_source s")
  case (File path)
  show ?thesis
  proof (cases "read path")
    case None
    then show ?thesis using assms File
      by (auto simp: reload_inner_def reload_file_def read_file_def record_load_error_def record_reload_def)
  next
    case (Some document)
    obtain loaded n where l: "snapshot_from_yaml (se_crypto W) (se_parse W) (se_salts W) document (st_salts s) = (loaded, n)" by fastforce
    then show ?thesis using assms File Some
      by (cases loaded) (auto simp: reload_inner_def reload_file_def read_file_def record_load_error_def record_reload_def
          metrics_set_generation_def Let_def store_generation_def store_len_def snapshot_len_def)
  qed
qed (use assms in \<open>auto simp: reload_inner_def record_reload_def\<close>)

subsection \<open>Lookups are counted\<close>

definition tally :: "lookup_result \<Rightarrow> (verifier option, provider_error) outcome list \<Rightarrow> u64" where
  "tally k xs = of_nat (length (filter (\<lambda>x. lookup_outcome x = k) xs))"

fun store_lookups :: "crypto \<Rightarrow> lookup_db \<Rightarrow> (string \<times> nat) list \<Rightarrow> store \<Rightarrow> (verifier option, provider_error) outcome list \<times> store" where
  "store_lookups C D [] s = ([], s)"
| "store_lookups C D ((user, now) # calls) s =
     (case store_lookup C D now user s of (x, s) \<Rightarrow>
       (case store_lookups C D calls s of (xs, s) \<Rightarrow> (x # xs, s)))"

lemma store_lookups_counted:
  assumes "store_lookups C D calls s = (xs, t)"
  shows "st_snapshot t = st_snapshot s \<and> m_lookup_hit (st_metrics t) = m_lookup_hit (st_metrics s) + tally Hit xs \<and>
    m_lookup_miss (st_metrics t) = m_lookup_miss (st_metrics s) + tally Miss xs \<and>
    m_lookup_unavailable (st_metrics t) = m_lookup_unavailable (st_metrics s) + tally LookupUnavailable xs \<and>
    m_generation (st_metrics t) = m_generation (st_metrics s)"
  using assms
proof (induction calls arbitrary: s xs)
  case (Cons call calls)
  obtain user now where call: "call = (user, now)" by fastforce
  obtain x u where one: "lookup_source C D now user s = (x, u)" by fastforce
  obtain ys where rest: "store_lookups C D calls (u\<lparr>st_metrics := record_lookup (lookup_outcome x) (st_metrics u)\<rparr>) = (ys, t)" "xs = x # ys"
    using Cons.prems one call by (auto simp: store_lookup_def split: prod.splits)
  show ?case
    using Cons.IH[OF rest(1)] lookup_source_ok(2)[OF one] rest(2)
    by (cases "lookup_outcome x") (auto simp: tally_def)
qed (simp add: tally_def)

lemma snapshot_lookups:
  assumes "store_lookups C D calls s = (xs, t)" and "st_source s \<in> insert Memory (range File)"
  shows "xs = map (\<lambda>(user, now). Ok (snapshot_get (st_snapshot s) user)) calls"
  using assms
proof (induction calls arbitrary: s xs)
  case (Cons call calls)
  obtain user now where call: "call = (user, now)" by fastforce
  let ?x = "Ok (snapshot_get (st_snapshot s) user)"
  let ?u = "s\<lparr>st_metrics := record_lookup (lookup_outcome ?x) (st_metrics s)\<rparr>"
  have one: "store_lookup C D now user s = (?x, ?u)"
    using Cons.prems(2) by (auto simp: store_lookup_def lookup_source_def)
  obtain ys where ys: "store_lookups C D calls ?u = (ys, t)" "xs = ?x # ys"
    using Cons.prems(1) call one by (auto split: prod.splits)
  show ?case using Cons.IH[OF ys(1)] Cons.prems(2) ys(2) call by auto
qed simp

lemma failing_lookups:
  assumes "store_lookups C D calls s = (xs, t)" and "st_source s = Failing reason"
  shows "xs = map (\<lambda>_. Err (Unavailable reason)) calls"
  using assms
proof (induction calls arbitrary: s xs)
  case (Cons call calls)
  obtain user now where call: "call = (user, now)" by fastforce
  let ?u = "s\<lparr>st_metrics := record_lookup LookupUnavailable (st_metrics s)\<rparr>"
  have one: "store_lookup C D now user s = (Err (Unavailable reason), ?u)"
    using Cons.prems(2) by (auto simp: store_lookup_def lookup_source_def)
  obtain ys where ys: "store_lookups C D calls ?u = (ys, t)" "xs = Err (Unavailable reason) # ys"
    using Cons.prems(1) call one by (auto split: prod.splits)
  show ?case using Cons.IH[OF ys(1)] Cons.prems(2) ys(2) by auto
qed simp

text \<open>
  A store answers and counts as its source allows. A file or memory store answers every lookup from its
  snapshot, a broken one never answers at all, and of any sequence of lookups each is counted once, under the
  way it ended; the snapshot and its generation are not touched.
\<close>

theorem lookups_answer_and_count:
  assumes "store_lookups C D calls s = (xs, t)"
  shows "m_lookup_hit (st_metrics t) = m_lookup_hit (st_metrics s) + tally Hit xs \<and>
    m_lookup_miss (st_metrics t) = m_lookup_miss (st_metrics s) + tally Miss xs \<and>
    m_lookup_unavailable (st_metrics t) = m_lookup_unavailable (st_metrics s) + tally LookupUnavailable xs \<and>
    st_snapshot t = st_snapshot s \<and> m_generation (st_metrics t) = m_generation (st_metrics s) \<and>
    (st_source s \<in> insert Memory (range File) \<longrightarrow> xs = map (\<lambda>(user, now). Ok (snapshot_get (st_snapshot s) user)) calls) \<and>
    (\<forall>reason. st_source s = Failing reason \<longrightarrow> xs = map (\<lambda>_. Err (Unavailable reason)) calls)"
  using store_lookups_counted[OF assms] snapshot_lookups[OF assms] failing_lookups[OF assms] by blast

subsection \<open>Reloads, several at once\<close>

text \<open>
  A reload is no critical section. Each caller reads and parses the file for itself, then loads the current
  snapshot for its generation, stores its own, clears the error and updates the counters; between two of these
  atomic steps anything may happen, also to the file.
\<close>

datatype reload_point = Idle | Parsed snapshot | Numbered snapshot u64 | Swapped u64 | Failed

record reload_system =
  rs_store :: store
  rs_points :: "nat \<Rightarrow> reload_point"

definition put_point :: "nat \<Rightarrow> reload_point \<Rightarrow> reload_system \<Rightarrow> reload_system" where
  "put_point i p S = S\<lparr>rs_points := (rs_points S)(i := p)\<rparr>"

definition on_store :: "(store \<Rightarrow> store) \<Rightarrow> reload_system \<Rightarrow> reload_system" where
  "on_store f S = S\<lparr>rs_store := f (rs_store S)\<rparr>"

inductive reload_step :: "store_env \<Rightarrow> reload_system \<Rightarrow> reload_system \<Rightarrow> bool" for W where
  unreadable: "rs_points S i = Idle \<Longrightarrow> st_source (rs_store S) = File path \<Longrightarrow> read_file (\<lambda>_. None) path = Inl e \<Longrightarrow>
     reload_step W S (put_point i Failed (on_store (record_load_error e) S))"
| rejected: "rs_points S i = Idle \<Longrightarrow> st_source (rs_store S) = File path \<Longrightarrow>
     snapshot_from_yaml (se_crypto W) (se_parse W) (se_salts W) document (st_salts (rs_store S)) = (Inl e, n) \<Longrightarrow>
     reload_step W S (put_point i Failed (on_store (\<lambda>s. record_load_error e (s\<lparr>st_salts := n\<rparr>)) S))"
| parsed: "rs_points S i = Idle \<Longrightarrow> st_source (rs_store S) = File path \<Longrightarrow>
     snapshot_from_yaml (se_crypto W) (se_parse W) (se_salts W) document (st_salts (rs_store S)) = (Inr loaded, n) \<Longrightarrow>
     reload_step W S (put_point i (Parsed loaded) (on_store (\<lambda>s. s\<lparr>st_salts := n\<rparr>) S))"
| numbered: "rs_points S i = Parsed loaded \<Longrightarrow> previous = sn_generation (st_snapshot (rs_store S)) \<Longrightarrow>
     reload_step W S (put_point i (Numbered (loaded\<lparr>sn_generation := previous + 1\<rparr>) previous) S)"
| swapped: "rs_points S i = Numbered next previous \<Longrightarrow>
     reload_step W S (put_point i (Swapped previous) (on_store (\<lambda>s. s\<lparr>st_snapshot := next\<rparr>) S))"
| finished: "rs_points S i = Swapped previous \<Longrightarrow>
     reload_step W S (put_point i Idle (on_store (\<lambda>s. s\<lparr>st_last_error := None,
       st_metrics := metrics_set_generation (previous + 1) (record_reload True (st_metrics s))\<rparr>) S))"
| gave_up: "rs_points S i = Failed \<Longrightarrow>
     reload_step W S (put_point i Idle (on_store (\<lambda>s. s\<lparr>st_metrics := record_reload False (st_metrics s)\<rparr>) S))"

definition reload_start :: "store \<Rightarrow> reload_system" where
  "reload_start s = \<lparr>rs_store = s, rs_points = (\<lambda>_. Idle)\<rparr>"

text \<open>A whole list: the users before the reloads, or those of one document that was accepted.\<close>

definition whole_list :: "store_env \<Rightarrow> store \<Rightarrow> (string \<times> verifier) list \<Rightarrow> bool" where
  "whole_list W s users \<longleftrightarrow> users = sn_users (st_snapshot s) \<or>
     (\<exists>document drawn loaded n. snapshot_from_yaml (se_crypto W) (se_parse W) (se_salts W) document drawn = (Inr loaded, n) \<and>
        users = sn_users loaded)"

fun point_whole :: "store_env \<Rightarrow> store \<Rightarrow> reload_point \<Rightarrow> bool" where
  "point_whole W s (Parsed loaded) = whole_list W s (sn_users loaded)"
| "point_whole W s (Numbered loaded _) = whole_list W s (sn_users loaded)"
| "point_whole W s _ = True"

definition reloads_ok :: "store_env \<Rightarrow> store \<Rightarrow> reload_system \<Rightarrow> bool" where
  "reloads_ok W s S \<longleftrightarrow> whole_list W s (sn_users (st_snapshot (rs_store S))) \<and> (\<forall>i. point_whole W s (rs_points S i)) \<and>
     st_source (rs_store S) = st_source s \<and> st_cluster_nonce (rs_store S) = st_cluster_nonce s"

lemma reloads_ok_start: "reloads_ok W s (reload_start s)"
  by (simp add: reloads_ok_def reload_start_def whole_list_def)

lemma whole_list_loaded:
  "snapshot_from_yaml (se_crypto W) (se_parse W) (se_salts W) document drawn = (Inr loaded, n) \<Longrightarrow> whole_list W s (sn_users loaded)"
  by (auto simp: whole_list_def)

lemma reload_step_ok:
  assumes "reload_step W S S'" and "reloads_ok W s S"
  shows "reloads_ok W s S'"
  using assms
proof (induction rule: reload_step.induct)
  case (numbered S i loaded previous)
  then have "\<forall>i. point_whole W s (rs_points S i)" by (simp add: reloads_ok_def)
  then have "point_whole W s (Parsed loaded)" using numbered(1) by metis
  then have "whole_list W s (sn_users loaded)" by simp
  then show ?case using numbered by (simp add: reloads_ok_def put_point_def)
next
  case (swapped S i "next" previous)
  then have "\<forall>i. point_whole W s (rs_points S i)" by (simp add: reloads_ok_def)
  then have "point_whole W s (Numbered next previous)" using swapped(1) by metis
  then have "whole_list W s (sn_users next)" by simp
  then show ?case using swapped by (simp add: reloads_ok_def put_point_def on_store_def)
qed (simp_all add: reloads_ok_def put_point_def on_store_def record_load_error_def whole_list_loaded)

lemma reloads_reachable_ok: "(reload_step W)\<^sup>*\<^sup>* (reload_start s) S \<Longrightarrow> reloads_ok W s S"
  by (induction rule: rtranclp_induct) (auto intro: reload_step_ok reloads_ok_start)


text \<open>A reload that runs alone is \<open>reload_inner\<close>.\<close>

lemma gave_up_alone:
  assumes "reload_step W (reload_start s) (put_point 0 Failed (on_store f (reload_start s)))"
  shows "\<exists>S. (reload_step W)\<^sup>*\<^sup>* (reload_start s) S \<and> rs_points S = (\<lambda>_. Idle) \<and>
    rs_store S = (f s)\<lparr>st_metrics := record_reload False (st_metrics (f s))\<rparr>"
proof -
  let ?S1 = "put_point 0 Failed (on_store f (reload_start s))"
  let ?S2 = "put_point 0 Idle (on_store (\<lambda>s. s\<lparr>st_metrics := record_reload False (st_metrics s)\<rparr>) ?S1)"
  have "reload_step W ?S1 ?S2" by (rule gave_up) (simp add: put_point_def)
  then have "(reload_step W)\<^sup>*\<^sup>* (reload_start s) ?S2" using assms by (meson rtranclp.intros)
  then show ?thesis
    by (intro exI[of _ ?S2]) (simp add: put_point_def on_store_def reload_start_def fun_eq_iff)
qed

lemma lone_reload_is_reload_inner:
  assumes "st_source s = File path" and "reload_inner W read s = (r, t)"
  shows "\<exists>S. (reload_step W)\<^sup>*\<^sup>* (reload_start s) S \<and> rs_points S = (\<lambda>_. Idle) \<and> rs_store S = t"
proof (cases "read path")
  case None
  let ?e = "config_error_single ''path'' ''unable to read the credentials file''"
  have "reload_step W (reload_start s) (put_point 0 Failed (on_store (record_load_error ?e) (reload_start s)))"
    by (rule unreadable[of _ _ path]) (simp_all add: reload_start_def read_file_def assms(1))
  from gave_up_alone[OF this] show ?thesis
    using assms None by (auto simp: reload_inner_def reload_file_def read_file_def)
next
  case (Some document)
  obtain x n where l: "snapshot_from_yaml (se_crypto W) (se_parse W) (se_salts W) document (st_salts s) = (x, n)" by fastforce
  show ?thesis
  proof (cases x)
    case (Inl e)
    have "reload_step W (reload_start s) (put_point 0 Failed (on_store (\<lambda>s. record_load_error e (s\<lparr>st_salts := n\<rparr>)) (reload_start s)))"
      by (rule rejected[of _ _ path]) (use l Inl in \<open>simp_all add: reload_start_def assms(1)\<close>)
    from gave_up_alone[OF this] show ?thesis
      using assms Some l Inl by (auto simp: reload_inner_def reload_file_def read_file_def)
  next
    case (Inr loaded)
    let ?g = "sn_generation (st_snapshot s)" and ?new = "loaded\<lparr>sn_generation := sn_generation (st_snapshot s) + 1\<rparr>"
    let ?S1 = "put_point 0 (Parsed loaded) (on_store (\<lambda>s. s\<lparr>st_salts := n\<rparr>) (reload_start s))"
    let ?S2 = "put_point 0 (Numbered ?new ?g) ?S1"
    let ?S3 = "put_point 0 (Swapped ?g) (on_store (\<lambda>s. s\<lparr>st_snapshot := ?new\<rparr>) ?S2)"
    let ?S4 = "put_point 0 Idle (on_store (\<lambda>s. s\<lparr>st_last_error := None,
       st_metrics := metrics_set_generation (?g + 1) (record_reload True (st_metrics s))\<rparr>) ?S3)"
    have "reload_step W (reload_start s) ?S1"
      by (rule parsed[of _ _ path]) (use l Inr in \<open>simp_all add: reload_start_def assms(1)\<close>)
    moreover have "reload_step W ?S1 ?S2" by (rule numbered) (simp_all add: put_point_def on_store_def reload_start_def)
    moreover have "reload_step W ?S2 ?S3" by (rule swapped) (simp add: put_point_def)
    moreover have "reload_step W ?S3 ?S4" by (rule finished) (simp add: put_point_def)
    ultimately have "(reload_step W)\<^sup>*\<^sup>* (reload_start s) ?S4" by (meson rtranclp.intros)
    moreover have "rs_store ?S4 = t"
      using assms Some l Inr by (auto simp: reload_inner_def reload_file_def read_file_def Let_def put_point_def on_store_def reload_start_def)
    moreover have "rs_points ?S4 = (\<lambda>_. Idle)" by (simp add: put_point_def on_store_def reload_start_def fun_eq_iff)
    ultimately show ?thesis by blast
  qed
qed

text \<open>Two reloads at once can publish two different lists under the same generation.\<close>

lemma concurrent_reloads_reuse_a_generation:
  assumes "st_source s = File path"
    and "snapshot_from_yaml (se_crypto W) (se_parse W) (se_salts W) document1 (st_salts s) = (Inr loaded1, n1)"
    and "snapshot_from_yaml (se_crypto W) (se_parse W) (se_salts W) document2 n1 = (Inr loaded2, n2)"
  shows "\<exists>S1 S2. (reload_step W)\<^sup>*\<^sup>* (reload_start s) S1 \<and> reload_step W S1 S2 \<and>
    sn_users (st_snapshot (rs_store S1)) = sn_users loaded1 \<and> sn_users (st_snapshot (rs_store S2)) = sn_users loaded2 \<and>
    store_generation (rs_store S1) = store_generation s + 1 \<and> store_generation (rs_store S2) = store_generation s + 1"
proof -
  let ?g = "sn_generation (st_snapshot s)"
  let ?A = "put_point 0 (Parsed loaded1) (on_store (\<lambda>s. s\<lparr>st_salts := n1\<rparr>) (reload_start s))"
  let ?B = "put_point 1 (Parsed loaded2) (on_store (\<lambda>s. s\<lparr>st_salts := n2\<rparr>) ?A)"
  let ?C = "put_point 0 (Numbered (loaded1\<lparr>sn_generation := ?g + 1\<rparr>) ?g) ?B"
  let ?D = "put_point 1 (Numbered (loaded2\<lparr>sn_generation := ?g + 1\<rparr>) ?g) ?C"
  let ?E = "put_point 0 (Swapped ?g) (on_store (\<lambda>s. s\<lparr>st_snapshot := loaded1\<lparr>sn_generation := ?g + 1\<rparr>\<rparr>) ?D)"
  let ?F = "put_point 1 (Swapped ?g) (on_store (\<lambda>s. s\<lparr>st_snapshot := loaded2\<lparr>sn_generation := ?g + 1\<rparr>\<rparr>) ?E)"
  note defs = put_point_def on_store_def reload_start_def
  have "reload_step W (reload_start s) ?A" by (rule parsed[of _ _ path]) (use assms in \<open>simp_all add: defs\<close>)
  moreover have "reload_step W ?A ?B" by (rule parsed[of _ _ path]) (use assms in \<open>simp_all add: defs\<close>)
  moreover have "reload_step W ?B ?C" by (rule numbered) (simp_all add: defs)
  moreover have "reload_step W ?C ?D" by (rule numbered) (simp_all add: defs)
  moreover have "reload_step W ?D ?E" by (rule swapped) (simp add: defs)
  ultimately have "(reload_step W)\<^sup>*\<^sup>* (reload_start s) ?E" by (meson rtranclp.intros)
  moreover have "reload_step W ?E ?F" by (rule swapped) (simp add: defs)
  moreover have "sn_users (st_snapshot (rs_store ?E)) = sn_users loaded1" "sn_users (st_snapshot (rs_store ?F)) = sn_users loaded2"
    "store_generation (rs_store ?E) = store_generation s + 1" "store_generation (rs_store ?F) = store_generation s + 1"
    by (simp_all add: defs store_generation_def)
  ultimately show ?thesis by blast
qed

subsection \<open>A store\<close>

definition demo_store_env :: store_env where
  "demo_store_env = \<lparr>se_crypto = toy_crypto, se_parse = (\<lambda>document. if document = [] then None else Some demo_users),
     se_salts = (\<lambda>_. replicate 16 7)\<rparr>"

definition demo_store :: store where
  "demo_store = from_source (File ''users.yaml'') (snapshot_empty 3) (replicate 32 1) 0"

lemma demo_store_facts:
  "st_source demo_store = File ''users.yaml''" "store_generation demo_store = 3" "st_salts demo_store = 0"
  "snapshot_get (st_snapshot demo_store) user = None"
  by (simp_all add: demo_store_def from_source_def snapshot_empty_def store_generation_def snapshot_get_def)

lemma demo_document:
  "\<exists>loaded n. snapshot_from_yaml toy_crypto (se_parse demo_store_env) (se_salts demo_store_env) ''x'' drawn = (Inr loaded, n) \<and>
     snapshot_get loaded ''u'' \<noteq> None"
proof -
  have p: "se_parse demo_store_env ''x'' = Some demo_users" by (simp add: demo_store_env_def)
  have "list_problems toy_crypto {} demo_users = []"
    by (simp add: demo_users_def name_problems_def secret_problems_def)
  then obtain loaded n where "snapshot_from_yaml toy_crypto (se_parse demo_store_env) (se_salts demo_store_env) ''x'' drawn = (Inr loaded, n)"
    using snapshot_from_yaml_outcome[where parse = "se_parse demo_store_env" and document = "''x''", OF p] by (metis demo_users_def list.discI)
  moreover from this have "snapshot_get loaded ''u'' \<noteq> None"
    by (rule snapshot_from_yaml_Inr) (use p in \<open>force simp: demo_users_def\<close>)
  ultimately show ?thesis by blast
qed

theorem reload_is_all_or_nothing_witness:
  "\<exists>report t. reload_inner demo_store_env (\<lambda>_. Some ''x'') demo_store = (Inr report, t) \<and> store_generation t = 4"
proof -
  obtain loaded n where l: "snapshot_from_yaml toy_crypto (se_parse demo_store_env) (se_salts demo_store_env) ''x'' 0 = (Inr loaded, n)"
    using demo_document by blast
  then obtain report t where run: "reload_inner demo_store_env (\<lambda>_. Some ''x'') demo_store = (Inr report, t)"
    by (auto simp: reload_inner_def reload_file_def read_file_def demo_store_facts Let_def demo_store_env_def)
  from reload_is_all_or_nothing[OF this] run show ?thesis by (auto simp: demo_store_facts)
qed

theorem lookups_answer_and_count_witness:
  "m_lookup_miss (st_metrics (snd (store_lookups toy_crypto demo_db [(''u'', 0), (''v'', 1)] demo_store))) = 2"
proof -
  obtain xs t where run: "store_lookups toy_crypto demo_db [(''u'', 0), (''v'', 1)] demo_store = (xs, t)" by fastforce
  have "m_lookup_miss (st_metrics demo_store) = 0"
    by (simp add: demo_store_def from_source_def metrics_set_generation_def metrics_default_def Let_def)
  then show ?thesis using lookups_answer_and_count[OF run] run by (simp add: demo_store_facts tally_def)
qed


end
