(* ===== verification/Credential_Config.thy ===== *)
theory Credential_Config
  imports Store Config
begin

section \<open>The credentials block (\<open>auth/credentials/config.rs\<close>, the rest of \<open>proxy/config.rs\<close>)\<close>

text \<open>
  The \<open>credentials:\<close> block of \<open>wirechaos.yaml\<close> and how a store is built from it. Deserialisation is
  \<open>serde_yaml\<close>'s: \<open>config_from_yaml\<close> takes its reading of a document as a parameter. The environment and the
  file system are functions from a name to a value; the lookup database is the \<open>lookup_db\<close> of the auth query
  theory. The feature \<open>auth-query\<close> is a flag of the build.
\<close>

datatype source_kind = FileSource | AuthQuerySource

record auth_query_file_config =
  af_host :: string
  af_port :: u16
  af_user :: string
  af_password :: "string option"
  af_password_env :: "string option"
  af_database :: string
  af_query :: string
  af_cache_ttl_ms :: u64
  af_negative_cache_ttl_ms :: "u64 option"
  af_max_entries :: nat
  af_lazy :: bool

record credentials_config =
  cc_source :: source_kind
  cc_file :: "string option"
  cc_default_iterations :: "u32 option"
  cc_cluster_nonce_file :: "string option"
  cc_auth_query :: "auth_query_file_config option"

definition default_credentials :: credentials_config where
  "default_credentials = \<lparr>cc_source = FileSource, cc_file = None, cc_default_iterations = None,
     cc_cluster_nonce_file = None, cc_auth_query = None\<rparr>"

definition default_cache_ttl_ms :: u64 where
  "default_cache_ttl_ms = of_nat (DEFAULT_CACHE_TTL div 10 ^ 6)"

text \<open>What \<open>serde\<close> fills in for the keys a block leaves out.\<close>

definition default_auth_query :: "string \<Rightarrow> string \<Rightarrow> auth_query_file_config" where
  "default_auth_query user query = \<lparr>af_host = ''127.0.0.1'', af_port = 5432, af_user = user, af_password = None,
     af_password_env = None, af_database = ''postgres'', af_query = query, af_cache_ttl_ms = default_cache_ttl_ms,
     af_negative_cache_ttl_ms = None, af_max_entries = DEFAULT_MAX_ENTRIES, af_lazy = False\<rparr>"

definition millis :: "u64 \<Rightarrow> nat" where
  "millis ms = unat ms * 10 ^ 6"

definition resolve_password :: "(string \<Rightarrow> string option) \<Rightarrow> auth_query_file_config \<Rightarrow> config_error + string" where
  "resolve_password env f =
     (case (af_password f, af_password_env f) of
        (Some password, _) \<Rightarrow> Inr password
      | (None, Some variable) \<Rightarrow>
          ok_or (env variable) (config_error_single ''credentials.auth_query.password_env'' ''environment variable is not set'')
      | (None, None) \<Rightarrow> Inr [])"

definition resolve :: "(string \<Rightarrow> string option) \<Rightarrow> auth_query_file_config \<Rightarrow> config_error + auth_query_config" where
  "resolve env f =
     (case validate_query (af_query f) of
        Inl reason \<Rightarrow> Inl (config_error_single ''credentials.auth_query.query'' reason)
      | Inr _ \<Rightarrow>
          and_then (resolve_password env f) (\<lambda>password.
            let cache_ttl = millis (af_cache_ttl_ms f);
                negative_ttl = (case af_negative_cache_ttl_ms f of Some ms \<Rightarrow> millis ms | None \<Rightarrow> NEGATIVE_CACHE_TTL)
            in Inr \<lparr>aqc_host = af_host f, aqc_port = af_port f, aqc_user = af_user f, aqc_password = password,
                 aqc_database = af_database f, aqc_query = af_query f,
                 aqc_cache_ttl = (if cache_ttl = 0 then DEFAULT_CACHE_TTL else cache_ttl),
                 aqc_negative_ttl = negative_ttl, aqc_max_entries = af_max_entries f\<rparr>))"

text \<open>The world a store is built in.\<close>

record build_env =
  bd_store :: store_env
  bd_env :: "string \<Rightarrow> string option"
  bd_read :: "string \<Rightarrow> string option"
  bd_db :: lookup_db
  bd_nonce :: bytes
  bd_has_auth_query :: bool

definition build_store :: "build_env \<Rightarrow> credentials_config \<Rightarrow> config_error + store" where
  "build_store B cc =
     (case cc_source cc of
        FileSource \<Rightarrow>
          and_then (ok_or (cc_file cc) (config_error_single ''credentials.file'' ''is required when source is `file`'')) (\<lambda>path.
          store_from_file (bd_store B) (bd_read B) path (bd_nonce B) 0)
      | AuthQuerySource \<Rightarrow>
          and_then (ok_or (cc_auth_query cc)
            (config_error_single ''credentials.auth_query'' ''is required when source is `auth_query`'')) (\<lambda>file.
          and_then (resolve (bd_env B) file) (\<lambda>config.
          if bd_has_auth_query B then
            (let source = auth_query_source_new config;
                 (ready, source) = (if af_lazy file then (Ok (), source) else preflight (bd_db B) source)
             in if ready = Ok () then Inr (from_source (AuthQuery source) (snapshot_empty 0) (bd_nonce B) 0)
                else Inl (config_error_single ''credentials.auth_query'' ''lookup database is not reachable''))
          else Inl (config_error_single ''credentials.auth_query''
            ''this build has no `auth-query` feature; rebuild with it enabled''))))"

definition show_bool :: "bool \<Rightarrow> string" where
  "show_bool b = (if b then ''true'' else ''false'')"

definition config_digest :: "crypto \<Rightarrow> credentials_config \<Rightarrow> string" where
  "config_digest C cc =
     b64_encode C (sha256 C (as_bytes
       ((case cc_source cc of FileSource \<Rightarrow> ''source=file;'' | AuthQuerySource \<Rightarrow> ''source=auth_query;'')
        @ ''file='' @ show_bool (cc_file cc \<noteq> None) @ '';''
        @ ''nonce_file='' @ show_bool (cc_cluster_nonce_file cc \<noteq> None) @ '';''
        @ ''auth_query_configured='' @ show_bool (cc_auth_query cc \<noteq> None) @ '';'')))"

subsection \<open>The whole configuration\<close>

definition credentials_from_yaml :: "(string \<Rightarrow> credentials_config option) \<Rightarrow> string \<Rightarrow> config_error + credentials_config" where
  "credentials_from_yaml parse document =
     ok_or (parse document) (config_error_single ''config'' ''invalid YAML configuration'')"

definition config_from_yaml :: "(string \<Rightarrow> credentials_config config option) \<Rightarrow> string \<Rightarrow> config_error + credentials_config config" where
  "config_from_yaml parse document =
     ok_or (parse document) (config_error_single ''config'' ''invalid YAML configuration'')"

definition build_credential_store :: "build_env \<Rightarrow> credentials_config config \<Rightarrow> config_error + store" where
  "build_credential_store B cfg = build_store B (credentials cfg)"

subsection \<open>What a built store is\<close>

lemma resolve_Inr:
  assumes "resolve env f = Inr config"
  shows "placeholder_numbers (af_query f) = [1] \<and> 0 < aqc_cache_ttl config"
proof -
  have "validate_query (af_query f) = Inr ()" using assms by (auto simp: resolve_def split: sum.splits)
  then have "placeholder_numbers (af_query f) = [1]" by (simp add: validate_query_reference)
  moreover have "0 < aqc_cache_ttl config"
    using assms by (auto simp: resolve_def Let_def sum_Inr DEFAULT_CACHE_TTL_def split: sum.splits)
  ultimately show ?thesis by simp
qed

lemma connected_source_wf:
  assumes "source_wf (AuthQuery q)" and "aq_cache q' = aq_cache q" and "aq_config q' = aq_config q"
  shows "source_wf (AuthQuery q')"
  using assms by (simp add: source_wf_def aq_ok_def remembered_def)

lemma build_auth_query:
  assumes "build_store B cc = Inr s" and "cc_source cc = AuthQuerySource"
  obtains f config q where "cc_auth_query cc = Some f" "resolve (bd_env B) f = Inr config"
    "s = from_source (AuthQuery q) (snapshot_empty 0) (bd_nonce B) 0" "aq_cache q = aq_cache (auth_query_source_new config)"
    "aq_config q = config" "af_lazy f \<or> aq_client q"
proof -
  obtain f config where f: "cc_auth_query cc = Some f" "resolve (bd_env B) f = Inr config" "bd_has_auth_query B"
    using assms by (auto simp: build_store_def sum_Inr split: if_splits)
  let ?new = "auth_query_source_new config"
  obtain x q where pre: "preflight (bd_db B) ?new = (x, q)" by fastforce
  have out: "aq_cache q = aq_cache ?new \<and> aq_config q = aq_config ?new \<and> (x = Ok () \<and> aq_client q \<or> (\<exists>e. x = Err e))"
    using ensure_connected_outcome pre by (simp add: preflight_def)
  show ?thesis
  proof (cases "af_lazy f")
    case True
    then show ?thesis
      using assms f by (intro that[of f config ?new]) (auto simp: build_store_def auth_query_source_new_def)
  next
    case False
    then show ?thesis
      using assms f pre out
      by (intro that[of f config q]) (auto simp: build_store_def auth_query_source_new_def split: if_splits)
  qed
qed

lemma built_store_wf:
  assumes "build_store B cc = Inr s"
  shows "store_wf s \<and> store_generation s \<noteq> 0 \<and> m_generation (st_metrics s) = store_generation s \<and>
    (cc_source cc = FileSource \<longrightarrow> (\<exists>path document loaded n. cc_file cc = Some path \<and> bd_read B path = Some document \<and>
       snapshot_from_yaml (se_crypto (bd_store B)) (se_parse (bd_store B)) (se_salts (bd_store B)) document 0 = (Inr loaded, n) \<and>
       st_source s = File path \<and> sn_users (st_snapshot s) = sn_users loaded)) \<and>
    (cc_source cc = AuthQuerySource \<longrightarrow> (\<exists>f q. cc_auth_query cc = Some f \<and> placeholder_numbers (af_query f) = [1] \<and>
       st_source s = AuthQuery q \<and> 0 < aqc_cache_ttl (aq_config q) \<and> (af_lazy f \<or> aq_client q)))"
proof (cases "cc_source cc")
  case FileSource
  then obtain path document where d: "cc_file cc = Some path" "bd_read B path = Some document"
    using assms by (auto simp: build_store_def store_from_file_def read_file_def sum_Inr)
  obtain x n where l: "snapshot_from_yaml (se_crypto (bd_store B)) (se_parse (bd_store B)) (se_salts (bd_store B)) document 0 = (x, n)"
    by fastforce
  obtain loaded where f: "cc_file cc = Some path" "bd_read B path = Some document"
      "snapshot_from_yaml (se_crypto (bd_store B)) (se_parse (bd_store B)) (se_salts (bd_store B)) document 0 = (Inr loaded, n)"
      "s = from_source (File path) loaded (bd_nonce B) n"
    using assms FileSource d l by (auto simp: build_store_def store_from_file_def read_file_def sum_Inr)
  have "store_wf s" unfolding f(4) by (rule from_source_wf) (use loaded_real[OF f(3)] in \<open>auto simp: source_wf_def\<close>)
  then show ?thesis
    using f FileSource by (auto simp: from_source_def Let_def store_generation_def metrics_set_generation_def)
next
  case AuthQuerySource
  obtain f config q where q: "cc_auth_query cc = Some f" "resolve (bd_env B) f = Inr config"
      "s = from_source (AuthQuery q) (snapshot_empty 0) (bd_nonce B) 0" "aq_cache q = aq_cache (auth_query_source_new config)"
      "aq_config q = config" "af_lazy f \<or> aq_client q"
    using build_auth_query[OF assms AuthQuerySource] by metis
  have "store_wf s"
    unfolding q(3) by (rule from_source_wf)
      (use connected_source_wf[OF new_source_wf q(4)] q(5) in \<open>auto simp: auth_query_source_new_def snapshot_get_def snapshot_empty_def real_answer_def\<close>)
  then show ?thesis
    using q resolve_Inr[OF q(2)] AuthQuerySource
    by (auto simp: from_source_def Let_def store_generation_def metrics_set_generation_def snapshot_empty_def)
qed


text \<open>Two keys of the block are read and then ignored.\<close>

lemma ignored_credential_keys:
  "build_store B (cc\<lparr>cc_default_iterations := i, cc_cluster_nonce_file := f\<rparr>) = build_store B cc"
  by (simp add: build_store_def split: source_kind.split)

text \<open>The digest depends on which keys are set, not on their values.\<close>

lemma config_digest_structure:
  assumes "cc_source a = cc_source b" and "(cc_file a = None) = (cc_file b = None)"
    and "(cc_cluster_nonce_file a = None) = (cc_cluster_nonce_file b = None)" and "(cc_auth_query a = None) = (cc_auth_query b = None)"
  shows "config_digest C a = config_digest C b"
  using assms by (simp add: config_digest_def)

definition demo_build :: build_env where
  "demo_build = \<lparr>bd_store = demo_store_env, bd_env = (\<lambda>_. None), bd_read = (\<lambda>_. Some ''x''), bd_db = demo_db,
     bd_nonce = replicate 32 1, bd_has_auth_query = False\<rparr>"

definition demo_credentials :: credentials_config where
  "demo_credentials = default_credentials\<lparr>cc_file := Some ''users.yaml''\<rparr>"

lemma demo_built: "\<exists>s. build_store demo_build demo_credentials = Inr s \<and> snapshot_get (st_snapshot s) ''u'' \<noteq> None"
proof -
  obtain loaded n where "snapshot_from_yaml toy_crypto (se_parse demo_store_env) (se_salts demo_store_env) ''x'' 0 = (Inr loaded, n)"
      "snapshot_get loaded ''u'' \<noteq> None"
    using demo_document by blast
  then show ?thesis
    by (auto simp: build_store_def demo_credentials_def default_credentials_def demo_build_def store_from_file_def read_file_def
        from_source_def Let_def snapshot_get_def demo_store_env_def)
qed


end
