(* ===== verification/Log_Text.thy ===== *)
theory Log_Text
  imports Credential_Config
begin

section \<open>What the log shows (\<open>Display\<close> and \<open>Debug\<close> of the errors and of the credentials block)\<close>

text \<open>
  The text of an error in the log is not the message a client gets: these are the \<open>Display\<close> implementations of
  \<open>proxy/error.rs\<close>, \<open>auth/error.rs\<close>, \<open>auth/scram/error.rs\<close>, \<open>backend/error.rs\<close> and the provider error, and the \<open>Debug\<close> of the
  \<open>auth_query\<close> block, which must not print the password in it. The texts of the standard library are the
  fields of the parameter record \<open>std_text\<close>: those of its own errors, and the quoting of a string.
\<close>

record std_text =
  sx_io :: "io_kind \<Rightarrow> string"
  sx_boxed :: "internal_error \<Rightarrow> string"
  sx_debug_str :: "string \<Rightarrow> string"

subsection \<open>Errors\<close>

fun provider_error_display :: "provider_error \<Rightarrow> string" where
  "provider_error_display (Unavailable _) = ''credential store unavailable''"

fun pg_error_display :: "std_text \<Rightarrow> pg_error \<Rightarrow> string" where
  "pg_error_display X PgConnectTimeout = ''backend connect timed out''"
| "pg_error_display X PgTlsTimeout = ''backend TLS handshake timed out''"
| "pg_error_display X PgStartupTimeout = ''backend did not finish starting up''"
| "pg_error_display X (PgIo k) = ''I/O error: '' @ sx_io X k"
| "pg_error_display X (PgTls m) = ''TLS error: '' @ m"
| "pg_error_display X (PgProtocol m) = ''protocol error: '' @ m"
| "pg_error_display X (PgAuth m) = ''backend authentication failed: '' @ m"
| "pg_error_display X (PgUnsupportedAuth m) = m"
| "pg_error_display X PgSaltMismatch =
     ''salt mismatch: the backend's SCRAM salt differs from the salt used for the client''"
| "pg_error_display X (PgChannelBindingRequired m) = ''channel binding required, but '' @ m"
| "pg_error_display X (PgBackend sev code message) = ''backend error '' @ code @ '' ('' @ sev @ ''): '' @ message"

fun scram_error_display :: "scram_error \<Rightarrow> string" where
  "scram_error_display (AuthenticationFailed message) = message"
| "scram_error_display (ScramProtocol error) = ''scram_authenticator protocol violation: '' @ error"
| "scram_error_display ChannelBindingMismatch = scram_error_message ChannelBindingMismatch"
| "scram_error_display ChannelBindingDowngrade = scram_error_message ChannelBindingDowngrade"

fun internal_error_display :: "std_text \<Rightarrow> internal_error \<Rightarrow> string" where
  "internal_error_display X (ProviderInternal e) = provider_error_display e"
| "internal_error_display X (ConfigInternal e) = config_error_display e"
| "internal_error_display X e = sx_boxed X e"

text \<open>\<open>Display\<close> and, for a client-aware error, its client message.\<close>

fun proxy_error_display :: "std_text \<Rightarrow> proxy_error \<Rightarrow> string" where
  "proxy_error_display X (Internal e) = internal_error_display X e"
| "proxy_error_display X (ConnectionError e) = client_message e"

fun auth_error_display :: "auth_error \<Rightarrow> string" where
  "auth_error_display (ScramAuth e) = scram_error_display e"
| "auth_error_display (ProviderAuth e) = provider_error_display e"

fun auth_failure_display :: "std_text \<Rightarrow> auth_failure \<Rightarrow> string" where
  "auth_failure_display X (Rejected e) = auth_error_display e"
| "auth_failure_display X (AuthInternal e) = internal_error_display X e"

fun auth_failure_debug :: "std_text \<Rightarrow> auth_failure \<Rightarrow> string" where
  "auth_failure_debug X (Rejected e) = ''Rejected('' @ auth_error_display e @ '')''"
| "auth_failure_debug X (AuthInternal e) = ''Internal('' @ internal_error_display X e @ '')''"

subsection \<open>The \<open>auth_query\<close> block\<close>

text \<open>\<open>debug_struct\<close> of the standard library: the fields in order, each with its name.\<close>

fun debug_fields :: "(string \<times> string) list \<Rightarrow> string" where
  "debug_fields [] = []"
| "debug_fields [(name, shown)] = name @ '': '' @ shown"
| "debug_fields ((name, shown) # f # fs) = name @ '': '' @ shown @ '', '' @ debug_fields (f # fs)"

definition debug_struct :: "string \<Rightarrow> (string \<times> string) list \<Rightarrow> string" where
  "debug_struct name shown = name @ '' { '' @ debug_fields shown @ '' }''"

definition debug_option :: "('a \<Rightarrow> string) \<Rightarrow> 'a option \<Rightarrow> string" where
  "debug_option f x = (case x of None \<Rightarrow> ''None'' | Some v \<Rightarrow> ''Some('' @ f v @ '')'')"

definition auth_query_debug :: "std_text \<Rightarrow> auth_query_file_config \<Rightarrow> string" where
  "auth_query_debug X f =
     (let dbg = sx_debug_str X in
      debug_struct ''AuthQueryFileConfig''
        [(''host'', dbg (af_host f)), (''port'', show_u16 (af_port f)), (''user'', dbg (af_user f)),
         (''password'', debug_option dbg (map_option (\<lambda>_. ''<redacted>'') (af_password f))),
         (''password_env'', debug_option dbg (af_password_env f)), (''database'', dbg (af_database f)), (''query'', dbg (af_query f)),
         (''cache_ttl_ms'', show_u64 (af_cache_ttl_ms f)),
         (''negative_cache_ttl_ms'', debug_option show_u64 (af_negative_cache_ttl_ms f)),
         (''max_entries'', show_nat (af_max_entries f)), (''lazy'', if af_lazy f then ''true'' else ''false'')])"

subsection \<open>What it does not show\<close>

text \<open>The block prints alike whatever password stands in it.\<close>

theorem debug_hides_the_password:
  "map_option (\<lambda>_. ()) p = map_option (\<lambda>_. ()) q \<Longrightarrow> auth_query_debug X (f\<lparr>af_password := p\<rparr>) = auth_query_debug X (f\<lparr>af_password := q\<rparr>)"
  by (cases p; cases q) (simp_all add: auth_query_debug_def)

text \<open>A failure to reach the credential store logs the same sentence whatever went wrong.\<close>

lemma outage_text_is_fixed:
  "auth_failure_display X (Rejected (ProviderAuth e)) = ''credential store unavailable''"
  "proxy_error_display X (Internal (ProviderInternal e)) = ''credential store unavailable''"
  by (cases e; simp)+

text \<open>A client never sees the text the log has for a backend failure, save the few failures that describe its own request.\<close>

lemma log_has_the_detail:
  assumes "code \<notin> {''3D000'', ''53300'', ''57P03''}"
  shows "client_message (PgErr (PgBackend sev code message)) \<noteq> pg_error_display X (PgBackend sev code message)"
  using assms by (auto simp: classify_backend_error_def)

end
