(* ===== verification/Conn_Demo.thy ===== *)
theory Conn_Demo
  imports Conn_Ready
begin

section \<open>Sessions on concrete libraries\<close>

text \<open>
  The properties of the session theories applied to one world: the example cryptography, a provider
  that knows the user \<open>u\<close>, and a backend that accepts every login. \<open>demo_conn\<close> is a session whose client
  has sent its startup message and the two messages of an honest SCRAM exchange.
\<close>

definition demo_pool :: multi_buffer_pool where
  "demo_pool = \<lparr>buckets = [new_bucket 4096 0]\<rparr>"

definition demo_env :: "(unit, unit) env" where
  "demo_env = \<lparr>e_crypto = toy_crypto, e_net = demo_net\<lparr>net_connect := (\<lambda>_. Inr demo_link)\<rparr>,
     e_config = (default_config ())\<lparr>backend := default_backend_config\<lparr>backend_tls := default_tls_config\<lparr>tls_mode := TlsDisable\<rparr>\<rparr>\<rparr>,
     e_tls = None, e_lookup = (\<lambda>user p. (Ok (if user = ''u'' then Some demo_verifier else None), p)),
     e_dummy = (\<lambda>p user. dummy_verifier toy_crypto user (replicate 32 1)), e_order = id,
     e_nonce = (\<lambda>_. replicate 32 9), e_client_nonce = (\<lambda>_. replicate 18 3), e_key_rng = (\<lambda>_. 7)\<rparr>"

definition demo_first_text :: string where
  "demo_first_text = honest_first ''n'' ''abc''"

definition demo_final_text :: string where
  "demo_final_text = honest_final toy_crypto demo_auth demo_key"

definition demo_stream :: bytes where
  "demo_stream = startup_frame [(''user'', ''u'')] @ frame 0x70 (sasl_initial_body SCRAM_SHA_256 demo_first_text)
     @ frame 0x70 (as_bytes demo_final_text)"

definition demo_conn :: "unit conn" where
  "demo_conn = conn_new 1 [demo_stream] False None demo_pool () registry_new (slots_new 1)"

subsection \<open>Facts of the example\<close>

lemma hex_encode_length [simp]: "length (hex_encode bs) = 2 * length bs"
  by (induction bs) (simp_all add: hex_encode_def)

lemma toy_b64_length [simp]: "length (b64_encode toy_crypto bs) = 2 * length bs"
  by (simp add: toy_crypto_def)

lemma demo_pool_facts: "pool_inv demo_pool" "max_capacity demo_pool = 4096"
  by (simp_all add: pool_inv_def pool_ok_def bucket_ok_def demo_pool_def new_bucket_def max_capacity_def)

lemma demo_address: "backend_host_port (e_config demo_env) = Inr (''127.0.0.1'', 5432)"
proof -
  have "rsplit_once (CHR '':'') ''127.0.0.1:5432'' = Some (''127.0.0.1'', ''5432'')" by (simp add: rsplit_once_Some)
  moreover have "show_u16 5432 = ''5432''" by (simp add: show_u16_def show_nat.simps digit_char_def) code_simp
  then have "parse_u16 ''5432'' = Some 5432" by (metis parse_u16_show_u16)
  ultimately show ?thesis
    by (simp add: backend_host_port_def demo_env_def default_config_def default_backend_config_def)
qed

lemma demo_env_facts [simp]:
  "e_crypto demo_env = toy_crypto" "e_lookup demo_env user p = (Ok (if user = ''u'' then Some demo_verifier else None), p)"
  "e_nonce demo_env n = replicate 32 9" "e_tls demo_env = None" "env_ok demo_env" "e_key_rng demo_env = (\<lambda>_. 7)"
  "e_dummy demo_env p user = dummy_verifier toy_crypto user (replicate 32 1)" "e_client_nonce demo_env n = replicate 18 3"
  "max_startup_bytes (limits (e_config demo_env)) = 10000" "net_connect (e_net demo_env) a = Inr demo_link"
  "tls_mode (backend_tls (backend (e_config demo_env))) = TlsDisable"
  by (simp_all add: demo_env_def env_ok_def default_config_def default_limits_def)

lemma demo_auth_facts:
  "sa_verifier demo_auth = demo_verifier" "gs2_header demo_auth = ''n,,''" "choosed_mechanism demo_auth = SCRAM_SHA_256"
  "combined_nonce demo_auth = ''abc-'' @ b64_encode toy_crypto (replicate 32 9)"
  by (simp_all add: demo_auth_def first_accepted_def authenticator_new_def)

lemma demo_final_facts: "length demo_final_text = 146" "is_ascii demo_final_text"
  unfolding demo_final_text_def honest_final_def final_without_proof_def expected_cbind_def
  using demo_key_facts(2) crypto_lawsD(4)[OF toy_crypto_laws]
  by (simp_all add: Let_def demo_auth_facts toy_crypto_laws SCRAM_SHA_256_def PLUS_def as_bytes_def)

lemma demo_conn_facts [simp]:
  "incoming demo_conn = demo_stream" "cn_pool demo_conn = demo_pool" "cn_transport demo_conn = PlainLink"
  "cn_writes_left demo_conn = None" "cn_params demo_conn = []" "\<not> cn_required_tls demo_conn" "cn_sent demo_conn = []"
  "cn_registry demo_conn = registry_new" "cn_provider demo_conn = ()" "\<not> cn_ssl_done demo_conn"
  by (simp_all add: demo_conn_def conn_new_def incoming_def)

lemma demo_minted: "session_key_new (\<lambda>_. 7) n = (\<lparr>skey = 7, ssecret = 7\<rparr>, Suc (Suc n))"
  using key_draws.simps(2)[of 63 "\<lambda>_. 7" n] by (simp add: session_key_new_def)

lemma demo_unregistered: "lookup_by_key registry_new key = None"
  by (simp add: lookup_by_key_def registry_new_def)

lemma demo_link_facts:
  "lk_rx demo_link = concat (map item_frame [AuthOk]) @ frame 0x5A [0x49] @ []" "lk_left demo_link = None"
  by (simp_all add: demo_link_def item_frame_def frame_def to_be32_def)

lemma demo_tls: "try_tls toy_crypto N (make_pg_config demo_env s key v user database host port) l = (Ok None, l)"
  by (simp add: try_tls_def make_pg_config_def Let_def prog_simps)

lemma demo_utf8: "utf8_valid (as_bytes demo_first_text)" "utf8_valid (as_bytes demo_final_text)"
  by (rule utf8_valid_str, simp add: demo_first_text_def honest_first_def)
     (rule utf8_valid_str, rule demo_final_facts)

lemma demo_lengths:
  "length (sasl_initial_body SCRAM_SHA_256 demo_first_text) = 29" "length (startup_frame [(''user'', ''u'')]) = 16"
  by (simp_all add: sasl_initial_body_def demo_first_text_def honest_first_def put_cstr_def to_be32_length length_as_bytes
      SCRAM_SHA_256_def startup_frame_def encode_pairs_def)

lemma demo_accepted:
  "handle_client_first toy_crypto (replicate 32 9) SCRAM_SHA_256 demo_first_text ''u'' (authenticator_new demo_verifier None) =
    (Ok (server_first demo_auth), demo_auth)"
  "\<exists>reply a'. handle_client_final toy_crypto demo_final_text ''u'' demo_auth = (Ok reply, a') \<and> extracted_client_key a' = Some demo_key"
proof -
  show "handle_client_first toy_crypto (replicate 32 9) SCRAM_SHA_256 demo_first_text ''u'' (authenticator_new demo_verifier None) =
    (Ok (server_first demo_auth), demo_auth)" unfolding demo_first_text_def by (rule demo_first)
  have "sa_state demo_auth = ClientFirstReceived" "prefix (client_nonce demo_auth) (combined_nonce demo_auth)"
    by (simp_all add: demo_auth_def first_accepted_def)
  then show "\<exists>reply a'. handle_client_final toy_crypto demo_final_text ''u'' demo_auth = (Ok reply, a') \<and> extracted_client_key a' = Some demo_key"
    using honest_final_accepted[OF toy_crypto_laws, of demo_auth demo_key "''u''"] demo_key_facts demo_auth_facts
    by (simp add: demo_final_text_def toy_crypto_laws)
qed

lemma demo_plain: "plain_text ''user''" "plain_text ''u''"
  unfolding plain_text_def by (rule conjI, simp, rule utf8_valid_str, simp)+

subsection \<open>The properties applied\<close>

theorem valid_startup_becomes_ready_witness:
  "\<exists>s'. drive_startup_until_ready demo_env demo_conn = (Ok Ready, s') \<and> length (cn_sent s') = 6"
proof -
  let ?ps = "[(''user'', ''u'')]"
  obtain reply a' where final: "handle_client_final toy_crypto demo_final_text ''u'' demo_auth = (Ok reply, a')"
      "extracted_client_key a' = Some demo_key" using demo_accepted(2) by blast
  have "\<exists>s'. drive_startup_until_ready demo_env demo_conn = (Ok Ready, s') \<and>
    cn_sent s' = cn_sent demo_conn @ map (\<lambda>bs. (cn_transport demo_conn, bs))
      (auth_frames (mechanisms (authenticator_new demo_verifier None)) (server_first demo_auth) reply @
       map (item_frame \<circ> Announce) (announced [AuthOk]) @
       [frame 0x4B (to_be32 (skey \<lparr>skey = 7, ssecret = 7\<rparr>) @ to_be32 (ssecret \<lparr>skey = 7, ssecret = 7\<rparr>)), frame 0x5A [0x49]])"
    by (rule valid_startup_becomes_ready[where ps = ?ps and m = ?ps and mech = SCRAM_SHA_256 and user = "''u''"
          and ?c1.0 = demo_first_text and ?c2.0 = demo_final_text and rest = "[]" and v = demo_verifier and w = demo_verifier and p = "()" and p' = "()"
          and a = demo_auth and a' = a' and client_key = demo_key and host = "''127.0.0.1''" and port = 5432
          and cfg = "make_pg_config demo_env (demo_conn\<lparr>cn_params := ?ps\<rparr>) demo_key demo_verifier ''u'' (session_database ?ps ''u'') ''127.0.0.1'' 5432"
          and tcp = demo_link and l = demo_link and hash = None and later = "[]" and i = "Suc (Suc (cn_key_pos demo_conn))"])
       (simp_all add: demo_stream_def good_pair_def demo_plain hm_insert_def merge_options_def hm_extend_def demo_pool_facts demo_lengths
          demo_final_facts demo_utf8 demo_accepted final offered_cert_hash_def demo_address demo_tls demo_link_facts demo_minted demo_unregistered)
  then show ?thesis by (auto simp: auth_frames_def)
qed

text \<open>The state in which the provider's verifier is to be proved.\<close>

definition demo_login :: "unit conn" where
  "demo_login = demo_conn\<lparr>cn_user := Some ''u'', cn_database := Some ''u'', cn_sock :=
     [frame 0x70 (sasl_initial_body SCRAM_SHA_256 demo_first_text) @ frame 0x70 (as_bytes demo_final_text)]\<rparr>"

lemma demo_login_facts [simp]:
  "cn_user demo_login = Some ''u''" "cn_pool demo_login = demo_pool" "cn_transport demo_login = PlainLink"
  "cn_writes_left demo_login = None" "cn_provider demo_login = ()" "\<not> cn_ssl_done demo_login" "cn_sent demo_login = []"
  "incoming demo_login = frame 0x70 (sasl_initial_body SCRAM_SHA_256 demo_first_text) @ frame 0x70 (as_bytes demo_final_text)"
  by (simp_all add: demo_login_def, simp add: demo_conn_def conn_new_def incoming_def)

theorem authentication_completes_witness:
  "\<exists>t. handle_authentication demo_env demo_login = (Ok (Some demo_key), t) \<and> incoming t = [] \<and> length (cn_sent t) = 4"
proof -
  obtain reply a' where final: "handle_client_final toy_crypto demo_final_text ''u'' demo_auth = (Ok reply, a')"
      "extracted_client_key a' = Some demo_key" using demo_accepted(2) by blast
  have "\<exists>t. handle_authentication demo_env demo_login = (Ok (extracted_client_key a'), t) \<and> incoming t = [] \<and>
    cn_sent t = cn_sent demo_login @ map (\<lambda>bs. (cn_transport demo_login, bs))
      (auth_frames (mechanisms (authenticator_new demo_verifier None)) (server_first demo_auth) reply)"
    by (rule authentication_completes[where user = "''u''" and v = demo_verifier and p = "()" and mech = SCRAM_SHA_256
          and ?c1.0 = demo_first_text and ?c2.0 = demo_final_text and a = demo_auth])
       (simp_all add: demo_pool_facts demo_utf8 demo_lengths demo_final_facts demo_accepted final offered_cert_hash_def)
  then show ?thesis using final(2) by (auto simp: auth_frames_def)
qed

text \<open>A session that has read its startup packet, with any provider and any environment like the one above.\<close>

definition demo_start :: "'p \<Rightarrow> 'p conn" where
  "demo_start p = conn_new 1 [frame 0x70 (sasl_initial_body SCRAM_SHA_256 demo_first_text) @ frame 0x70 (as_bytes demo_final_text)]
     False None demo_pool p registry_new (slots_new 1)"

definition demo_reader :: message_reader where
  "demo_reader = reader_new (encode_pairs [(''user'', ''u'')] @ [0])"

lemma demo_packet_ready:
  assumes "e_crypto E = toy_crypto" and "\<And>n. e_nonce E n = replicate 32 9" and "e_tls E = None" and "e_key_rng E = (\<lambda>_. 7)"
    and "backend_host_port (e_config E) = Inr (''127.0.0.1'', 5432)" and "\<And>a. net_connect (e_net E) a = Inr demo_link"
    and "tls_mode (backend_tls (backend (e_config E))) = TlsDisable"
    and "e_lookup E ''u'' p = (Ok (Some demo_verifier), p1)" and "e_lookup E ''u'' p1 = (Ok (Some demo_verifier), p2)"
  shows "\<exists>s'. handle_startup_packet E PROTOCOL_VERSION_NUMBER demo_reader (demo_start p) = (Ok Ready, s')"
proof -
  let ?ps = "[(''user'', ''u'')]"
  let ?s = "(demo_start p)\<lparr>cn_protocol_version := Some PROTOCOL_VERSION_NUMBER, cn_params := ?ps,
    cn_user := Some ''u'', cn_database := Some (session_database ?ps ''u'')\<rparr>"
  let ?cfg = "make_pg_config E ?s demo_key demo_verifier ''u'' (session_database ?ps ''u'') ''127.0.0.1'' 5432"
  obtain reply a' where final: "handle_client_final toy_crypto demo_final_text ''u'' demo_auth = (Ok reply, a')"
      "extracted_client_key a' = Some demo_key" using demo_accepted(2) by blast
  have parse: "parse_startup_message PROTOCOL_VERSION_NUMBER demo_reader (demo_start p) = (Ok (), ?s)"
    by (rule parse_startup_step[where ps = ?ps])
       (simp_all add: demo_reader_def demo_start_def conn_new_def unread_def reader_new_def good_pair_def demo_plain hm_extend_def
          hm_insert_def merge_options_def)
  have start: "incoming ?s = frame 0x70 (sasl_initial_body SCRAM_SHA_256 demo_first_text) @ frame 0x70 (as_bytes demo_final_text) @ []"
    "cn_pool ?s = demo_pool" "cn_transport ?s = PlainLink" "cn_writes_left ?s = None" "cn_registry ?s = registry_new"
    "cn_provider ?s = p" "\<not> cn_ssl_done ?s" "cn_user ?s = Some ''u''"
    by (simp_all add: demo_start_def conn_new_def incoming_def)
  have tls: "try_tls (e_crypto E) (e_net E) ?cfg demo_link = (Ok None, demo_link)"
    by (simp add: try_tls_def make_pg_config_def Let_def prog_simps assms(7))
  have "\<exists>b s'. handle_startup_packet E PROTOCOL_VERSION_NUMBER demo_reader (demo_start p) = (Ok Ready, s') \<and> True \<and>
    lookup_by_key (cn_registry s') \<lparr>skey = 7, ssecret = 7\<rparr> = Some b \<and> cn_verified s' = be_verified b \<and>
    cn_sent s' = cn_sent ?s @ map (\<lambda>bs. (cn_transport ?s, bs))
      (auth_frames (mechanisms (authenticator_new demo_verifier (offered_cert_hash E ?s))) (server_first demo_auth) reply @
       session_frames b \<lparr>skey = 7, ssecret = 7\<rparr>) \<and> pool_like (cn_pool s') (cn_pool ?s)"
  proof (rule startup_packet_opens[where r = demo_reader and s = ?s and user = "''u''" and v = demo_verifier and w = demo_verifier
        and p = p1 and p' = p2 and a = demo_auth and a' = a' and host = "''127.0.0.1''" and port = 5432 and cfg = ?cfg
        and i = "Suc (Suc (cn_key_pos ?s))", OF parse _ _ _ _ _ _ start(1) _ _ _ _ _ _ refl _ _ final(2) _ _ assms(5) refl])
    fix q assume "pool_like q (cn_pool ?s)"
    then have "pool_inv q" "max_capacity q = 4096"
      using pool_like_capacity[of q demo_pool] demo_pool_facts(2) start(2) by (auto simp: pool_like_def)
    then show "\<exists>b q'. backend_new (e_crypto E) (e_net E) (e_client_nonce E) ?cfg q = (Ok b, q') \<and> pool_like q' q \<and> True"
      using backend_accepts[OF _ tls demo_link_facts(2,1), of q "e_client_nonce E"] assms(6) by auto
  qed (use demo_pool_facts demo_utf8 demo_lengths demo_final_facts demo_accepted(1) final(1) start(2-) assms(1-4,8,9)
    in \<open>auto simp: offered_cert_hash_def demo_minted demo_unregistered\<close>)
  then show ?thesis by blast
qed




theorem bad_first_length_is_refused_unread_witness:
  "fst (handle_startup demo_env (demo_conn\<lparr>cn_sock := [[0, 0], [0, 3], [9]]\<rparr>)) = Err (connection_error InvalidMessageLength)"
proof -
  let ?s = "demo_conn\<lparr>cn_sock := [[0, 0], [0, 3], [9]]\<rparr>"
  have ins: "incoming ?s = [0, 0, 0, 3, 9]" by (simp add: incoming_def demo_conn_def conn_new_def)
  have len: "unat (be32_at (incoming ?s)) = 3" unfolding ins by (simp add: be32_at_def from_be32_def)
  show ?thesis
    using bad_first_length_is_refused_unread[where E = demo_env and s = ?s, OF _ _ len[symmetric] refl] ins by auto
qed

theorem tls_promotion_discards_plaintext_witness:
  "handle_ssl_request (demo_env\<lparr>e_tls := Some \<lparr>ft_accept = (\<lambda>segments eof. Ok (segments, eof)), ft_cert_hash = None\<rparr>\<rparr>)
      (demo_conn\<lparr>cn_rbuf := [1, 2, 3]\<rparr>) =
    (Ok (), demo_conn\<lparr>cn_transport := TlsLink, cn_sent := [(PlainLink, [0x53])], cn_ssl_done := True\<rparr>)"
proof -
  let ?tls = "\<lparr>ft_accept = (\<lambda>segments eof. Ok (segments, eof)), ft_cert_hash = None\<rparr>"
  let ?t = "demo_conn\<lparr>cn_transport := TlsLink, cn_sent := [(PlainLink, [0x53])], cn_ssl_done := True\<rparr>"
  have "cn_rbuf demo_conn = []" by (simp add: demo_conn_def conn_new_def)
  then have "handle_ssl_request (demo_env\<lparr>e_tls := Some ?tls\<rparr>) demo_conn = (Ok (), ?t)"
    by (simp add: handle_ssl_request_def bnd_def map_err_def prog_simps promote_to_tls_def Let_def c_write_open)
  from tls_promotion_discards_plaintext[OF this] show ?thesis by simp
qed

theorem error_response_round_trip_witness:
  "parse_error_response (prepare_error_buf ''FATAL'' ''28P01'' ''no'') = (''FATAL'', ''28P01'', ''no'')"
proof (rule error_response_round_trip)
  show "plain_text ''FATAL''" "plain_text ''28P01''" "plain_text ''no''"
    unfolding plain_text_def by (rule conjI, simp, rule utf8_valid_str, simp)+
qed

lemma demo_pairs: "list_all good_pair (startup_pairs demo_pg_config)"
proof -
  have "plain_text ''database''" "plain_text ''db''" "plain_text ''alice''" "plain_text ''application_name''" "plain_text ''wirechaos''"
    unfolding plain_text_def by (rule conjI, simp, rule utf8_valid_str, simp)+
  then show ?thesis by (simp add: startup_pairs_def saw_def demo_pg_config_def good_pair_def demo_plain)
qed

theorem startup_message_round_trip_witness:
  "\<exists>r r' ps. read_u32 (reader_new (startup_body demo_pg_config)) = (Ok PROTOCOL_VERSION_NUMBER, r) \<and>
    read_params r [] = (Ok (True, r'), ps) \<and> ''database'' \<in> dom (map_of ps)"
  using startup_message_round_trip[OF demo_pairs, unfolded insert_subset] by meson

definition demo_client :: pg_client where
  "demo_client = \<lparr>pc_pool = demo_pool, pc_link = demo_link, pc_notifications = [],
     pc_backend_key = Some \<lparr>bk_pid = 11, bk_secret = 12\<rparr>, pc_ready_status = None, pc_verified = False, pc_cert_hash = None,
     pc_host = ''db'', pc_port = 5432, pc_connect_timeout = 2000, pc_draws = 0\<rparr>"

theorem session_is_announced_in_order_witness:
  "\<exists>s'. publish_session demo_env (backend_of_client demo_client) demo_login = (Ok Ready, s') \<and> length (cn_sent s') = 2"
proof -
  have "cn_registry demo_login = registry_new" by (simp add: demo_login_def)
  then show ?thesis
    using session_is_announced_in_order[of demo_login demo_env "\<lparr>skey = 7, ssecret = 7\<rparr>" "Suc (Suc (cn_key_pos demo_login))"
        "backend_of_client demo_client"]
    by (auto simp: demo_minted demo_unregistered session_frames_def backend_of_client_def demo_client_def)
qed

theorem cancel_reaches_the_owning_backend_witness:
  "cn_cancel_log (snd (startup_dispatch demo_env (to_be32 CANCEL_REQUEST_CODE @ to_be32 1 @ to_be32 2)
      (demo_conn\<lparr>cn_registry := \<lparr>conn_backend = (\<lambda>_. None),
         key_secret_backend = [\<lparr>skey = 1, ssecret = 2\<rparr> \<mapsto> backend_of_client demo_client]\<rparr>\<rparr>))) =
    [(''db:5432'', cancel_packet \<lparr>bk_pid = 11, bk_secret = 12\<rparr>)]"
proof -
  let ?s = "demo_conn\<lparr>cn_registry := \<lparr>conn_backend = (\<lambda>_. None),
         key_secret_backend = [\<lparr>skey = 1, ssecret = 2\<rparr> \<mapsto> backend_of_client demo_client]\<rparr>\<rparr>"
  have b: "Some (backend_of_client demo_client) = lookup_by_key (cn_registry ?s) \<lparr>skey = 1, ssecret = 2\<rparr>"
    by (simp add: lookup_by_key_def)
  have "show_u16 5432 = ''5432''" by (simp add: show_u16_def show_nat.simps digit_char_def) code_simp
  moreover have "cn_cancel_log demo_conn = []" by (simp add: demo_conn_def conn_new_def)
  ultimately show ?thesis
    using cancel_reaches_the_owning_backend[OF b, of demo_env]
    by (auto simp: backend_of_client_def demo_client_def demo_link_facts)
qed

theorem announcements_reach_the_client_unchanged_witness:
  "\<exists>c' s'. handle_startup_handshake toy_crypto demo_net (\<lambda>_. [1]) demo_pg_config demo_client = (Ok (), c') \<and>
    publish_session demo_env (backend_of_client c') demo_login = (Ok Ready, s') \<and> length (cn_sent s') = 2"
proof -
  have "cn_registry demo_login = registry_new" "cn_sent demo_login = []" by (simp_all add: demo_login_def)
  then show ?thesis
    using announcements_reach_the_client_unchanged[of demo_client "[AuthOk]" "0x49" "[]" demo_login demo_env
        "\<lparr>skey = 7, ssecret = 7\<rparr>" "Suc (Suc (cn_key_pos demo_login))" toy_crypto demo_net "\<lambda>_. [1]" demo_pg_config]
    by (fastforce simp: demo_minted demo_unregistered demo_client_def demo_link_facts demo_pool_facts to_be32_length)
qed

subsection \<open>A SCRAM login at the backend\<close>

definition demo_scram_client :: scram_client where
  "demo_scram_client = scram_client_new toy_crypto (replicate 18 3) None None None (Some [112, 119])"

definition demo_backend_first :: string where
  "demo_backend_first = server_first_text toy_crypto (cl_nonce demo_scram_client @ ''-'' @ b64_encode toy_crypto (replicate 32 4)) demo_verifier"

lemma demo_backend_first_facts: "length demo_backend_first = 145" "is_ascii demo_backend_first"
proof -
  have i: "show_u32 4096 = ''4096''" by (simp add: show_u32_def show_nat.simps digit_char_def) code_simp
  show "length demo_backend_first = 145" "is_ascii demo_backend_first"
    by (simp_all add: demo_backend_first_def server_first_text_def demo_scram_client_def scram_client_new_def demo_verifier_def
        from_password_def Let_def i toy_crypto_laws) (simp add: toy_crypto_def)
qed

lemma demo_backend_exchange:
  "\<exists>c2 cl' s2. client_final_message toy_crypto demo_backend_first [] 4096 demo_scram_client = (Ok c2, cl') \<and>
    verify_server_final toy_crypto cl' s2 = Inr True \<and> length s2 = 66 \<and> is_ascii s2"
proof -
  have good: "good_nonce demo_scram_client" "binding_agrees toy_crypto demo_scram_client SCRAM_SHA_256 None"
    unfolding demo_scram_client_def
    by (rule good_nonce_new[OF toy_crypto_laws], simp, simp add: binding_agrees_def scram_client_new_def)
  have keys: "client_keys toy_crypto demo_scram_client (v_salt demo_verifier) (v_iterations demo_verifier) [] 4096 =
      Inr (demo_key, v_stored_key demo_verifier, Some (v_server_key demo_verifier))"
    using password_keys[of demo_scram_client "[112, 119]" toy_crypto "replicate 16 7" 4096 "[]" 4096]
    by (simp add: demo_scram_client_def scram_client_new_def demo_key_def demo_verifier_def from_password_def Let_def)
  obtain s1 a c2 cl' s2 a' where x: "handle_client_first toy_crypto (replicate 32 4) SCRAM_SHA_256
        (client_first_message demo_scram_client) ''u'' (authenticator_new demo_verifier None) = (Ok s1, a)"
      "client_final_message toy_crypto s1 [] 4096 demo_scram_client = (Ok c2, cl')"
      "handle_client_final toy_crypto c2 ''u'' a = (Ok s2, a')" "verify_server_final toy_crypto cl' s2 = Inr True"
    using exchange_completes[OF toy_crypto_laws good _ keys demo_key_facts(2,1,3), of "''u''"] by (metis list.simps(3))
  have "s1 = demo_backend_first"
    using first_step[OF good, of "''u''" "replicate 32 4" demo_verifier] x(1) by (simp add: demo_backend_first_def)
  moreover have "length s2 = 66" "is_ascii s2"
    using x(3) crypto_lawsD(4)[OF toy_crypto_laws] by (auto simp: handle_client_final_Ok Let_def toy_crypto_laws)
  ultimately show ?thesis using x(2,4) by blast
qed

theorem backend_login_completes_witness:
  "\<exists>s2 c'. handle_startup_handshake toy_crypto demo_net (\<lambda>_. replicate 18 3) demo_pg_config
      (demo_client\<lparr>pc_link := demo_link\<lparr>lk_rx := frame 0x52 (to_be32 10 @ mechanism_list [ScramSha256])
         @ frame 0x52 (to_be32 11 @ as_bytes demo_backend_first) @ frame 0x52 (to_be32 12 @ as_bytes s2) @ frame 0x5A [0x49]\<rparr>\<rparr>)
    = (Ok (), c') \<and> pc_verified c' \<and> pc_ready_status c' = Some 0x49"
proof -
  obtain c2 cl' s2 where x: "client_final_message toy_crypto demo_backend_first [] 4096 demo_scram_client = (Ok c2, cl')"
      "verify_server_final toy_crypto cl' s2 = Inr True" "length s2 = 66" "is_ascii s2"
    using demo_backend_exchange by blast
  let ?c = "demo_client\<lparr>pc_link := demo_link\<lparr>lk_rx := frame 0x52 (to_be32 10 @ mechanism_list [ScramSha256])
         @ frame 0x52 (to_be32 11 @ as_bytes demo_backend_first) @ frame 0x52 (to_be32 12 @ as_bytes s2) @ frame 0x5A [0x49]\<rparr>\<rparr>"
  have cl: "demo_scram_client = sasl_client toy_crypto (\<lambda>_. replicate 18 3) demo_pg_config ScramSha256 ?c"
    by (simp add: sasl_client_def client_for_def demo_scram_client_def demo_pg_config_def)
  have "\<exists>c'. handle_startup_handshake toy_crypto demo_net (\<lambda>_. replicate 18 3) demo_pg_config ?c = (Ok (), c') \<and> pc_verified c' = True \<and>
      pc_notifications c' = pc_notifications ?c @ announced [] \<and> pc_ready_status c' = Some 0x49 \<and> lk_rx (pc_link c') = [] \<and>
      lk_tx (pc_link c') = lk_tx (pc_link ?c) @ [sasl_first_frame ScramSha256 demo_scram_client, frame 0x70 (as_bytes c2)]"
    by (rule backend_login_completes[where ms = "[ScramSha256]" and ?s1.0 = demo_backend_first and ?s2.0 = s2 and rest = "[]", OF _ _ cl _ x(2)])
       (simp_all add: demo_client_def x demo_pool_facts demo_link_facts demo_backend_first_facts utf8_valid_str
          select_mechanism_def demo_pg_config_def default_tls_config_def mechanism_list_def length_as_bytes)
  then show ?thesis by blast
qed

end
