(* ===== verification/Auth_Concurrent.thy ===== *)
theory Auth_Concurrent
  imports Auth_Query
begin

section \<open>Lookups at the same time (\<open>auth/credentials/auth_query.rs\<close>)\<close>

text \<open>
  Sessions look users up concurrently. The cache and the client are behind a mutex each, and a lookup takes and
  releases them one after the other: it reads the clock, asks the cache, makes sure there is a client, sends
  the query on it, and tells the cache what the row says. Between any two of these steps time may pass and other
  lookups, or a \<open>forget\<close>, may happen. \<open>lookup_step\<close> is one step of the lookup with the number \<open>i\<close>; \<open>ls_queries\<close> records
  which use of the database answered a query for whom, and when.
\<close>

datatype lookup_point =
    Resting
  | Asking string nat
  | Missed string nat
  | Connected string nat
  | Read string nat "string option"
  | Returned string nat "(verifier option, provider_error) outcome"

record lookup_system =
  ls_source :: auth_query_source
  ls_clock :: nat
  ls_points :: "nat \<Rightarrow> lookup_point"
  ls_queries :: "(string \<times> nat \<times> nat) set"

definition at_point :: "nat \<Rightarrow> lookup_point \<Rightarrow> auth_query_source \<Rightarrow> lookup_system \<Rightarrow> lookup_system" where
  "at_point i p source S = S\<lparr>ls_points := (ls_points S)(i := p), ls_source := source\<rparr>"

fun at_rest :: "lookup_point \<Rightarrow> bool" where
  "at_rest Resting = True"
| "at_rest (Returned _ _ _) = True"
| "at_rest _ = False"

inductive lookup_step :: "crypto \<Rightarrow> lookup_db \<Rightarrow> lookup_system \<Rightarrow> lookup_system \<Rightarrow> bool" for C D where
  time_passes: "ls_clock S \<le> now \<Longrightarrow> lookup_step C D S (S\<lparr>ls_clock := now\<rparr>)"
| begin_lookup: "at_rest (ls_points S i) \<Longrightarrow>
     lookup_step C D S (at_point i (Asking user (ls_clock S)) (ls_source S) S)"
| cache_hit: "ls_points S i = Asking user at \<Longrightarrow> on_aq_cache (cache_get user at) (ls_source S) = (Ok (Some r), source) \<Longrightarrow>
     lookup_step C D S (at_point i (Returned user at (Ok r)) source S)"
| cache_miss: "ls_points S i = Asking user at \<Longrightarrow> on_aq_cache (cache_get user at) (ls_source S) = (Ok None, source) \<Longrightarrow>
     lookup_step C D S (at_point i (Missed user at) source S)"
| connects: "ls_points S i = Missed user at \<Longrightarrow> ensure_connected D (ls_source S) = (Ok (), source) \<Longrightarrow>
     lookup_step C D S (at_point i (Connected user at) source S)"
| refused: "ls_points S i = Missed user at \<Longrightarrow> ensure_connected D (ls_source S) = (Err e, source) \<Longrightarrow>
     lookup_step C D S (at_point i (Returned user at (Err e)) source S)"
| queries: "ls_points S i = Connected user at \<Longrightarrow> query_client D user (ls_source S) = (Ok row, source) \<Longrightarrow>
     lookup_step C D S ((at_point i (Read user at row) source S)
       \<lparr>ls_queries := insert (user, aq_uses (ls_source S), ls_clock S) (ls_queries S)\<rparr>)"
| query_fails: "ls_points S i = Connected user at \<Longrightarrow> query_client D user (ls_source S) = (Err e, source) \<Longrightarrow>
     lookup_step C D S (at_point i (Returned user at (Err e)) source S)"
| answers: "ls_points S i = Read user at row \<Longrightarrow> answer_row C at user row (ls_source S) = (x, source) \<Longrightarrow>
     lookup_step C D S (at_point i (Returned user at x) source S)"
| forgets: "aq_forget user (ls_source S) = (Ok (), source) \<Longrightarrow> lookup_step C D S (S\<lparr>ls_source := source\<rparr>)"

definition lookups_start :: "auth_query_config \<Rightarrow> nat \<Rightarrow> lookup_system" where
  "lookups_start config now =
     \<lparr>ls_source = auth_query_source_new config, ls_clock = now, ls_points = (\<lambda>_. Resting), ls_queries = {}\<rparr>"

subsection \<open>Where an answer comes from\<close>

text \<open>
  The database said \<open>r\<close> about a user at a time not before \<open>at\<close>. An entry of the cache carries the time its lookup
  began, so it is never younger than the answer in it.
\<close>

definition said_since :: "crypto \<Rightarrow> lookup_db \<Rightarrow> lookup_system \<Rightarrow> string \<Rightarrow> verifier option \<Rightarrow> nat \<Rightarrow> bool" where
  "said_since C D S user r at \<longleftrightarrow>
     (\<exists>n t. (user, n, t) \<in> ls_queries S \<and> db_answer C D (aqc_query (aq_config (ls_source S))) n user = Some r \<and> at \<le> t)"

definition aqc_ttl :: "auth_query_config \<Rightarrow> verifier option \<Rightarrow> nat" where
  "aqc_ttl config r = answer_ttl (aqc_cache_ttl config) (aqc_negative_ttl config) r"

fun point_ok :: "crypto \<Rightarrow> lookup_db \<Rightarrow> lookup_system \<Rightarrow> lookup_point \<Rightarrow> bool" where
  "point_ok C D S Resting = True"
| "point_ok C D S (Asking user at) = (at \<le> ls_clock S)"
| "point_ok C D S (Missed user at) = (at \<le> ls_clock S)"
| "point_ok C D S (Connected user at) = (at \<le> ls_clock S)"
| "point_ok C D S (Read user at row) = (\<forall>r. row_answer C row = Some r \<longrightarrow> said_since C D S user r at)"
| "point_ok C D S (Returned user at (Ok r)) =
     said_since C D S user r (at - aqc_ttl (aq_config (ls_source S)) r)"
| "point_ok C D S (Returned user at (Err e)) = (\<exists>text. e = Unavailable text)"
| "point_ok C D S (Returned user at x) = False"

definition lookups_ok :: "auth_query_config \<Rightarrow> crypto \<Rightarrow> lookup_db \<Rightarrow> lookup_system \<Rightarrow> bool" where
  "lookups_ok config C D S \<longleftrightarrow> aq_ok config (ls_source S) \<and>
     (\<forall>user at r. (user, at, r) \<in> remembered (ls_source S) \<longrightarrow> said_since C D S user r at) \<and> (\<forall>i. point_ok C D S (ls_points S i))"

text \<open>A later state knows at least as much.\<close>

definition extends :: "lookup_system \<Rightarrow> lookup_system \<Rightarrow> bool" where
  "extends S T \<longleftrightarrow> ls_queries S \<subseteq> ls_queries T \<and> aq_config (ls_source T) = aq_config (ls_source S) \<and> ls_clock S \<le> ls_clock T"

lemma said_since_mono: "said_since C D S user r at \<Longrightarrow> extends S T \<Longrightarrow> at' \<le> at \<Longrightarrow> said_since C D T user r at'"
  unfolding said_since_def extends_def by fastforce

lemma point_ok_mono: "point_ok C D S p \<Longrightarrow> extends S T \<Longrightarrow> point_ok C D T p"
proof (induction C D S p rule: point_ok.induct)
  case (6 C D S user at r)
  then show ?case using said_since_mono[OF _ 6(2) le_refl] by (simp add: extends_def)
qed (auto simp: said_since_mono extends_def intro: le_trans)

lemma lookups_ok_step:
  assumes "lookups_ok config C D S" and "extends S T" and "aq_ok config (ls_source T)"
    and "\<And>user at r. (user, at, r) \<in> remembered (ls_source T) \<Longrightarrow>
      (user, at, r) \<in> remembered (ls_source S) \<or> said_since C D T user r at"
    and "\<And>i. ls_points T i = ls_points S i \<or> point_ok C D T (ls_points T i)"
  shows "lookups_ok config C D T"
  unfolding lookups_ok_def
proof (intro conjI allI impI)
  fix user at r assume "(user, at, r) \<in> remembered (ls_source T)"
  then show "said_since C D T user r at"
    using assms(1,4)[unfolded lookups_ok_def] said_since_mono[OF _ assms(2) le_refl] by blast
next
  fix i show "point_ok C D T (ls_points T i)"
    using assms(1)[unfolded lookups_ok_def] assms(5)[of i] point_ok_mono[OF _ assms(2)] by metis
qed (rule assms(3))

text \<open>A step of one lookup that keeps the cache, and one that only takes entries away.\<close>

lemma lookups_ok_at_point:
  assumes "lookups_ok config C D S" and "aq_ok config source" and "remembered source \<subseteq> remembered (ls_source S)"
    and "point_ok C D (at_point i p source S) p"
  shows "lookups_ok config C D (at_point i p source S)"
proof (rule lookups_ok_step[OF assms(1)])
  show "extends S (at_point i p source S)"
    using assms(1,2) by (simp add: extends_def at_point_def lookups_ok_def aq_ok_def)
  show "ls_points (at_point i p source S) j = ls_points S j \<or> point_ok C D (at_point i p source S) (ls_points (at_point i p source S) j)" for j
    using assms(4) by (simp add: at_point_def)
qed (use assms(2,3) in \<open>auto simp: at_point_def\<close>)

lemma on_aq_cache_get:
  "on_aq_cache (cache_get user at) s = (Ok cached, t) \<Longrightarrow>
     cache_get user at (aq_cache s) = (cached, aq_cache t) \<and> aq_config t = aq_config s"
  by (auto simp: on_aq_cache_def split: prod.splits)

lemma said_since_le: "said_since C D S user r at \<Longrightarrow> at' \<le> at \<Longrightarrow> said_since C D S user r at'"
  unfolding said_since_def by fastforce

lemma cache_hit_ok:
  assumes ok0: "lookups_ok config C D S" and point: "ls_points S i = Asking user at" and run: "on_aq_cache (cache_get user at) (ls_source S) = (Ok (Some r), source)"
  shows "lookups_ok config C D (at_point i (Returned user at (Ok r)) source S)"
proof -
  note get = on_aq_cache_get[OF run]
  have ok: "aq_ok config (ls_source S)" "point_ok C D S (ls_points S i)" using ok0 by (auto simp: lookups_ok_def)
  note asked = ask_source[OF ok(1) conjunct1[OF get] refl conjunct2[OF get]]
  obtain at0 where at0: "(user, at0, r) \<in> remembered (ls_source S)" "at - at0 \<le> aqc_ttl config r"
    using asked(3)[OF refl] by (auto simp: aqc_ttl_def)
  have "said_since C D S user r at0" using at0(1) ok0 by (auto simp: lookups_ok_def)
  then have "said_since C D S user r (at - aqc_ttl config r)" by (rule said_since_le) (use at0(2) in linarith)
  then show ?thesis
    by (intro lookups_ok_at_point[OF ok0] asked)
      (use get ok(1) in \<open>simp add: at_point_def said_since_def aq_ok_def\<close>)
qed

lemma queries_ok:
  assumes ok0: "lookups_ok config C D S" and point: "ls_points S i = Connected user at" and run: "query_client D user (ls_source S) = (Ok row, source)"
  shows "lookups_ok config C D ((at_point i (Read user at row) source S)
    \<lparr>ls_queries := insert (user, aq_uses (ls_source S), ls_clock S) (ls_queries S)\<rparr>)"
proof -
  have ok: "aq_ok config (ls_source S)" "point_ok C D S (ls_points S i)" using ok0 by (auto simp: lookups_ok_def)
  let ?T = "(at_point i (Read user at row) source S)\<lparr>ls_queries := insert (user, aq_uses (ls_source S), ls_clock S) (ls_queries S)\<rparr>"
  note out = query_client_outcome[OF run]
  note same = same_source[OF ok(1), of source]
  have row: "answered_row D (aqc_query (aq_config (ls_source S))) (aq_uses (ls_source S)) user row" using out by auto
  have "point_ok C D ?T (Read user at row)"
    using answered_row_answer[OF row] ok(2) point out by (auto simp: said_since_def at_point_def)
  then show ?thesis
    by (intro lookups_ok_step[OF ok0]) (use same out in \<open>auto simp: extends_def at_point_def\<close>)
qed

lemma answers_ok:
  assumes ok0: "lookups_ok config C D S" and point: "ls_points S i = Read user at row" and run: "answer_row C at user row (ls_source S) = (x, source)"
  shows "lookups_ok config C D (at_point i (Returned user at x) source S)"
proof -
  have ok: "aq_ok config (ls_source S)" "point_ok C D S (ls_points S i)" using ok0 by (auto simp: lookups_ok_def)
  let ?T = "at_point i (Returned user at x) source S"
  note out = answer_row_outcome[OF run]
  from out consider (told) r where "x = Ok r" "row_answer C row = Some r" "aq_cache source = cache_tell user r at (aq_cache (ls_source S))"
    | (bad) e where "x = Err (Unavailable e)" "aq_cache source = aq_cache (ls_source S)"
    by auto
  then show ?thesis
  proof cases
    case (told r)
    have source: "aq_ok config source" "remembered source \<subseteq> insert (user, at, r) (remembered (ls_source S))"
      using tell_source[OF ok(1) told(3)] out by auto
    have said: "said_since C D S user r at" using ok(2) point told(2) by simp
    have ext: "extends S ?T" using out by (simp add: extends_def at_point_def)
    have "point_ok C D ?T (Returned user at x)"
      using said_since_mono[OF said ext] told(1) by simp
    then show ?thesis
      using source said_since_mono[OF said ext le_refl]
      by (intro lookups_ok_step[OF ok0 ext]) (auto simp: at_point_def)
  next
    case (bad e)
    then show ?thesis
      using same_source[OF ok(1), of source] out by (intro lookups_ok_at_point[OF ok0]) auto
  qed
qed

lemma lookup_step_ok:
  assumes "lookup_step C D S T" and "lookups_ok config C D S"
  shows "lookups_ok config C D T"
  using assms
proof (induction rule: lookup_step.induct)
  case (time_passes S now)
  show ?case
    by (rule lookups_ok_step[OF time_passes(2)]) (use time_passes in \<open>auto simp: extends_def lookups_ok_def\<close>)
next
  case (begin_lookup S i user)
  show ?case
    by (rule lookups_ok_at_point) (use begin_lookup in \<open>auto simp: lookups_ok_def at_point_def\<close>)
next
  case (cache_hit S i user at r source)
  then show ?case by (intro cache_hit_ok)
next
  case (cache_miss S i user at source)
  note get = on_aq_cache_get[OF cache_miss(2)]
  have ok: "aq_ok config (ls_source S)" "point_ok C D S (ls_points S i)" using cache_miss(3) by (auto simp: lookups_ok_def)
  show ?case
    by (intro lookups_ok_at_point[OF cache_miss(3)] ask_source[OF ok(1) conjunct1[OF get] refl conjunct2[OF get]])
      (use ok(2) cache_miss(1) in \<open>simp add: at_point_def\<close>)
next
  case (connects S i user at source)
  have ok: "aq_ok config (ls_source S)" "point_ok C D S (ls_points S i)" using connects(3) by (auto simp: lookups_ok_def)
  note same = same_source[OF ok(1), of source] ensure_connected_outcome[OF connects(2)]
  show ?case
    by (rule lookups_ok_at_point[OF connects(3)]) (use same ok(2) connects(1) in \<open>simp_all add: at_point_def\<close>)
next
  case (refused S i user at e source)
  have ok: "aq_ok config (ls_source S)" using refused(3) by (auto simp: lookups_ok_def)
  note same = same_source[OF ok, of source] ensure_connected_outcome[OF refused(2)]
  show ?case
    by (rule lookups_ok_at_point[OF refused(3)])
      (use same ensure_connected_Unavailable[OF refused(2)] in \<open>simp_all add: at_point_def\<close>)
next
  case (queries S i user at row source)
  then show ?case by (intro queries_ok)
next
  case (query_fails S i user at e source)
  have ok: "aq_ok config (ls_source S)" using query_fails(3) by (auto simp: lookups_ok_def)
  note same = same_source[OF ok, of source] query_client_outcome[OF query_fails(2)]
  show ?case
    by (rule lookups_ok_at_point[OF query_fails(3)]) (use same in \<open>simp_all add: at_point_def\<close>)
next
  case (answers S i user at row x source)
  then show ?case by (intro answers_ok)
next
  case (forgets user S source)
  have ok: "aq_ok config (ls_source S)" using forgets(2) by (auto simp: lookups_ok_def)
  note out = forget_source[OF ok forgets(1)]
  show ?case
    by (rule lookups_ok_step[OF forgets(2)]) (use out ok in \<open>auto simp: extends_def aq_ok_def\<close>)
qed

lemma lookups_start_ok: "lookups_ok config C D (lookups_start config now)"
  by (auto simp: lookups_ok_def lookups_start_def aq_ok_def auth_query_source_new_def cache_limits_def remembered_def
      cache_known_def cache_with_capacity_def cache_ok_def)

lemma lookups_reachable_ok: "(lookup_step C D)\<^sup>*\<^sup>* (lookups_start config now) S \<Longrightarrow> lookups_ok config C D S"
  by (induction rule: rtranclp_induct) (auto simp: lookups_start_ok intro: lookup_step_ok)

subsection \<open>A lookup on its own\<close>

text \<open>The next step of a lookup that has begun. Nothing blocks it: four steps end it, whatever happened before.\<close>

definition lookup_move :: "crypto \<Rightarrow> lookup_db \<Rightarrow> nat \<Rightarrow> lookup_system \<Rightarrow> lookup_system" where
  "lookup_move C D i S =
     (case ls_points S i of
        Asking user at \<Rightarrow>
          (case cache_get user at (aq_cache (ls_source S)) of (cached, c) \<Rightarrow>
             at_point i (case cached of Some r \<Rightarrow> Returned user at (Ok r) | None \<Rightarrow> Missed user at) ((ls_source S)\<lparr>aq_cache := c\<rparr>) S)
      | Missed user at \<Rightarrow>
          (case ensure_connected D (ls_source S) of
             (Ok _, source) \<Rightarrow> at_point i (Connected user at) source S
           | (Err e, source) \<Rightarrow> at_point i (Returned user at (Err e)) source S
           | _ \<Rightarrow> S)
      | Connected user at \<Rightarrow>
          (case query_client D user (ls_source S) of
             (Ok row, source) \<Rightarrow> (at_point i (Read user at row) source S)
               \<lparr>ls_queries := insert (user, aq_uses (ls_source S), ls_clock S) (ls_queries S)\<rparr>
           | (Err e, source) \<Rightarrow> at_point i (Returned user at (Err e)) source S
           | _ \<Rightarrow> S)
      | Read user at row \<Rightarrow>
          (case answer_row C at user row (ls_source S) of (x, source) \<Rightarrow> at_point i (Returned user at x) source S)
      | _ \<Rightarrow> S)"

lemma lookup_move_reaches: "(lookup_step C D)\<^sup>*\<^sup>* S (lookup_move C D i S)"
proof (cases "ls_points S i")
  case (Asking user at)
  obtain cached c where g: "cache_get user at (aq_cache (ls_source S)) = (cached, c)" by fastforce
  then have get: "on_aq_cache (cache_get user at) (ls_source S) = (Ok cached, (ls_source S)\<lparr>aq_cache := c\<rparr>)"
    by (simp add: on_aq_cache_def)
  show ?thesis
  proof (cases cached)
    case None
    then show ?thesis using lookup_step.cache_miss[OF Asking] g get Asking by (simp add: lookup_move_def r_into_rtranclp)
  next
    case (Some r)
    then show ?thesis using lookup_step.cache_hit[OF Asking] g get Asking by (simp add: lookup_move_def r_into_rtranclp)
  qed
qed (auto simp: lookup_move_def intro!: r_into_rtranclp intro: lookup_step.intros split: prod.split outcome.split)

primrec lookup_moves :: "crypto \<Rightarrow> lookup_db \<Rightarrow> nat \<Rightarrow> nat \<Rightarrow> lookup_system \<Rightarrow> lookup_system" where
  "lookup_moves C D i 0 S = S"
| "lookup_moves C D i (Suc n) S = lookup_moves C D i n (lookup_move C D i S)"

lemma lookup_moves_reach: "(lookup_step C D)\<^sup>*\<^sup>* S (lookup_moves C D i n S)"
  by (induction n arbitrary: S) (auto intro: rtranclp_trans lookup_move_reaches)

lemma at_point_simps [simp]:
  "ls_points (at_point i p source S) j = (if j = i then p else ls_points S j)" "ls_source (at_point i p source S) = source"
  "ls_clock (at_point i p source S) = ls_clock S" "ls_queries (at_point i p source S) = ls_queries S"
  by (simp_all add: at_point_def)

definition ended :: "nat \<Rightarrow> string \<Rightarrow> nat \<Rightarrow> (verifier option, provider_error) outcome \<Rightarrow> auth_query_source \<Rightarrow> lookup_system \<Rightarrow> bool" where
  "ended i user at x source S \<longleftrightarrow> ls_points S i = Returned user at x \<and> ls_source S = source"

lemma ended_moves:
  "ls_points S i = Returned user at x \<Longrightarrow> ls_source S = source \<Longrightarrow> ended i user at x source (lookup_moves C D i n S)"
  by (induction n arbitrary: S) (simp_all add: ended_def lookup_move_def)

lemma moves_from_Read:
  assumes "ls_points S i = Read user at row" and "answer_row C at user row (ls_source S) = (x, source)"
  shows "ended i user at x source (lookup_moves C D i (Suc n) S)"
  using assms by (simp add: ended_moves lookup_move_def)

lemma moves_from_Connected:
  assumes "ls_points S i = Connected user at"
    and "bnd (query_client D user) (answer_row C at user) (ls_source S) = (x, source)"
  shows "ended i user at x source (lookup_moves C D i (Suc (Suc n)) S)"
proof -
  obtain y u where q: "query_client D user (ls_source S) = (y, u)" by fastforce
  show ?thesis
  proof (cases y)
    case (Ok row)
    then show ?thesis
      unfolding lookup_moves.simps(2)[of C D i "Suc n"]
      using assms q by (intro moves_from_Read) (auto simp: lookup_move_def bnd_def)
  next
    case (Err e)
    then show ?thesis
      unfolding lookup_moves.simps(2)[of C D i "Suc n"]
      using assms q by (intro ended_moves) (auto simp: lookup_move_def bnd_def)
  qed (use query_client_outcome[OF q] in auto)
qed

lemma moves_from_Missed:
  assumes "ls_points S i = Missed user at"
    and "bnd (query_backend D user) (answer_row C at user) (ls_source S) = (x, source)"
  shows "ended i user at x source (lookup_moves C D i (Suc (Suc (Suc n))) S)"
proof -
  obtain y u where c: "ensure_connected D (ls_source S) = (y, u)" by fastforce
  show ?thesis
  proof (cases y)
    case (Ok z)
    then show ?thesis
      unfolding lookup_moves.simps(2)[of C D i "Suc (Suc n)"]
      using assms c by (intro moves_from_Connected) (auto simp: lookup_move_def query_backend_def bnd_def)
  next
    case (Err e)
    then show ?thesis
      unfolding lookup_moves.simps(2)[of C D i "Suc (Suc n)"]
      using assms c by (intro ended_moves) (auto simp: lookup_move_def query_backend_def bnd_def)
  qed (use ensure_connected_outcome[OF c] in auto)
qed

text \<open>Without interference a lookup is the sequential \<open>aq_lookup\<close>.\<close>

lemma lone_lookup:
  assumes "ls_points S i = Asking user at" and "aq_lookup C D at user (ls_source S) = (x, source)"
  shows "ended i user at x source (lookup_moves C D i (Suc (Suc (Suc (Suc n)))) S)"
proof -
  obtain cached c where g: "cache_get user at (aq_cache (ls_source S)) = (cached, c)" by fastforce
  show ?thesis
  proof (cases cached)
    case None
    then show ?thesis
      unfolding lookup_moves.simps(2)[of C D i "Suc (Suc (Suc n))"]
      using assms g by (intro moves_from_Missed) (auto simp: lookup_move_def aq_lookup_def on_aq_cache_def bnd_def)
  next
    case (Some r)
    then show ?thesis
      unfolding lookup_moves.simps(2)[of C D i "Suc (Suc (Suc n))"]
      using assms g by (intro ended_moves) (auto simp: lookup_move_def aq_lookup_def on_aq_cache_def bnd_def prog_simps)
  qed
qed

lemma lookup_ends: "ls_points S i = Asking user at \<Longrightarrow> \<exists>T x. (lookup_step C D)\<^sup>*\<^sup>* S T \<and> ls_points T i = Returned user at x"
  using lone_lookup lookup_moves_reach unfolding ended_def by (metis surj_pair)

text \<open>
  C22. Under every interleaving of lookups, forgets and the clock, a lookup that returns a verifier or "no such
  user" repeats what the database said about this user, in a query made no longer before the lookup began
  than the time to live of that kind of answer. Every other lookup fails with \<open>Unavailable\<close>: neither a lost connection nor a
  race for it is ever taken for an unknown user, and none panics.
\<close>

theorem concurrent_answers_are_the_databases:
  assumes "(lookup_step C D)\<^sup>*\<^sup>* (lookups_start config now) S" and "ls_points S i = Returned user at x"
  shows "(\<exists>e. x = Err (Unavailable e)) \<or> (\<exists>r n t. x = Ok r \<and> (user, n, t) \<in> ls_queries S \<and>
      db_answer C D (aqc_query config) n user = Some r \<and> at - t \<le> answer_ttl (aqc_cache_ttl config) (aqc_negative_ttl config) r)"
proof -
  have ok: "point_ok C D S (Returned user at x)" "aq_config (ls_source S) = config"
    using lookups_reachable_ok[OF assms(1)] assms(2) by (auto simp: lookups_ok_def aq_ok_def dest: spec[of _ i])
  show ?thesis
  proof (cases x)
    case (Ok r)
    then obtain n t where "(user, n, t) \<in> ls_queries S" "db_answer C D (aqc_query config) n user = Some r" "at - aqc_ttl config r \<le> t"
      using ok by (auto simp: said_since_def)
    then have "at - t \<le> answer_ttl (aqc_cache_ttl config) (aqc_negative_ttl config) r" by (simp add: aqc_ttl_def)
    with \<open>(user, n, t) \<in> ls_queries S\<close> \<open>db_answer C D (aqc_query config) n user = Some r\<close> Ok show ?thesis by blast
  qed (use ok in auto)
qed

subsection \<open>A race for the client\<close>

text \<open>
  Two lookups share a client. The query of one fails and drops it between the two steps of the other, which then
  finds no client and reports an outage although the database can be reached; asked again, it gets its answer.
\<close>

definition race_db :: lookup_db where
  "race_db = \<lparr>db_connect = (\<lambda>_ _. None), db_query = (\<lambda>_ n user. if n = 1 then Inl ''connection closed'' else Inr None)\<rparr>"

definition ask_at :: "nat \<Rightarrow> string \<Rightarrow> lookup_system \<Rightarrow> lookup_system" where
  "ask_at i user S = at_point i (Asking user (ls_clock S)) (ls_source S) S"

definition race :: lookup_system where
  "race = (let go = lookup_move toy_crypto race_db in
     go 0 (go 1 (go 1 (go 1 (go 0 (go 0 (ask_at 1 ''v'' (ask_at 0 ''u'' (lookups_start demo_aq_config 0)))))))))"

lemma race_points:
  "ls_points race 0 = Returned ''u'' 0 (Err (Unavailable ''auth_query client unavailable''))"
  "ls_points race 1 = Returned ''v'' 0 (Err (Unavailable ''connection closed''))"
  by (simp_all add: race_def ask_at_def lookups_start_def lookup_move_def cache_get_def auth_query_source_new_def
      cache_with_capacity_def ensure_connected_def query_client_def next_use_def bnd_def prog_simps race_db_def at_point_def Let_def)

lemma ask_at_reaches: "at_rest (ls_points S i) \<Longrightarrow> (lookup_step C D)\<^sup>*\<^sup>* S (ask_at i user S)"
  unfolding ask_at_def by (rule r_into_rtranclp) (rule lookup_step.begin_lookup)

lemma race_reachable: "(lookup_step toy_crypto race_db)\<^sup>*\<^sup>* (lookups_start demo_aq_config 0) race"
proof -
  let ?S = "ask_at 1 ''v'' (ask_at 0 ''u'' (lookups_start demo_aq_config 0))"
  have "(lookup_step toy_crypto race_db)\<^sup>*\<^sup>* (lookups_start demo_aq_config 0) (ask_at 0 ''u'' (lookups_start demo_aq_config 0))"
    by (rule ask_at_reaches) (simp add: lookups_start_def)
  moreover have "(lookup_step toy_crypto race_db)\<^sup>*\<^sup>* (ask_at 0 ''u'' (lookups_start demo_aq_config 0)) ?S"
    by (rule ask_at_reaches) (simp add: lookups_start_def ask_at_def)
  moreover have "(lookup_step toy_crypto race_db)\<^sup>*\<^sup>* ?S race"
    unfolding race_def Let_def by (meson lookup_move_reaches rtranclp_trans)
  ultimately show ?thesis by (meson rtranclp_trans)
qed

definition race_again :: lookup_system where
  "race_again = lookup_moves toy_crypto race_db 0 4 (ask_at 0 ''u'' race)"

lemma race_again_reachable: "(lookup_step toy_crypto race_db)\<^sup>*\<^sup>* (lookups_start demo_aq_config 0) race_again"
proof -
  have "(lookup_step toy_crypto race_db)\<^sup>*\<^sup>* race (ask_at 0 ''u'' race)" by (rule ask_at_reaches) (simp add: race_points)
  then show ?thesis unfolding race_again_def by (meson race_reachable lookup_moves_reach rtranclp_trans)
qed

lemma race_again_points: "ls_points race_again 0 = Returned ''u'' 0 (Ok None)"
  by (simp add: race_again_def race_def ask_at_def lookups_start_def lookup_move_def cache_get_def auth_query_source_new_def
      cache_with_capacity_def ensure_connected_def query_client_def next_use_def bnd_def prog_simps race_db_def at_point_def Let_def
      answer_row_def on_aq_cache_def insert_negative_def evict_if_needed_def cache_insert_def eval_nat_numeral)

theorem concurrent_answers_are_the_databases_witness:
  "(\<exists>e. ls_points race 0 = Returned ''u'' 0 (Err e)) \<and> ls_points race_again 0 = Returned ''u'' 0 (Ok None) \<and>
   (\<exists>n t. (''u'', n, t) \<in> ls_queries race_again \<and> db_answer toy_crypto race_db (aqc_query demo_aq_config) n ''u'' = Some None)"
  using concurrent_answers_are_the_databases[OF race_again_reachable race_again_points] race_points(1) race_again_points by auto

end
