(* ===== verification/Server.thy ===== *)
theory Server
  imports Credential_Config Conn_Ready
begin

section \<open>The server (\<open>proxy/server.rs\<close>)\<close>

text \<open>
  \<open>serve\<close> accepts connections and runs a session for each, on the shared buffer pool, session registry,
  connection slots and credential store. The model runs a session to its end before it takes the next
  connection; what the shared parts do under interleaved operations is the subject of their own theories.
  The world of the server are the libraries, the network, the lookup database, the clock, and a random stream
  for each session.
\<close>

record server_config =
  sc_config :: "credentials_config config"
  sc_credentials :: store
  sc_frontend_tls :: "frontend_tls option"
  sc_pool_min :: nat
  sc_pool_max :: nat

record server_state =
  sv_config :: "credentials_config config"
  sv_credentials :: "store \<times> nat"
  sv_frontend_tls :: "frontend_tls option"
  sv_pool :: multi_buffer_pool
  sv_backends :: "backend session_inner"
  sv_connections :: slot_inner
  sv_next_id :: i32

text \<open>\<open>None\<close> is a pool whose construction never ends.\<close>

definition server_state_new :: "server_config \<Rightarrow> server_state option" where
  "server_state_new sc =
     map_option (\<lambda>pool.
       \<lparr>sv_config = sc_config sc, sv_credentials = (sc_credentials sc, 0), sv_frontend_tls = sc_frontend_tls sc,
        sv_pool = pool, sv_backends = registry_new, sv_connections = slots_new (max_connections (limits (sc_config sc))),
        sv_next_id = 1\<rparr>)
       (pool_new (sc_pool_min sc) (sc_pool_max sc) 16)"

record world =
  w_crypto :: crypto
  w_net :: net
  w_db :: lookup_db
  w_clock :: "nat \<Rightarrow> nat"
  w_order :: "params \<Rightarrow> params"
  w_nonce :: "nat \<Rightarrow> nat \<Rightarrow> bytes"
  w_client_nonce :: "nat \<Rightarrow> nat \<Rightarrow> bytes"
  w_key_rng :: "nat \<Rightarrow> nat \<Rightarrow> i32"

definition session_env :: "world \<Rightarrow> server_state \<Rightarrow> nat \<Rightarrow> (store \<times> nat, credentials_config) env" where
  "session_env W sv k =
     \<lparr>e_crypto = w_crypto W, e_net = w_net W, e_config = sv_config sv, e_tls = sv_frontend_tls sv,
      e_lookup = clocked_lookup (w_crypto W) (w_db W) (w_clock W), e_dummy = (\<lambda>p. get_dummy_verifier (w_crypto W) (fst p)),
      e_order = w_order W, e_nonce = w_nonce W k, e_client_nonce = w_client_nonce W k, e_key_rng = w_key_rng W k\<rparr>"

text \<open>The result of \<open>accept\<close>: an error, or a peer with what it sends, whether it closes, and what it still reads.\<close>

datatype accepted = AcceptError | Accepted "bytes list" bool "nat option"

definition serve_session :: "world \<Rightarrow> nat \<Rightarrow> bytes list \<Rightarrow> bool \<Rightarrow> nat option \<Rightarrow> server_state \<Rightarrow>
    (unit, internal_error) outcome \<times> server_state" where
  "serve_session W k segments eof writes sv =
     (let conn_id = sv_next_id sv; sv = sv\<lparr>sv_next_id := sv_next_id sv + 1\<rparr> in
      case run_session (session_env W sv k)
             (conn_new conn_id segments eof writes (sv_pool sv) (sv_credentials sv) (sv_backends sv) (sv_connections sv)) of
        (r, s) \<Rightarrow>
          (r, sv\<lparr>sv_pool := cn_pool s, sv_credentials := cn_provider s, sv_backends := cn_registry s, sv_connections := cn_slots s\<rparr>))"

fun serve :: "world \<Rightarrow> nat \<Rightarrow> accepted list \<Rightarrow> server_state \<Rightarrow> (unit, internal_error) outcome list \<times> server_state" where
  "serve W k [] sv = ([], sv)"
| "serve W k (AcceptError # as) sv = serve W k as sv"
| "serve W k (Accepted segments eof writes # as) sv =
     (case serve_session W k segments eof writes sv of (r, sv) \<Rightarrow>
       (case serve W (Suc k) as sv of (rs, sv) \<Rightarrow> (r # rs, sv)))"

subsection \<open>Sessions on the store\<close>

lemma session_env_simps [simp]:
  "e_lookup (session_env W sv k) = clocked_lookup (w_crypto W) (w_db W) (w_clock W)"
  "e_dummy (session_env W sv k) = (\<lambda>p. get_dummy_verifier (w_crypto W) (fst p))" "e_crypto (session_env W sv k) = w_crypto W"
  "e_tls (session_env W sv k) = sv_frontend_tls sv"
  by (simp_all add: session_env_def)

subsection \<open>The listener lives on\<close>

fun reads_all :: "accepted \<Rightarrow> bool" where
  "reads_all AcceptError = True"
| "reads_all (Accepted _ _ writes) = (writes = None)"

fun sessions :: "accepted list \<Rightarrow> nat" where
  "sessions [] = 0"
| "sessions (AcceptError # as) = sessions as"
| "sessions (Accepted _ _ _ # as) = Suc (sessions as)"

text \<open>What of the server's state a session may not change.\<close>

definition steady :: "server_state \<Rightarrow> server_state \<Rightarrow> bool" where
  "steady sv t \<longleftrightarrow> sv_connections t = sv_connections sv \<and> sv_backends t = sv_backends sv \<and> sv_config t = sv_config sv \<and>
     sv_frontend_tls t = sv_frontend_tls sv \<and> pool_like (sv_pool t) (sv_pool sv)"

lemma serve_session_steady:
  assumes "serve_session W k segments eof None sv = (r, t)" and "tls_total (sv_frontend_tls sv)" and "pool_inv (sv_pool sv)"
    and "sv_backends sv = registry_new"
  shows "r \<notin> {Panic, Pending} \<and> steady sv t \<and> sv_next_id t = sv_next_id sv + 1"
proof -
  let ?E = "session_env W (sv\<lparr>sv_next_id := sv_next_id sv + 1\<rparr>) k"
  let ?s = "conn_new (sv_next_id sv) segments eof None (sv_pool sv) (sv_credentials sv) (sv_backends sv) (sv_connections sv)"
  obtain x s where run: "run_session ?E ?s = (x, s)" by fastforce
  have E: "env_ok ?E"
    by (rule stored.session_env_ok[where C = "w_crypto W" and D = "w_db W" and clock = "w_clock W"]) (simp_all add: assms(2))
  have "conn_backend (sv_backends sv) (sv_next_id sv) = None" by (simp add: assms(4) registry_new_def)
  from session_restores[OF E assms(3) this run] show ?thesis
    using run assms(1) by (auto simp: serve_session_def Let_def steady_def pool_like_def)
qed

lemma serve_steady:
  assumes "serve W k as sv = (rs, t)" and "list_all reads_all as" and "tls_total (sv_frontend_tls sv)" and "pool_inv (sv_pool sv)"
    and "sv_backends sv = registry_new"
  shows "length rs = sessions as \<and> set rs \<inter> {Panic, Pending} = {} \<and> steady sv t \<and> sv_next_id t = sv_next_id sv + of_nat (sessions as)"
  using assms
proof (induction as arbitrary: k sv rs)
  case Nil
  then show ?case by (simp add: steady_def pool_like_def)
next
  case (Cons a as)
  show ?case
  proof (cases a)
    case AcceptError
    then show ?thesis using Cons.IH[of k sv rs] Cons.prems by simp
  next
    case (Accepted segments eof writes)
    have w: "writes = None" using Cons.prems(2) Accepted by simp
    obtain r u where one: "serve_session W k segments eof None sv = (r, u)" by fastforce
    obtain rs' where rest: "serve W (Suc k) as u = (rs', t)" "rs = r # rs'"
      using Cons.prems(1) Accepted w one by (auto split: prod.splits)
    have step: "r \<notin> {Panic, Pending}" "steady sv u" "sv_next_id u = sv_next_id sv + 1"
      using serve_session_steady[OF one Cons.prems(3-5)] by auto
    have "length rs' = sessions as \<and> set rs' \<inter> {Panic, Pending} = {} \<and> steady u t \<and> sv_next_id t = sv_next_id u + of_nat (sessions as)"
      by (rule Cons.IH[OF rest(1)]) (use Cons.prems step(2) in \<open>auto simp: steady_def pool_like_def\<close>)
    then show ?thesis
      using step rest(2) Accepted pool_like_trans by (auto simp: steady_def)
  qed
qed



end
