(* ===== verification/Cli.thy ===== *)
theory Cli
  imports Server
begin

section \<open>The command line (\<open>crates/wirechaos/src/main.rs\<close>)\<close>

text \<open>
  \<open>main\<close> and its subcommands: \<open>hash-password\<close>, which prints the secret of a password, \<open>proxy\<close>, which turns a configuration file
  into the configuration of the server and runs it, and two that only log a line. \<open>clap\<close> parses the arguments,
  so they are parameters here, and so is the terminal: the line on standard input and the answers to the two
  prompts, \<open>None\<close> where reading fails. The result is the printed text, or the error \<open>main\<close> ends with.
\<close>

datatype hash_format = SecretFormat | YamlSnippet

datatype cli_error = Bail string | ConfigFailure config_error | IoFailure

record terminal =
  tm_stdin_line :: "string option"
  tm_password :: "string option"
  tm_confirmation :: "string option"

definition trim_end_newlines :: "string \<Rightarrow> string" where
  "trim_end_newlines line = rev (dropWhile (\<lambda>c. c = CHR 0x0D \<or> c = CHR 0x0A) (rev line))"

definition read_password :: "terminal \<Rightarrow> bool \<Rightarrow> cli_error + string" where
  "read_password T from_stdin =
     (if from_stdin then and_then (ok_or (tm_stdin_line T) IoFailure) (\<lambda>line. Inr (trim_end_newlines line))
      else
        and_then (ok_or (tm_password T) IoFailure) (\<lambda>password.
        and_then (ok_or (tm_confirmation T) IoFailure) (\<lambda>confirmation.
        if password \<noteq> confirmation then Inl (Bail ''passwords do not match'') else Inr password)))"

definition hash_password :: "crypto \<Rightarrow> bytes \<Rightarrow> string \<Rightarrow> u32 \<Rightarrow> string" where
  "hash_password C salt password iterations = to_pg_secret C (derive_verifier C password salt iterations)"

definition hash_password_command :: "crypto \<Rightarrow> terminal \<Rightarrow> bytes \<Rightarrow> u32 \<Rightarrow> hash_format \<Rightarrow> string option \<Rightarrow> bool \<Rightarrow> cli_error + string" where
  "hash_password_command C T salt iterations format user from_stdin =
     (if iterations < MIN_ITERATIONS then Inl (Bail (''--iterations must be at least '' @ show_u32 MIN_ITERATIONS))
      else
        and_then (read_password T from_stdin) (\<lambda>password.
        if password = [] then Inl (Bail ''the password must not be empty'')
        else
          let secret = hash_password C salt password iterations in
          case format of
            SecretFormat \<Rightarrow> Inr (secret @ newline)
          | YamlSnippet \<Rightarrow>
              and_then (ok_or user (Bail ''--user is required with --format=yaml-snippet'')) (\<lambda>user.
              Inr (''users:'' @ newline @ ''  - name: '' @ user @ newline @ ''    scram_secret: \"'' @ secret @ ''\"'' @ newline))))"

text \<open>\<open>Commands::Proxy\<close> up to \<open>run_server\<close>, with the socket address it binds.\<close>

definition config_failure :: "config_error + 'a \<Rightarrow> cli_error + 'a" where
  "config_failure x = (case x of Inl e \<Rightarrow> Inl (ConfigFailure e) | Inr v \<Rightarrow> Inr v)"

lemma config_failure_Inr: "config_failure x = Inr v \<longleftrightarrow> x = Inr v"
  by (simp add: config_failure_def split: sum.split)

definition proxy_command :: "build_env \<Rightarrow> (string \<Rightarrow> credentials_config config option) \<Rightarrow> (string \<Rightarrow> 'a option) \<Rightarrow> string \<Rightarrow>
    cli_error + 'a \<times> server_config" where
  "proxy_command B parse parse_addr path =
     and_then (ok_or (bd_read B path) IoFailure) (\<lambda>document.
     and_then (config_failure (config_from_yaml parse document)) (\<lambda>parsed.
     and_then (config_failure (frontend_addr parse_addr parsed)) (\<lambda>bind.
     and_then (config_failure (build_credential_store B parsed)) (\<lambda>built.
     Inr (bind, \<lparr>sc_config = parsed, sc_credentials = built, sc_frontend_tls = None, sc_pool_min = 4, sc_pool_max = 2 ^ 20\<rparr>)))))"

subsection \<open>\<open>main\<close>\<close>

datatype command =
    Proxy string
  | Scenario
  | Doctor
  | HashPassword u32 hash_format "string option" bool

text \<open>The environment of the process: what the commands read, whether the subscriber can be installed and an address bound.\<close>

record 'a process_env =
  pe_build :: build_env
  pe_parse :: "string \<Rightarrow> credentials_config config option"
  pe_parse_addr :: "string \<Rightarrow> 'a option"
  pe_can_bind :: "'a \<Rightarrow> bool"
  pe_log_error :: "string option"
  pe_crypto :: crypto
  pe_terminal :: terminal
  pe_salt :: bytes

text \<open>What a command comes to: a text on standard output, a line in the log, or a server listening on an address.\<close>

datatype 'a effect = Output string | LogLine string | Listening 'a "server_state option"

definition run_server :: "('a \<Rightarrow> bool) \<Rightarrow> 'a \<Rightarrow> server_config \<Rightarrow> cli_error + 'a effect" where
  "run_server can_bind bind config = (if can_bind bind then Inr (Listening bind (server_state_new config)) else Inl IoFailure)"

definition init_logging :: "string option \<Rightarrow> cli_error + unit" where
  "init_logging failure =
     (case failure of Some error \<Rightarrow> Inl (Bail (''failed to install the tracing subscriber: '' @ error)) | None \<Rightarrow> Inr ())"

fun run_command :: "'a process_env \<Rightarrow> command \<Rightarrow> cli_error + 'a effect" where
  "run_command P (Proxy path) =
     and_then (proxy_command (pe_build P) (pe_parse P) (pe_parse_addr P) path) (\<lambda>(bind, config). run_server (pe_can_bind P) bind config)"
| "run_command P Scenario = Inr (LogLine ''Running chaos scenario...'')"
| "run_command P Doctor = Inr (LogLine ''Running environment diagnostic check...'')"
| "run_command P (HashPassword iterations format user password_stdin) =
     and_then (hash_password_command (pe_crypto P) (pe_terminal P) (pe_salt P) iterations format user password_stdin) (\<lambda>out. Inr (Output out))"

definition main_command :: "'a process_env \<Rightarrow> command \<Rightarrow> cli_error + 'a effect" where
  "main_command P command =
     and_then (case command of HashPassword _ _ _ _ \<Rightarrow> Inr () | _ \<Rightarrow> init_logging (pe_log_error P)) (\<lambda>_. run_command P command)"

text \<open>Only \<open>hash-password\<close> writes to standard output, and it writes the same whatever becomes of the log.\<close>

lemma only_hash_password_prints:
  assumes "main_command P command = Inr (Output out)"
  shows "\<exists>iterations format user from_stdin. command = HashPassword iterations format user from_stdin \<and>
    hash_password_command (pe_crypto P) (pe_terminal P) (pe_salt P) iterations format user from_stdin = Inr out"
  using assms by (cases command) (auto simp: main_command_def and_then_Inr run_server_def split: if_splits prod.splits)

lemma hash_password_needs_no_log:
  "main_command (P\<lparr>pe_log_error := e\<rparr>) (HashPassword i f u b) = main_command P (HashPassword i f u b)"
  by (simp add: main_command_def)

text \<open>A server listens only after its log, its configuration, its credentials and its address were all accepted.\<close>

lemma listening_needs_everything:
  assumes "main_command P command = Inr (Listening bind state)"
  shows "\<exists>path config. command = Proxy path \<and> pe_log_error P = None \<and>
    proxy_command (pe_build P) (pe_parse P) (pe_parse_addr P) path = Inr (bind, config) \<and> pe_can_bind P bind \<and>
    state = server_state_new config"
  using assms
  by (cases command) (auto simp: main_command_def init_logging_def and_then_Inr run_server_def split: if_splits prod.splits option.splits)

subsection \<open>\<open>hash-password\<close>\<close>

lemma read_password_Inr:
  "read_password T from_stdin = Inr password \<Longrightarrow>
     from_stdin \<and> (\<exists>line. tm_stdin_line T = Some line \<and> password = trim_end_newlines line) \<or>
     \<not> from_stdin \<and> tm_password T = Some password \<and> tm_confirmation T = Some password"
  by (auto simp: read_password_def sum_Inr split: if_splits)

lemma hashed_secret_parses:
  assumes "crypto_laws C" and "MIN_ITERATIONS \<le> iterations" and "8 \<le> length salt"
  shows "from_pg_secret C (hash_password C salt password iterations) =
    Inr ((derive_verifier C password salt iterations)\<lparr>v_password := None\<rparr>)"
  using from_pg_secret_to_pg_secret[OF assms(1) from_password_ok[OF assms]]
  by (simp add: hash_password_def derive_verifier_def from_password_def Let_def)

lemma hashed_secret_accepts_password:
  assumes "crypto_laws C" and "good_nonce cl" and "binding_agrees C cl mech h" and "user \<noteq> []"
    and "cl_password cl = Some (as_bytes (prepare_password C password))"
    and "v = (derive_verifier C password salt iterations)\<lparr>v_password := None\<rparr>"
  shows "\<exists>s1 a c2 cl' s2 a'.
    handle_client_first C nb mech (client_first_message cl) user (authenticator_new v h) = (Ok s1, a) \<and>
    client_final_message C s1 [] 0 cl = (Ok c2, cl') \<and> handle_client_final C c2 user a = (Ok s2, a') \<and>
    verify_server_final C cl' s2 = Inr True"
proof -
  let ?p = "as_bytes (prepare_password C password)"
  let ?key = "hmac_sha256 C (pbkdf2_sha256 C ?p salt iterations) (as_bytes ''Client Key'')"
  have v: "v_salt v = salt" "v_iterations v = iterations" "v_stored_key v = sha256 C ?key" "\<not> v_dummy v"
      "v_stored_key (from_password C ?p salt iterations) = v_stored_key v"
      "v_server_key (from_password C ?p salt iterations) = v_server_key v"
    using assms(6) by (simp_all add: derive_verifier_def from_password_def Let_def)
  have "client_keys C cl (v_salt v) (v_iterations v) [] 0 = Inr (?key, v_stored_key v, Some (v_server_key v))"
    using password_keys[OF assms(5), of C salt iterations "[]" 0] v by simp
  from exchange_completes[OF assms(1-4) this _ _ v(4), of nb] show ?thesis
    using v(3) assms(1) by auto
qed

text \<open>
  C26. What \<open>hash-password\<close> prints is usable. It prints a secret only for a password that was entered, is not
  empty and, when it is typed, was typed twice the same; the secret is read back by the parser of secrets as the verifier
  of that password without the password itself, and a client that knows the password completes a SCRAM exchange
  against it, with either mechanism.
\<close>

theorem printed_secret_opens_the_account:
  assumes "crypto_laws C" and "8 \<le> length salt"
    and "hash_password_command C T salt iterations SecretFormat user from_stdin = Inr out"
  shows "\<exists>password secret v. out = secret @ newline \<and> password \<noteq> [] \<and> MIN_ITERATIONS \<le> iterations \<and>
    (if from_stdin then \<exists>line. tm_stdin_line T = Some line \<and> password = trim_end_newlines line
     else tm_password T = Some password \<and> tm_confirmation T = Some password) \<and>
    from_pg_secret C secret = Inr v \<and> v_password v = None \<and> v_iterations v = iterations \<and> v_salt v = salt \<and>
    (\<forall>cl mech h name nonce. good_nonce cl \<longrightarrow> binding_agrees C cl mech h \<longrightarrow> name \<noteq> [] \<longrightarrow>
       cl_password cl = Some (as_bytes (prepare_password C password)) \<longrightarrow>
       (\<exists>s1 a c2 cl' s2 a'. handle_client_first C nonce mech (client_first_message cl) name (authenticator_new v h) = (Ok s1, a) \<and>
          client_final_message C s1 [] 0 cl = (Ok c2, cl') \<and> handle_client_final C c2 name a = (Ok s2, a') \<and>
          verify_server_final C cl' s2 = Inr True))"
proof -
  obtain password where p: "read_password T from_stdin = Inr password" "password \<noteq> []" "MIN_ITERATIONS \<le> iterations"
      "out = hash_password C salt password iterations @ newline"
    using assms(3) by (auto simp: hash_password_command_def sum_Inr Let_def not_less split: if_splits)
  let ?v = "(derive_verifier C password salt iterations)\<lparr>v_password := None\<rparr>"
  have "from_pg_secret C (hash_password C salt password iterations) = Inr ?v"
    using hashed_secret_parses[OF assms(1) p(3) assms(2)] .
  moreover have "v_password ?v = None" "v_iterations ?v = iterations" "v_salt ?v = salt"
    by (simp_all add: derive_verifier_def from_password_def Let_def)
  moreover have "\<forall>cl mech h name nonce. good_nonce cl \<longrightarrow> binding_agrees C cl mech h \<longrightarrow> name \<noteq> [] \<longrightarrow>
       cl_password cl = Some (as_bytes (prepare_password C password)) \<longrightarrow>
       (\<exists>s1 a c2 cl' s2 a'. handle_client_first C nonce mech (client_first_message cl) name (authenticator_new ?v h) = (Ok s1, a) \<and>
          client_final_message C s1 [] 0 cl = (Ok c2, cl') \<and> handle_client_final C c2 name a = (Ok s2, a') \<and>
          verify_server_final C cl' s2 = Inr True)"
    using hashed_secret_accepts_password[OF assms(1) _ _ _ _ refl] by blast
  moreover have "if from_stdin then \<exists>line. tm_stdin_line T = Some line \<and> password = trim_end_newlines line
     else tm_password T = Some password \<and> tm_confirmation T = Some password"
    using read_password_Inr[OF p(1)] by (simp split: if_split) blast
  ultimately show ?thesis
    using p(2-4) by blast
qed

subsection \<open>\<open>proxy\<close>\<close>

lemma proxy_pool:
  assumes "pool_new 4 (2 ^ 20) n = Some pool"
  shows "pool_inv pool" and "max_capacity pool = 2 ^ 20"
proof -
  show "pool_inv pool" using pool_new_inv[OF assms] by simp
  obtain bs where bs: "new_buckets 4 (2 ^ 20) n [] = Some bs" "pool = \<lparr>buckets = bs\<rparr>" using assms by (auto simp: pool_new_def)
  have "(0 :: nat) < 4" by simp
  from new_buckets_shape[OF this bs(1)] obtain k where k: "bs = map (\<lambda>j. new_bucket (4 * 2 ^ j) n) [0..<k]"
      "(2 :: nat) ^ 20 < 4 * 2 ^ k" "k \<noteq> 0 \<longrightarrow> 4 * (2 :: nat) ^ (k - 1) \<le> 2 ^ 20" by auto
  have four: "4 * (2 :: nat) ^ j = 2 ^ (j + 2)" for j by (simp add: power_add)
  have two: "(1 :: nat) < 2" by simp
  have low: "20 < k + 2" using k(2) unfolding four by (rule power_less_imp_less_exp[OF two])
  then have "4 * (2 :: nat) ^ (k - 1) \<le> 2 ^ 20" using k(3) by linarith
  then have "k - 1 + 2 \<le> 20" unfolding four by (rule power_le_imp_le_exp[OF two])
  with low have "k = Suc 18" by linarith
  then have "last bs = new_bucket (4 * 2 ^ 18) n" "bs \<noteq> []" using k(1) by (simp_all add: last_map)
  then show "max_capacity pool = 2 ^ 20" using bs(2) by (simp add: max_capacity_def new_bucket_def)
qed

text \<open>
  C27. A configuration that \<open>proxy\<close> accepts gives a server: the buffer pool is built, in its invariant and with
  buffers for messages of a mebibyte, the credential store is well formed, the connection limit is the configured
  one, and the server speaks plaintext only, so it offers no channel binding. Everything else ends
  in an error before a socket is bound.
\<close>

theorem proxy_command_yields_a_server:
  assumes "proxy_command B parse parse_addr path = Inr (bind, sc)"
  shows "\<exists>sv document. server_state_new sc = Some sv \<and> pool_inv (sv_pool sv) \<and> max_capacity (sv_pool sv) = 2 ^ 20 \<and>
    bd_read B path = Some document \<and> parse document = Some (sc_config sc) \<and> parse_addr (listen_frontend (sc_config sc)) = Some bind \<and>
    build_store B (credentials (sc_config sc)) = Inr (sc_credentials sc) \<and> store_wf (sc_credentials sc) \<and>
    max_slots (sv_connections sv) = max_connections (limits (sc_config sc)) \<and> sv_frontend_tls sv = None \<and>
    (\<forall>W k s. offered_cert_hash (session_env W sv k) s = None)"
proof -
  obtain document where d: "bd_read B path = Some document" "parse document = Some (sc_config sc)"
      "parse_addr (listen_frontend (sc_config sc)) = Some bind" "build_store B (credentials (sc_config sc)) = Inr (sc_credentials sc)"
      "sc_frontend_tls sc = None" "sc_pool_min sc = 4" "sc_pool_max sc = 2 ^ 20"
    using assms
    by (auto simp: proxy_command_def config_from_yaml_def frontend_addr_def build_credential_store_def sum_Inr config_failure_Inr)
  have "(0 :: nat) < 4" by simp
  from new_buckets_terminates[OF this, of "2 ^ 20" 16 "[]"] obtain bs where "new_buckets 4 (2 ^ 20) 16 [] = Some bs" by blast
  then obtain pool where pool: "pool_new 4 (2 ^ 20) 16 = Some pool" by (simp add: pool_new_def)
  let ?sv = "\<lparr>sv_config = sc_config sc, sv_credentials = (sc_credentials sc, 0), sv_frontend_tls = None,
        sv_pool = pool, sv_backends = registry_new, sv_connections = slots_new (max_connections (limits (sc_config sc))),
        sv_next_id = 1\<rparr>"
  have "server_state_new sc = Some ?sv" unfolding server_state_new_def d pool by simp
  moreover have "store_wf (sc_credentials sc)" using built_store_wf[OF d(4)] by simp
  ultimately show ?thesis
    using d(1-4) proxy_pool[OF pool] by (auto simp: slots_new_def offered_cert_hash_def)
qed

end
