(* ===== verification/Server_Concurrent.thy ===== *)
theory Server_Concurrent
  imports Server
begin

section \<open>Sessions at the same time (\<open>proxy/server.rs\<close>, \<open>proxy/conn.rs\<close>)\<close>

text \<open>
  Every accepted connection is a task of its own, and the tasks share the connection slots and the session registry,
  each behind a lock. A task takes a slot or is refused (\<open>Conn::handle\<close>), may register its backend under a minted
  key (\<open>handle_startup_packet\<close>), gives the slot back when \<open>handle\<close> returns, and takes its key out of the registry when the
  \<open>Conn\<close> is dropped after that. \<open>server_step\<close> is one of these locked operations of one task, or the next \<open>accept\<close>
  of the listener, which draws the connection id from a counter of 32 bits that wraps around. What a task does
  between them is its own business; a cancel request of any task reads the registry between two steps.
\<close>

datatype task =
    Unborn
  | Spawned i32
  | Admitted i32
  | Serving i32 session_key_secret backend
  | Leaving i32 session_key_secret backend
  | Gone i32

record server_system =
  ss_slots :: slot_inner
  ss_registry :: "backend session_inner"
  ss_next_id :: i32
  ss_accepted :: nat
  ss_tasks :: "nat \<Rightarrow> task"

definition set_task :: "nat \<Rightarrow> task \<Rightarrow> server_system \<Rightarrow> server_system" where
  "set_task i p S = S\<lparr>ss_tasks := (ss_tasks S)(i := p)\<rparr>"

inductive server_step :: "server_system \<Rightarrow> server_system \<Rightarrow> bool" where
  accepts: "server_step S (set_task (ss_accepted S) (Spawned (ss_next_id S))
     (S\<lparr>ss_next_id := ss_next_id S + 1, ss_accepted := Suc (ss_accepted S)\<rparr>))"
| admits: "ss_tasks S i = Spawned c \<Longrightarrow> try_acquire (ss_slots S) = (Some (), slots) \<Longrightarrow>
     server_step S (set_task i (Admitted c) (S\<lparr>ss_slots := slots\<rparr>))"
| refuses: "ss_tasks S i = Spawned c \<Longrightarrow> try_acquire (ss_slots S) = (None, slots) \<Longrightarrow>
     server_step S (set_task i (Gone c) (S\<lparr>ss_slots := slots\<rparr>))"
| registers: "ss_tasks S i = Admitted c \<Longrightarrow> register (ss_registry S) b c key = Some registry \<Longrightarrow>
     server_step S (set_task i (Serving c key b) (S\<lparr>ss_registry := registry\<rparr>))"
| ends_early: "ss_tasks S i = Admitted c \<Longrightarrow>
     server_step S (set_task i (Gone c) (S\<lparr>ss_slots := permit_drop (ss_slots S)\<rparr>))"
| ends: "ss_tasks S i = Serving c key b \<Longrightarrow>
     server_step S (set_task i (Leaving c key b) (S\<lparr>ss_slots := permit_drop (ss_slots S)\<rparr>))"
| dropped: "ss_tasks S i = Leaving c key b \<Longrightarrow>
     server_step S (set_task i (Gone c) (S\<lparr>ss_registry := guard_drop (ss_registry S) c key\<rparr>))"

inductive_cases server_stepE: "server_step S T"

definition server_start :: "u32 \<Rightarrow> server_system" where
  "server_start limit =
     \<lparr>ss_slots = slots_new limit, ss_registry = registry_new, ss_next_id = 1, ss_accepted = 0, ss_tasks = (\<lambda>_. Unborn)\<rparr>"

subsection \<open>What the tasks hold\<close>

fun has_slot :: "task \<Rightarrow> bool" where
  "has_slot (Admitted _) = True"
| "has_slot (Serving _ _ _) = True"
| "has_slot _ = False"

fun has_key :: "task \<Rightarrow> (i32 \<times> session_key_secret \<times> backend) option" where
  "has_key (Serving c key b) = Some (c, key, b)"
| "has_key (Leaving c key b) = Some (c, key, b)"
| "has_key _ = None"

fun task_id :: "task \<Rightarrow> i32 option" where
  "task_id Unborn = None"
| "task_id (Spawned c) = Some c"
| "task_id (Admitted c) = Some c"
| "task_id (Serving c _ _) = Some c"
| "task_id (Leaving c _ _) = Some c"
| "task_id (Gone c) = Some c"

definition slot_holders :: "server_system \<Rightarrow> nat set" where
  "slot_holders S = {i. has_slot (ss_tasks S i)}"

definition key_holders :: "server_system \<Rightarrow> (i32 \<times> session_key_secret \<times> backend) set" where
  "key_holders S = {e. \<exists>i. has_key (ss_tasks S i) = Some e}"

definition ids_ok :: "server_system \<Rightarrow> bool" where
  "ids_ok S \<longleftrightarrow> ss_next_id S = 1 + of_nat (ss_accepted S) \<and>
     (\<forall>i. task_id (ss_tasks S i) = (if i < ss_accepted S then Some (1 + of_nat i) else None))"

definition slots_ok :: "u32 \<Rightarrow> server_system \<Rightarrow> bool" where
  "slots_ok limit S \<longleftrightarrow> finite (slot_holders S) \<and> unat (live (ss_slots S)) = card (slot_holders S) \<and>
     card (slot_holders S) \<le> unat limit \<and> max_slots (ss_slots S) = limit"

definition keys_ok :: "server_system \<Rightarrow> bool" where
  "keys_ok S \<longleftrightarrow> (\<exists>running. cancel_keys.agrees running (ss_registry S) \<and> set running = key_holders S)"

lemma set_task_simps [simp]:
  "ss_tasks (set_task i p S) j = (if j = i then p else ss_tasks S j)" "ss_slots (set_task i p S) = ss_slots S"
  "ss_registry (set_task i p S) = ss_registry S" "ss_next_id (set_task i p S) = ss_next_id S"
  "ss_accepted (set_task i p S) = ss_accepted S"
  by (simp_all add: set_task_def)

lemma slot_holders_set_task: "slot_holders (set_task i p S) = (if has_slot p then insert i (slot_holders S) else slot_holders S - {i})"
  by (auto simp: slot_holders_def)

lemma key_holders_set_task:
  "has_key (ss_tasks S i) = None \<Longrightarrow>
     key_holders (set_task i p S) = (case has_key p of None \<Rightarrow> key_holders S | Some e \<Rightarrow> insert e (key_holders S))"
  by (auto simp: key_holders_def split: option.splits if_splits) (metis option.distinct(1))+

lemma key_holders_same: "has_key p = has_key (ss_tasks S i) \<Longrightarrow> key_holders (set_task i p S) = key_holders S"
proof -
  assume "has_key p = has_key (ss_tasks S i)"
  then have "has_key (ss_tasks (set_task i p S) j) = has_key (ss_tasks S j)" for j by simp
  then show ?thesis by (simp add: key_holders_def)
qed

lemma holders_update [simp]:
  "slot_holders (S\<lparr>ss_slots := x\<rparr>) = slot_holders S" "slot_holders (S\<lparr>ss_registry := y\<rparr>) = slot_holders S"
  "key_holders (S\<lparr>ss_slots := x\<rparr>) = key_holders S" "key_holders (S\<lparr>ss_registry := y\<rparr>) = key_holders S"
  "slot_holders (S\<lparr>ss_next_id := c, ss_accepted := n\<rparr>) = slot_holders S"
  "key_holders (S\<lparr>ss_next_id := c, ss_accepted := n\<rparr>) = key_holders S"
  by (simp_all add: slot_holders_def key_holders_def)

subsection \<open>Connection ids\<close>

lemma ids_ok_set_task: "ids_ok S \<Longrightarrow> task_id p = task_id (ss_tasks S i) \<Longrightarrow> ids_ok (set_task i p S)"
  by (simp add: ids_ok_def)

lemma ids_ok_update [simp]: "ids_ok (S\<lparr>ss_slots := x\<rparr>) = ids_ok S" "ids_ok (S\<lparr>ss_registry := y\<rparr>) = ids_ok S"
  by (simp_all add: ids_ok_def)

lemma ids_ok_step:
  assumes "server_step S T" and "ids_ok S"
  shows "ids_ok T"
  using assms
proof (induction rule: server_step.induct)
  case (accepts S)
  then show ?case by (auto simp: ids_ok_def)
qed (auto intro!: ids_ok_set_task)

text \<open>Fewer than \<open>2^32\<close> connections never share an id.\<close>

lemma unat_of_nat32: "i < 2 ^ 32 \<Longrightarrow> unat (of_nat i :: i32) = i"
  by (simp add: unat_of_nat take_bit_nat_eq_self)

lemma id_inj: "of_nat i = (of_nat j :: i32) \<Longrightarrow> i < 2 ^ 32 \<Longrightarrow> j < 2 ^ 32 \<Longrightarrow> i = j"
  by (metis unat_of_nat32)

lemma ids_differ:
  assumes "ids_ok S" and "ss_accepted S \<le> 2 ^ 32" and "task_id (ss_tasks S i) = Some c" and "task_id (ss_tasks S j) = Some c"
  shows "i = j"
proof -
  have "i < ss_accepted S" "j < ss_accepted S" "(of_nat i :: i32) = of_nat j"
    using assms(1,3,4) by (auto simp: ids_ok_def split: if_splits)
  then show ?thesis using assms(2) by (intro id_inj) auto
qed

subsection \<open>Slots\<close>

lemma slots_ok_release:
  assumes "slots_ok limit S" and "i \<in> slot_holders S" and "\<not> has_slot p"
  shows "slots_ok limit (set_task i p (S\<lparr>ss_slots := permit_drop (ss_slots S)\<rparr>))"
proof -
  have "card (slot_holders S) - 1 \<le> unat limit" using assms(1) unfolding slots_ok_def by linarith
  then show ?thesis
    using assms conn_slots.release_used[of "ss_slots S"] by (simp add: slots_ok_def slot_holders_set_task permit_drop_def)
qed

lemma slots_ok_step:
  assumes "server_step S T" and "ids_ok S" and "slots_ok limit S"
  shows "slots_ok limit T"
  using assms
proof (induction rule: server_step.induct)
  case (accepts S)
  have "ss_tasks S (ss_accepted S) = Unborn" using accepts(1) by (cases "ss_tasks S (ss_accepted S)") (auto simp: ids_ok_def dest: spec[of _ "ss_accepted S"])
  then have "slot_holders S - {ss_accepted S} = slot_holders S" by (auto simp: slot_holders_def)
  then show ?case using accepts(2) by (simp add: slots_ok_def slot_holders_set_task)
next
  case (admits S i c slots)
  have new: "i \<notin> slot_holders S" using admits(1) by (simp add: slot_holders_def)
  have free: "unat (live (ss_slots S)) < unat (max_slots (ss_slots S))" using conn_slots.acquire_granted[OF admits(2)] .
  from conn_slots.acquire_used[OF this] admits(2) have "unat (live slots) = Suc (unat (live (ss_slots S)))"
    by simp
  moreover have "max_slots slots = max_slots (ss_slots S)" using admits(2) by (auto simp: try_acquire_def split: if_splits)
  ultimately show ?case using admits(4) new free by (simp add: slots_ok_def slot_holders_set_task)
next
  case (refuses S i c slots)
  have "slots = ss_slots S" using conn_slots.acquire_refused[OF refuses(2)] by simp
  moreover have "slot_holders S - {i} = slot_holders S" using refuses(1) by (auto simp: slot_holders_def)
  ultimately show ?case using refuses(4) by (simp add: slots_ok_def slot_holders_set_task)
next
  case (registers S i c b key registry)
  have "insert i (slot_holders S) = slot_holders S" using registers(1) by (auto simp: slot_holders_def)
  then show ?case using registers(4) by (simp add: slots_ok_def slot_holders_set_task)
next
  case (ends_early S i c)
  then show ?case by (intro slots_ok_release) (auto simp: slot_holders_def)
next
  case (ends S i c key b)
  then show ?case by (intro slots_ok_release) (auto simp: slot_holders_def)
next
  case (dropped S i c key b)
  have "slot_holders S - {i} = slot_holders S" using dropped(1) by (auto simp: slot_holders_def)
  then show ?case using dropped(3) by (simp add: slots_ok_def slot_holders_set_task)
qed

subsection \<open>Keys\<close>

lemma key_ids: "(c, key, b) \<in> key_holders S \<Longrightarrow> \<exists>i. task_id (ss_tasks S i) = Some c \<and> has_key (ss_tasks S i) = Some (c, key, b)"
proof -
  assume "(c, key, b) \<in> key_holders S"
  then obtain i where i: "has_key (ss_tasks S i) = Some (c, key, b)" by (auto simp: key_holders_def)
  then have "task_id (ss_tasks S i) = Some c" by (cases "ss_tasks S i") auto
  with i show ?thesis by blast
qed

lemma keys_ok_register:
  assumes point: "ss_tasks S i = Admitted c" and run: "register (ss_registry S) b c key = Some registry" and ids: "ids_ok S" and bound: "ss_accepted S \<le> 2 ^ 32" and keys: "keys_ok S"
  shows "keys_ok (set_task i (Serving c key b) (S\<lparr>ss_registry := registry\<rparr>))"
proof -
  obtain running where r: "cancel_keys.agrees running (ss_registry S)" "set running = key_holders S"
    using keys by (auto simp: keys_ok_def)
  have "c \<notin> fst ` key_holders S"
  proof
    assume "c \<in> fst ` key_holders S"
    then obtain j where j: "task_id (ss_tasks S j) = Some c" "has_key (ss_tasks S j) \<noteq> None" using key_ids by fastforce
    have "j = i" using ids_differ[OF ids bound j(1)] point by simp
    then show False using j(2) point by simp
  qed
  then have "cancel_keys.agrees ((c, key, b) # running) registry"
    using r run by (intro cancel_keys.agrees_open) auto
  then show ?thesis
    using r(2) point unfolding keys_ok_def by (intro exI[of _ "(c, key, b) # running"]) (simp add: key_holders_set_task)
qed

lemma keys_ok_drop:
  assumes point: "ss_tasks S i = Leaving c key b" and ids: "ids_ok S" and bound: "ss_accepted S \<le> 2 ^ 32" and keys: "keys_ok S"
  shows "keys_ok (set_task i (Gone c) (S\<lparr>ss_registry := guard_drop (ss_registry S) c key\<rparr>))"
proof -
  obtain running where r: "cancel_keys.agrees running (ss_registry S)" "set running = key_holders S"
    using keys by (auto simp: keys_ok_def)
  have "(c, key, b) \<in> set running" using point r(2) by (auto simp: key_holders_def intro!: exI[of _ i])
  moreover have "distinct (map fst running)" using r(1) unfolding cancel_keys.agrees_def by simp
  ultimately have "map_of running c = Some (key, b)" by simp
  from cancel_keys.agrees_close[OF r(1) this]
  have "cancel_keys.agrees (filter (\<lambda>r. fst r \<noteq> c) running) (guard_drop (ss_registry S) c key)" .
  moreover have "set (filter (\<lambda>r. fst r \<noteq> c) running) =
      key_holders (set_task i (Gone c) (S\<lparr>ss_registry := guard_drop (ss_registry S) c key\<rparr>))"
  proof -
    have "fst e = c \<longleftrightarrow> j = i" if "has_key (ss_tasks S j) = Some e" for e j
    proof
      assume "fst e = c"
      then have "task_id (ss_tasks S j) = Some c" using that by (cases "ss_tasks S j") auto
      then show "j = i" using ids_differ[OF ids bound] point by simp
    next
      assume "j = i" then show "fst e = c" using that point by auto
    qed
    note mine = this
    show ?thesis
    proof (intro set_eqI iffI)
      fix e assume "e \<in> set (filter (\<lambda>r. fst r \<noteq> c) running)"
      then obtain j where "has_key (ss_tasks S j) = Some e" "fst e \<noteq> c" unfolding set_filter r(2) key_holders_def by blast
      then show "e \<in> key_holders (set_task i (Gone c) (S\<lparr>ss_registry := guard_drop (ss_registry S) c key\<rparr>))"
        using mine unfolding key_holders_def by (intro CollectI exI[of _ j]) auto
    next
      fix e assume "e \<in> key_holders (set_task i (Gone c) (S\<lparr>ss_registry := guard_drop (ss_registry S) c key\<rparr>))"
      then obtain j where "j \<noteq> i" "has_key (ss_tasks S j) = Some e" by (auto simp: key_holders_def split: if_splits)
      then show "e \<in> set (filter (\<lambda>r. fst r \<noteq> c) running)"
        using mine unfolding set_filter r(2) key_holders_def by blast
    qed
  qed
  ultimately show ?thesis unfolding keys_ok_def by (intro exI[of _ "filter (\<lambda>r. fst r \<noteq> c) running"]) simp
qed

lemma keys_ok_step:
  assumes "server_step S T" and "ids_ok S" and "ss_accepted S \<le> 2 ^ 32" and "keys_ok S"
  shows "keys_ok T"
  using assms
proof (induction rule: server_step.induct)
  case (accepts S)
  have "ss_tasks S (ss_accepted S) = Unborn" using accepts(1) by (cases "ss_tasks S (ss_accepted S)") (auto simp: ids_ok_def dest: spec[of _ "ss_accepted S"])
  then show ?case using accepts(3) by (simp add: keys_ok_def key_holders_set_task)
next
  case (registers S i c b key registry)
  then show ?case by (intro keys_ok_register)
next
  case (ends S i c key b)
  have "key_holders (set_task i (Leaving c key b) (S\<lparr>ss_slots := permit_drop (ss_slots S)\<rparr>)) = key_holders S"
    using key_holders_same[of "Leaving c key b" "S\<lparr>ss_slots := permit_drop (ss_slots S)\<rparr>" i] ends(1) by simp
  then show ?case using ends(4) by (simp add: keys_ok_def)
next
  case (dropped S i c key b)
  then show ?case by (intro keys_ok_drop)
qed (simp_all add: keys_ok_def key_holders_set_task)

lemma accepted_mono: "server_step S T \<Longrightarrow> ss_accepted S \<le> ss_accepted T"
  by (elim server_stepE) simp_all

lemma server_reachable:
  assumes "server_step\<^sup>*\<^sup>* (server_start limit) S"
  shows "ids_ok S \<and> slots_ok limit S \<and> (ss_accepted S \<le> 2 ^ 32 \<longrightarrow> keys_ok S)"
  using assms
proof (induction rule: rtranclp_induct)
  case base
  have "cancel_keys.agrees [] (registry_new :: backend session_inner)"
    unfolding cancel_keys.agrees_def by (simp add: registry_new_def lookup_by_key_def)
  then have "keys_ok (server_start limit)" unfolding keys_ok_def by (intro exI[of _ "[]"]) (simp add: server_start_def key_holders_def)
  then show ?case by (simp add: ids_ok_def slots_ok_def server_start_def slot_holders_def slots_new_def)
next
  case (step S T)
  then show ?case using ids_ok_step slots_ok_step keys_ok_step accepted_mono by (meson order_trans)
qed

text \<open>
  C19. Under every interleaving of its sessions the server keeps its accounts. The slot counter is the number of
  sessions that hold a slot, and never above the limit. As long as fewer than \<open>2^32\<close> connections were accepted, so
  that ids do not repeat, a cancel key resolves to a backend exactly if a session that registered this key for this
  backend has not been dropped yet.
\<close>

theorem concurrent_sessions_keep_accounts:
  assumes "server_step\<^sup>*\<^sup>* (server_start limit) S"
  shows "unat (slots_live (ss_slots S)) = card {i. has_slot (ss_tasks S i)} \<and> card {i. has_slot (ss_tasks S i)} \<le> unat limit \<and>
    (ss_accepted S \<le> 2 ^ 32 \<longrightarrow> lookup_by_key (ss_registry S) key = Some b \<longleftrightarrow>
       (\<exists>i c. ss_tasks S i \<in> {Serving c key b, Leaving c key b}))"
proof -
  note ok = server_reachable[OF assms]
  have "lookup_by_key (ss_registry S) key = Some b \<longleftrightarrow> (\<exists>c. (c, key, b) \<in> key_holders S)" if "ss_accepted S \<le> 2 ^ 32"
    using ok that cancel_keys.agrees_resolve by (fastforce simp: keys_ok_def)
  moreover have "(\<exists>c. (c, key, b) \<in> key_holders S) \<longleftrightarrow> (\<exists>i c. ss_tasks S i \<in> {Serving c key b, Leaving c key b})"
    by (auto simp: key_holders_def elim!: has_key.elims) (metis has_key.simps(1,2))+
  ultimately show ?thesis using ok by (simp add: slots_ok_def slot_holders_def slots_live_def)
qed

end
