(* ===== verification/Server_Refine.thy ===== *)
theory Server_Refine
  imports Server_Concurrent
begin

section \<open>The sequential server is one schedule of the concurrent one\<close>

text \<open>
  \<open>run_session\<close> is a whole session as one function, \<open>server_step\<close> one locked operation of one of many sessions. Here
  the first is shown to do to the shared state what a path of the second does: a session that ends takes its slot,
  perhaps registers a key, gives the slot back and then drops its key; one that waits for ever stops somewhere on that
  path. So every run of \<open>serve\<close> is a schedule of the concurrent server, and what holds in every reachable
  state of that one holds of \<open>serve\<close>.
\<close>

subsection \<open>A session is a path\<close>

text \<open>What a task may hold when its session waits for ever.\<close>

fun stuck_task :: "i32 \<Rightarrow> task \<Rightarrow> bool" where
  "stuck_task c (Spawned c') = (c' = c)"
| "stuck_task c (Admitted c') = (c' = c)"
| "stuck_task c (Serving c' _ _) = (c' = c)"
| "stuck_task c _ = False"

lemma step_path: "server_step S T \<Longrightarrow> server_step\<^sup>*\<^sup>* T U \<Longrightarrow> server_step\<^sup>*\<^sup>* S U"
  by (rule converse_rtranclp_into_rtranclp)

text \<open>The shared state with the task \<open>i\<close> at a point.\<close>

definition shared :: "nat \<Rightarrow> task \<Rightarrow> slot_inner \<Rightarrow> backend session_inner \<Rightarrow> server_system \<Rightarrow> server_system" where
  "shared i p slots registry S = set_task i p (S\<lparr>ss_slots := slots, ss_registry := registry\<rparr>)"

lemma shared_simps [simp]:
  "ss_tasks (shared i p slots registry S) j = (if j = i then p else ss_tasks S j)" "ss_slots (shared i p slots registry S) = slots"
  "ss_registry (shared i p slots registry S) = registry" "ss_next_id (shared i p slots registry S) = ss_next_id S"
  "ss_accepted (shared i p slots registry S) = ss_accepted S"
  "shared i p slots registry (shared i p' slots' registry' S) = shared i p slots registry S"
  by (simp_all add: shared_def set_task_def)

lemma shared_own: "shared i p (ss_slots S) (ss_registry S) (S\<lparr>ss_next_id := c, ss_accepted := n\<rparr>) = set_task i p (S\<lparr>ss_next_id := c, ss_accepted := n\<rparr>)"
  by (cases S) (simp add: shared_def set_task_def)

lemma set_task_shared:
  "set_task i p' ((shared i p slots registry S)\<lparr>ss_slots := slots'\<rparr>) = shared i p' slots' registry S"
  "set_task i p' ((shared i p slots registry S)\<lparr>ss_registry := registry'\<rparr>) = shared i p' slots registry' S"
  by (cases S; simp add: shared_def set_task_def)+

text \<open>The steps of one task, on the shared state only.\<close>

lemma shared_admits:
  "try_acquire slots = (Some (), slots') \<Longrightarrow> server_step (shared i (Spawned c) slots registry S) (shared i (Admitted c) slots' registry S)"
  using server_step.admits[of "shared i (Spawned c) slots registry S" i c slots'] by (simp add: set_task_shared)

lemma shared_refuses:
  "try_acquire slots = (None, slots') \<Longrightarrow> server_step (shared i (Spawned c) slots registry S) (shared i (Gone c) slots' registry S)"
  using server_step.refuses[of "shared i (Spawned c) slots registry S" i c slots'] by (simp add: set_task_shared)

lemma shared_registers:
  "register registry b c key = Some registry' \<Longrightarrow>
     server_step (shared i (Admitted c) slots registry S) (shared i (Serving c key b) slots registry' S)"
  using server_step.registers[of "shared i (Admitted c) slots registry S" i c b key registry'] by (simp add: set_task_shared)

lemma shared_ends_early: "server_step (shared i (Admitted c) slots registry S) (shared i (Gone c) (permit_drop slots) registry S)"
  using server_step.ends_early[of "shared i (Admitted c) slots registry S" i c] by (simp add: set_task_shared)

lemma shared_ends:
  "server_step (shared i (Serving c key b) slots registry S) (shared i (Leaving c key b) (permit_drop slots) registry S)"
  using server_step.ends[of "shared i (Serving c key b) slots registry S" i c key b] by (simp add: set_task_shared)

lemma shared_dropped:
  "server_step (shared i (Leaving c key b) slots registry S) (shared i (Gone c) slots (guard_drop registry c key) S)"
  using server_step.dropped[of "shared i (Leaving c key b) slots registry S" i c key b] by (simp add: set_task_shared)

lemma send_error_shared:
  "send_error_message code message s = (r, s') \<Longrightarrow>
     cn_slots s' = cn_slots s \<and> cn_registry s' = cn_registry s \<and> cn_guard s' = cn_guard s"
  by (auto simp: send_error_message_def write_message_def c_write_def split: if_splits option.splits nat.splits)

lemma session_path:
  assumes "env_ok E" and "pool_inv pool"
    and "run_session E (conn_new c segments eof writes pool provider registry slots) = (r, s)"
  shows "\<exists>p. server_step\<^sup>*\<^sup>* (shared i (Spawned c) slots registry S) (shared i p (cn_slots s) (cn_registry s) S) \<and>
    (if r = Pending then stuck_task c p else p = Gone c)"
proof -
  obtain x t where run: "conn_handle E (conn_new c segments eof writes pool provider registry slots) = (x, t)" by fastforce
  have r: "r = x" and s: "s = (if x = Pending then t else conn_drop t)"
    using assms(3) run by (auto simp: run_session_def split: outcome.splits)
  obtain slots' where fin: "finished (fresh registry slots' c (writes = None)) (core t)"
      "if x = Pending then slots' = snd (try_acquire slots) else slots' = slots"
    using conn_handle_core[OF assms(1,2) run] by blast
  obtain sent reg gd where core: "core t = (sent, slots', reg, gd, c, writes = None)"
      and gd: "(reg, gd) = (registry, None) \<or> (\<exists>b key. register registry b c key = Some reg \<and> gd = Some (c, key))"
    by (rule finished_fresh[OF fin(1)]) (rule that; assumption)
  then have t: "cn_slots t = slots'" "cn_registry t = reg" "cn_guard t = gd" by (simp_all add: core_def)
  obtain u taken where acq: "try_acquire slots = (u, taken)" by fastforce
  show ?thesis
  proof (cases u)
    case None
    then have same: "cn_slots t = slots" "cn_registry t = registry" "cn_guard t = None"
      using run acq send_error_shared conn_slots.acquire_refused[of slots taken]
      by (fastforce simp: conn_handle_def conn_new_def)+
    have "server_step (shared i (Spawned c) slots registry S) (shared i (Gone c) slots registry S)"
      using shared_refuses[of slots taken] acq None conn_slots.acquire_refused[of slots taken] by simp
    then show ?thesis
      using same r s by (intro exI[of _ "if r = Pending then Spawned c else Gone c"]) (auto simp: conn_drop_def)
  next
    case (Some v)
    then have acq: "try_acquire slots = (Some (), taken)" using acq by simp
    have taken: "slots' = (if x = Pending then taken else slots)" "permit_drop taken = slots"
      using fin(2) acq permit_round_trip[OF acq] by auto
    let ?at = "\<lambda>p slots registry. shared i p slots registry S"
    have admitted: "server_step (?at (Spawned c) slots registry) (?at (Admitted c) taken registry)" by (rule shared_admits[OF acq])
    from gd show ?thesis
    proof
      assume none: "(reg, gd) = (registry, None)"
      have "server_step (?at (Admitted c) taken registry) (?at (Gone c) slots registry)"
        using shared_ends_early[of i c taken] taken(2) by simp
      then have "server_step\<^sup>*\<^sup>* (?at (Spawned c) slots registry) (?at (if x = Pending then Admitted c else Gone c) slots' registry)"
        using admitted taken(1) by (auto intro: step_path)
      then show ?thesis
        using none t r s by (intro exI[of _ "if x = Pending then Admitted c else Gone c"]) (auto simp: conn_drop_def)
    next
      assume "\<exists>b key. register registry b c key = Some reg \<and> gd = Some (c, key)"
      then obtain b key where reg: "register registry b c key = Some reg" "gd = Some (c, key)" by blast
      have served: "server_step (?at (Admitted c) taken registry) (?at (Serving c key b) taken reg)"
        by (rule shared_registers[OF reg(1)])
      have "server_step (?at (Serving c key b) taken reg) (?at (Leaving c key b) slots reg)"
        using shared_ends[of i c key b taken] taken(2) by simp
      moreover have "server_step (?at (Leaving c key b) slots reg) (?at (Gone c) slots (guard_drop reg c key))" by (rule shared_dropped)
      ultimately have "server_step\<^sup>*\<^sup>* (?at (Spawned c) slots registry)
          (?at (if x = Pending then Serving c key b else Gone c) slots' (if x = Pending then reg else guard_drop reg c key))"
        using admitted served taken(1) by (auto intro: step_path)
      then show ?thesis
        using reg(2) t r s by (intro exI[of _ "if x = Pending then Serving c key b else Gone c"]) (auto simp: conn_drop_def)
    qed
  qed
qed

subsection \<open>\<open>serve\<close> is a schedule\<close>

definition linked :: "server_system \<Rightarrow> server_state \<Rightarrow> bool" where
  "linked S sv \<longleftrightarrow> ss_slots S = sv_connections sv \<and> ss_registry S = sv_backends sv \<and> ss_next_id S = sv_next_id sv"

text \<open>What a finished or stuck session leaves its task as.\<close>

definition task_after :: "(unit, internal_error) outcome \<Rightarrow> i32 \<Rightarrow> task \<Rightarrow> bool" where
  "task_after r c p \<longleftrightarrow> (if r = Pending then stuck_task c p else p = Gone c)"

lemma serve_session_keeps:
  assumes "serve_session W k segments eof writes sv = (r, t)" and "tls_total (sv_frontend_tls sv)" and "pool_inv (sv_pool sv)"
  shows "pool_inv (sv_pool t) \<and> sv_frontend_tls t = sv_frontend_tls sv \<and> r \<noteq> Panic \<and> (r = Pending \<longrightarrow> writes \<noteq> None)"
    and "linked S sv \<Longrightarrow> \<exists>T p. server_step\<^sup>*\<^sup>* S T \<and> linked T t \<and> ss_accepted T = Suc (ss_accepted S) \<and>
      ss_tasks T = (ss_tasks S)(ss_accepted S := p) \<and> task_after r (sv_next_id sv) p"
proof -
  let ?E = "session_env W (sv\<lparr>sv_next_id := sv_next_id sv + 1\<rparr>) k"
  let ?c = "sv_next_id sv"
  obtain x s where run: "run_session ?E (conn_new ?c segments eof writes (sv_pool sv) (sv_credentials sv) (sv_backends sv) (sv_connections sv)) = (x, s)"
    by fastforce
  have E: "env_ok ?E"
    by (rule stored.session_env_ok[where C = "w_crypto W" and D = "w_db W" and clock = "w_clock W"]) (simp_all add: assms(2))
  obtain y u where hd: "conn_handle ?E (conn_new ?c segments eof writes (sv_pool sv) (sv_credentials sv) (sv_backends sv) (sv_connections sv)) = (y, u)"
    by fastforce
  have "cn_pool s = cn_pool u" "x = y" using run hd by (auto simp: run_session_def conn_drop_def split: outcome.splits option.splits)
  then have pool: "pool_inv (cn_pool s)" "x \<noteq> Panic" "x = Pending \<longrightarrow> writes \<noteq> None"
    using conn_handle_core[OF E assms(3) hd] by (auto simp: conn_pool.holds_def)
  have t: "r = x" "t = sv\<lparr>sv_next_id := ?c + 1, sv_pool := cn_pool s, sv_credentials := cn_provider s, sv_backends := cn_registry s,
      sv_connections := cn_slots s\<rparr>"
    using assms(1) run by (auto simp: serve_session_def Let_def)
  show "pool_inv (sv_pool t) \<and> sv_frontend_tls t = sv_frontend_tls sv \<and> r \<noteq> Panic \<and> (r = Pending \<longrightarrow> writes \<noteq> None)"
    using pool t by simp
  assume linked: "linked S sv"
  let ?i = "ss_accepted S"
  let ?A = "S\<lparr>ss_next_id := ?c + 1, ss_accepted := Suc ?i\<rparr>"
  obtain p where p: "server_step\<^sup>*\<^sup>* (shared ?i (Spawned ?c) (sv_connections sv) (sv_backends sv) ?A)
      (shared ?i p (cn_slots s) (cn_registry s) ?A)" "task_after x ?c p"
    using session_path[OF E assms(3) run, of ?i ?A] by (auto simp: task_after_def)
  have "server_step S (shared ?i (Spawned ?c) (sv_connections sv) (sv_backends sv) ?A)"
    using server_step.accepts[of S] linked shared_own[of ?i _ S] by (simp add: linked_def)
  with p(1) have "server_step\<^sup>*\<^sup>* S (shared ?i p (cn_slots s) (cn_registry s) ?A)" by (rule step_path[rotated])
  then show "\<exists>T p. server_step\<^sup>*\<^sup>* S T \<and> linked T t \<and> ss_accepted T = Suc (ss_accepted S) \<and>
      ss_tasks T = (ss_tasks S)(ss_accepted S := p) \<and> task_after r (sv_next_id sv) p"
    using t p(2) by (intro exI[of _ "shared ?i p (cn_slots s) (cn_registry s) ?A"] exI[of _ p])
      (simp add: linked_def fun_eq_iff)
qed

lemma serve_path:
  assumes "serve W k as sv = (rs, t)" and "tls_total (sv_frontend_tls sv)" and "pool_inv (sv_pool sv)" and "linked S sv"
  shows "\<exists>T. server_step\<^sup>*\<^sup>* S T \<and> linked T t \<and> ss_accepted T = ss_accepted S + length rs \<and> length rs = sessions as \<and>
    Panic \<notin> set rs \<and> (\<forall>i < ss_accepted S. ss_tasks T i = ss_tasks S i) \<and>
    (\<forall>j < length rs. task_after (rs ! j) (sv_next_id sv + of_nat j) (ss_tasks T (ss_accepted S + j)))"
  using assms
proof (induction as arbitrary: k sv rs S)
  case Nil
  then show ?case by (intro exI[of _ S]) simp
next
  case (Cons a as)
  show ?case
  proof (cases a)
    case AcceptError
    then show ?thesis using Cons.IH[of k sv rs S] Cons.prems by simp
  next
    case (Accepted segments eof writes)
    obtain r u where one: "serve_session W k segments eof writes sv = (r, u)" by fastforce
    obtain rs' where rest: "serve W (Suc k) as u = (rs', t)" "rs = r # rs'"
      using Cons.prems(1) Accepted one by (auto split: prod.splits)
    have u: "tls_total (sv_frontend_tls u)" "pool_inv (sv_pool u)" "r \<noteq> Panic"
      using serve_session_keeps(1)[OF one Cons.prems(2,3)] Cons.prems(2) by auto
    have next_id: "sv_next_id u = sv_next_id sv + 1" using one by (auto simp: serve_session_def Let_def split: prod.splits)
    obtain U p where U: "server_step\<^sup>*\<^sup>* S U" "linked U u" "ss_accepted U = Suc (ss_accepted S)"
        "ss_tasks U = (ss_tasks S)(ss_accepted S := p)" "task_after r (sv_next_id sv) p"
      using serve_session_keeps(2)[OF one Cons.prems(2-4)] by blast
    obtain T where T: "server_step\<^sup>*\<^sup>* U T" "linked T t" "ss_accepted T = ss_accepted U + length rs'" "length rs' = sessions as"
        "Panic \<notin> set rs'" "\<forall>i < ss_accepted U. ss_tasks T i = ss_tasks U i"
        "\<forall>j < length rs'. task_after (rs' ! j) (sv_next_id u + of_nat j) (ss_tasks T (ss_accepted U + j))"
      using Cons.IH[OF rest(1) u(1,2) U(2)] by blast
    have "task_after (rs ! j) (sv_next_id sv + of_nat j) (ss_tasks T (ss_accepted S + j))" if "j < length rs" for j
      using that T(6,7) U(3-5) rest(2) next_id by (cases j) (auto simp: algebra_simps)
    moreover have "\<forall>i < ss_accepted S. ss_tasks T i = ss_tasks S i" using T(6) U(3,4) by simp
    ultimately show ?thesis
      using U T rest(2) u(3) Accepted by (intro exI[of _ T]) (auto intro: rtranclp_trans)
  qed
qed

text \<open>
  C31. Whatever a sequence of peers does, peers that stop reading and leave their session waiting for ever included,
  \<open>serve\<close> is a schedule of the concurrent server: its slots, its registry and its counter are those of a reachable state
  in which exactly the sessions that ended have given up their slot and their key, and every other waits
  either before it has a slot (a peer that does not read its refusal), or holds one and, once it was registered, its key. Hence after any sequence of
  peers the slot counter is the number of sessions that still hold one, and no session ends in a panic.
\<close>

theorem serve_is_a_schedule:
  assumes "server_state_new sc = Some sv" and "0 < sc_pool_min sc" and "sc_pool_min sc \<le> sc_pool_max sc"
    and "tls_total (sc_frontend_tls sc)" and "serve W 0 clients sv = (rs, t)"
  shows "\<exists>S. server_step\<^sup>*\<^sup>* (server_start (max_connections (limits (sc_config sc)))) S \<and>
    ss_slots S = sv_connections t \<and> ss_registry S = sv_backends t \<and> ss_accepted S = sessions clients \<and> length rs = sessions clients \<and>
    Panic \<notin> set rs \<and>
    (\<forall>j < length rs. if rs ! j = Pending then stuck_task (1 + of_nat j) (ss_tasks S j) else ss_tasks S j = Gone (1 + of_nat j)) \<and>
    unat (slots_live (sv_connections t)) = card {j. has_slot (ss_tasks S j)} \<and>
    unat (slots_live (sv_connections t)) \<le> length (filter (\<lambda>r. r = Pending) rs)"
proof -
  obtain pool where pool: "pool_new (sc_pool_min sc) (sc_pool_max sc) 16 = Some pool"
    and sv: "sv_pool sv = pool" "sv_backends sv = registry_new" "sv_frontend_tls sv = sc_frontend_tls sc" "sv_next_id sv = 1"
      "sv_connections sv = slots_new (max_connections (limits (sc_config sc)))"
    using assms(1) by (auto simp: server_state_new_def)
  let ?S = "server_start (max_connections (limits (sc_config sc)))"
  have start: "linked ?S sv" "ss_accepted ?S = 0" using sv by (simp_all add: linked_def server_start_def)
  have tls: "tls_total (sv_frontend_tls sv)" using assms(4) sv(3) by simp
  have inv: "pool_inv (sv_pool sv)" using pool_new_inv[OF pool assms(2,3)] sv(1) by simp
  obtain T where T: "server_step\<^sup>*\<^sup>* ?S T" "linked T t" "ss_accepted T = length rs" "length rs = sessions clients" "Panic \<notin> set rs"
      "\<forall>j < length rs. task_after (rs ! j) (1 + of_nat j) (ss_tasks T j)"
    using serve_path[OF assms(5) tls inv start(1)] start(2) sv(4) by auto
  have ok: "ids_ok T" "slots_ok (max_connections (limits (sc_config sc))) T" using server_reachable[OF T(1)] by simp_all
  have "{j. has_slot (ss_tasks T j)} \<subseteq> {j. j < length rs \<and> rs ! j = Pending}"
  proof
    fix j assume "j \<in> {j. has_slot (ss_tasks T j)}"
    then have j: "has_slot (ss_tasks T j)" by simp
    then have "task_id (ss_tasks T j) \<noteq> None" by (cases "ss_tasks T j") simp_all
    then have "j < length rs" using ok(1) T(3) by (auto simp: ids_ok_def split: if_splits)
    moreover have "rs ! j = Pending" using T(6) calculation j by (auto simp: task_after_def split: if_splits)
    ultimately show "j \<in> {j. j < length rs \<and> rs ! j = Pending}" by simp
  qed
  then have "card {j. has_slot (ss_tasks T j)} \<le> length (filter (\<lambda>r. r = Pending) rs)"
    unfolding length_filter_conv_card by (intro card_mono) simp_all
  then show ?thesis
    using T ok(2) by (intro exI[of _ T]) (auto simp: linked_def slots_ok_def slot_holders_def slots_live_def task_after_def)
qed

end
