(* ===== verification/Server_Demo.thy ===== *)
theory Server_Demo
  imports Cli Conn_Demo Server_Refine
begin

section \<open>A server on concrete libraries\<close>

text \<open>
  The properties of the server and the command line applied to the example cryptography: a server whose memory store
  knows the user \<open>u\<close>, a client that logs in, one that sends garbage and one \<open>accept\<close> that fails.
\<close>

definition demo_server_config :: server_config where
  "demo_server_config =
     \<lparr>sc_config = (default_config default_credentials)\<lparr>backend := default_backend_config\<lparr>backend_tls := default_tls_config\<lparr>tls_mode := TlsDisable\<rparr>\<rparr>\<rparr>,
      sc_credentials = from_source Memory \<lparr>sn_generation = 1, sn_users = [(''u'', demo_verifier)]\<rparr> (replicate 32 1) 0,
      sc_frontend_tls = None, sc_pool_min = 4, sc_pool_max = 4096\<rparr>"

definition demo_world :: world where
  "demo_world = \<lparr>w_crypto = toy_crypto, w_net = demo_net\<lparr>net_connect := (\<lambda>_. Inr demo_link)\<rparr>, w_db = demo_db, w_clock = id,
     w_order = id, w_nonce = (\<lambda>_ _. replicate 32 9), w_client_nonce = (\<lambda>_ _. replicate 18 3), w_key_rng = (\<lambda>_ _. 7)\<rparr>"

lemma demo_server: "\<exists>sv. server_state_new demo_server_config = Some sv \<and> sv_config sv = sc_config demo_server_config \<and>
    sv_frontend_tls sv = None \<and> sv_credentials sv = (sc_credentials demo_server_config, 0)"
proof -
  have "(0 :: nat) < 4" by simp
  from new_buckets_terminates[OF this, of 4096 16 "[]"] obtain bs where "new_buckets 4 4096 16 [] = Some bs" by blast
  then show ?thesis by (auto simp: server_state_new_def pool_new_def demo_server_config_def)
qed

lemma demo_address_of: "backend_host_port (sc_config demo_server_config) = Inr (''127.0.0.1'', 5432)"
proof -
  have "backend_host_port (sc_config demo_server_config) = backend_host_port (e_config demo_env)"
    by (simp add: backend_host_port_def demo_server_config_def demo_env_def default_config_def)
  then show ?thesis using demo_address by simp
qed


text \<open>A peer that logs in but reads nothing, one that opens the connection and falls silent, a failing \<open>accept\<close>.\<close>

theorem serve_is_a_schedule_witness:
  "\<exists>sv rs t S. server_state_new demo_server_config = Some sv \<and>
    serve demo_world 0 [Accepted [demo_stream] False (Some 0), AcceptError, Accepted [[1, 2]] False None] sv = (rs, t) \<and>
    server_step\<^sup>*\<^sup>* (server_start (max_connections (limits (sc_config demo_server_config)))) S \<and> ss_slots S = sv_connections t \<and>
    length rs = 2 \<and> Panic \<notin> set rs \<and> unat (slots_live (sv_connections t)) \<le> 2"
proof -
  let ?clients = "[Accepted [demo_stream] False (Some 0), AcceptError, Accepted [[1, 2]] False None]"
  obtain sv where sv: "server_state_new demo_server_config = Some sv" using demo_server by blast
  obtain rs t where run: "serve demo_world 0 ?clients sv = (rs, t)" by fastforce
  have "0 < sc_pool_min demo_server_config" "sc_pool_min demo_server_config \<le> sc_pool_max demo_server_config"
    "tls_total (sc_frontend_tls demo_server_config)"
    by (simp_all add: demo_server_config_def tls_total_def)
  from serve_is_a_schedule[OF sv this run] obtain S where "server_step\<^sup>*\<^sup>* (server_start (max_connections (limits (sc_config demo_server_config)))) S"
      "ss_slots S = sv_connections t" "length rs = 2" "Panic \<notin> set rs"
      "unat (slots_live (sv_connections t)) \<le> length (filter (\<lambda>r. r = Pending) rs)"
    by auto
  moreover have "unat (slots_live (sv_connections t)) \<le> 2"
    using calculation length_filter_le[of "\<lambda>r. r = Pending" rs] by linarith
  ultimately show ?thesis using sv run by (intro exI[of _ sv] exI[of _ rs] exI[of _ t] exI[of _ S] conjI)
qed


theorem printed_secret_opens_the_account_witness:
  "\<exists>secret v. hash_password_command toy_crypto \<lparr>tm_stdin_line = Some (''pw'' @ newline), tm_password = None, tm_confirmation = None\<rparr>
      (replicate 16 7) 4096 SecretFormat None True = Inr (secret @ newline) \<and>
    from_pg_secret toy_crypto secret = Inr v \<and> v_iterations v = 4096"
proof -
  let ?T = "\<lparr>tm_stdin_line = Some (''pw'' @ newline), tm_password = None, tm_confirmation = None\<rparr>"
  have "hash_password_command toy_crypto ?T (replicate 16 7) 4096 SecretFormat None True =
      Inr (hash_password toy_crypto (replicate 16 7) ''pw'' 4096 @ newline)"
    by (simp add: hash_password_command_def read_password_def trim_end_newlines_def newline_def MIN_ITERATIONS_def Let_def)
  from printed_secret_opens_the_account[OF toy_crypto_laws _ this] this show ?thesis by auto
qed

theorem proxy_command_yields_a_server_witness:
  "\<exists>sc sv. proxy_command demo_build (\<lambda>_. Some (default_config demo_credentials)) Some ''wirechaos.yaml'' = Inr (''127.0.0.1:6432'', sc) \<and>
    server_state_new sc = Some sv \<and> max_capacity (sv_pool sv) = 1048576"
proof -
  obtain built where "build_store demo_build demo_credentials = Inr built" using demo_built by blast
  then obtain sc where run: "proxy_command demo_build (\<lambda>_. Some (default_config demo_credentials)) Some ''wirechaos.yaml'' = Inr (''127.0.0.1:6432'', sc)"
    by (auto simp: proxy_command_def config_from_yaml_def frontend_addr_def build_credential_store_def config_failure_def demo_build_def
        default_config_def)
  from proxy_command_yields_a_server[OF this] this show ?thesis by auto
qed

subsection \<open>Two tasks, one slot\<close>

definition two_accepted :: server_system where
  "two_accepted = (let S = server_start 1;
     S = set_task 0 (Spawned 1) (S\<lparr>ss_next_id := 2, ss_accepted := 1\<rparr>) in
     set_task 1 (Spawned 2) (S\<lparr>ss_next_id := 3, ss_accepted := 2\<rparr>))"

definition one_refused :: server_system where
  "one_refused = (let slots = \<lparr>live = 1, max_slots = 1\<rparr> in
     set_task 1 (Gone 2) ((set_task 0 (Admitted 1) (two_accepted\<lparr>ss_slots := slots\<rparr>))\<lparr>ss_slots := slots\<rparr>))"

definition one_leaving :: server_system where
  "one_leaving = (let b = backend_of_client demo_client; key = \<lparr>skey = 7, ssecret = 9\<rparr>;
       S = set_task 0 (Serving 1 key b) (one_refused\<lparr>ss_registry := the (register registry_new b 1 key)\<rparr>) in
     set_task 0 (Leaving 1 key b) (S\<lparr>ss_slots := permit_drop (ss_slots S)\<rparr>))"

lemma one_leaving_reachable: "server_step\<^sup>*\<^sup>* (server_start 1) one_leaving"
proof -
  let ?S = "set_task 0 (Spawned 1) ((server_start 1)\<lparr>ss_next_id := 2, ss_accepted := 1\<rparr>)"
  have "server_step (server_start 1) ?S" using server_step.accepts[of "server_start 1"] by (simp add: server_start_def)
  moreover have "server_step ?S two_accepted"
    using server_step.accepts[of ?S] by (simp add: two_accepted_def server_start_def set_task_def Let_def numeral_2_eq_2)
  moreover have "server_step two_accepted (set_task 0 (Admitted 1) (two_accepted\<lparr>ss_slots := \<lparr>live = 1, max_slots = 1\<rparr>\<rparr>))"
    by (rule server_step.admits) (simp_all add: two_accepted_def server_start_def set_task_def Let_def slots_new_def try_acquire_def)
  moreover have "server_step (set_task 0 (Admitted 1) (two_accepted\<lparr>ss_slots := \<lparr>live = 1, max_slots = 1\<rparr>\<rparr>)) one_refused"
    unfolding one_refused_def Let_def
    by (rule server_step.refuses) (simp_all add: two_accepted_def server_start_def set_task_def Let_def try_acquire_def)
  moreover have "server_step one_refused (set_task 0 (Serving 1 \<lparr>skey = 7, ssecret = 9\<rparr> (backend_of_client demo_client))
      (one_refused\<lparr>ss_registry := the (register registry_new (backend_of_client demo_client) 1 \<lparr>skey = 7, ssecret = 9\<rparr>)\<rparr>))"
    by (rule server_step.registers)
      (simp_all add: one_refused_def two_accepted_def server_start_def set_task_def Let_def register_def registry_new_def)
  moreover have "server_step (set_task 0 (Serving 1 \<lparr>skey = 7, ssecret = 9\<rparr> (backend_of_client demo_client))
      (one_refused\<lparr>ss_registry := the (register registry_new (backend_of_client demo_client) 1 \<lparr>skey = 7, ssecret = 9\<rparr>)\<rparr>)) one_leaving"
    unfolding one_leaving_def Let_def by (rule server_step.ends) simp
  ultimately show ?thesis by (meson converse_rtranclp_into_rtranclp rtranclp.rtrancl_refl)
qed

theorem concurrent_sessions_keep_accounts_witness:
  "unat (slots_live (ss_slots one_leaving)) = card {i. has_slot (ss_tasks one_leaving i)} \<and>
   lookup_by_key (ss_registry one_leaving) \<lparr>skey = 7, ssecret = 9\<rparr> = Some (backend_of_client demo_client)"
proof -
  have "ss_accepted one_leaving \<le> 2 ^ 32" "ss_tasks one_leaving 0 = Leaving 1 \<lparr>skey = 7, ssecret = 9\<rparr> (backend_of_client demo_client)"
    by (simp_all add: one_leaving_def one_refused_def two_accepted_def Let_def)
  then show ?thesis
    using concurrent_sessions_keep_accounts[OF one_leaving_reachable, of "\<lparr>skey = 7, ssecret = 9\<rparr>" "backend_of_client demo_client"] by blast
qed

end
