(* ===== verification/Pg_Trust.thy ===== *)
theory Pg_Trust
  imports Pg_Client
begin

section \<open>Which certificate a backend session rests on (\<open>backend/pg_client.rs\<close>)\<close>

text \<open>
  \<open>build_tls_config\<close> chooses a \<open>ServerCertVerifier\<close>; two of them are in the source, the third is that of \<open>rustls\<close>. \<open>rustls\<close>
  asks the verifier for the certificate chain and for the handshake signature, and completes no handshake it
  refused. That documented behaviour is \<open>rustls_contract\<close>; the signature checks, the supported algorithms and the
  verifier for host names are the fields of the parameter record \<open>rustls\<close>.
\<close>

subsection \<open>The signature checks of the two verifiers\<close>

record 'alg signature_algorithms =
  alg_all :: "'alg list"
  alg_mapping :: "(u16 \<times> 'alg list) list"

record 'alg rustls =
  rl_algorithms :: "'alg signature_algorithms"
  rl_tls12_signature :: "bytes \<Rightarrow> bytes \<Rightarrow> bytes \<Rightarrow> 'alg signature_algorithms \<Rightarrow> string option"
  rl_tls13_signature :: "bytes \<Rightarrow> bytes \<Rightarrow> bytes \<Rightarrow> 'alg signature_algorithms \<Rightarrow> string option"
  rl_webpki_chain :: "root_store \<Rightarrow> bytes \<Rightarrow> bytes list \<Rightarrow> string \<Rightarrow> string option"
  rl_webpki_signature :: "bool \<Rightarrow> bytes \<Rightarrow> bytes \<Rightarrow> bytes \<Rightarrow> string option"

definition no_certificate_tls12_signature :: "'alg rustls \<Rightarrow> bytes \<Rightarrow> bytes \<Rightarrow> bytes \<Rightarrow> string option" where
  "no_certificate_tls12_signature R message cert dss = rl_tls12_signature R message cert dss (rl_algorithms R)"

definition no_certificate_tls13_signature :: "'alg rustls \<Rightarrow> bytes \<Rightarrow> bytes \<Rightarrow> bytes \<Rightarrow> string option" where
  "no_certificate_tls13_signature R message cert dss = rl_tls13_signature R message cert dss (rl_algorithms R)"

definition no_certificate_verify_schemes :: "'alg rustls \<Rightarrow> u16 list" where
  "no_certificate_verify_schemes R = map (\<lambda>(scheme, _). scheme) (alg_mapping (rl_algorithms R))"

definition chain_only_tls12_signature :: "'alg rustls \<Rightarrow> bytes \<Rightarrow> bytes \<Rightarrow> bytes \<Rightarrow> string option" where
  "chain_only_tls12_signature R message cert dss = rl_tls12_signature R message cert dss (rl_algorithms R)"

definition chain_only_tls13_signature :: "'alg rustls \<Rightarrow> bytes \<Rightarrow> bytes \<Rightarrow> bytes \<Rightarrow> string option" where
  "chain_only_tls13_signature R message cert dss = rl_tls13_signature R message cert dss (rl_algorithms R)"

definition chain_only_verify_schemes :: "'alg rustls \<Rightarrow> u16 list" where
  "chain_only_verify_schemes R = map (\<lambda>(scheme, _). scheme) (alg_mapping (rl_algorithms R))"

text \<open>What each verifier says of a chain and of the signature over the handshake; \<open>None\<close> accepts.\<close>

fun chain_verdict :: "'alg rustls \<Rightarrow> net \<Rightarrow> tls_verification \<Rightarrow> bytes \<Rightarrow> bytes list \<Rightarrow> string \<Rightarrow> string option" where
  "chain_verdict R N NoCertificateVerification leaf inters name = no_certificate_verification leaf inters name"
| "chain_verdict R N (ChainOnlyVerification roots) leaf inters name = chain_only_verification N roots leaf inters name"
| "chain_verdict R N (FullVerification roots) leaf inters name = rl_webpki_chain R roots leaf inters name"

fun signature_verdict :: "'alg rustls \<Rightarrow> tls_verification \<Rightarrow> bool \<Rightarrow> bytes \<Rightarrow> bytes \<Rightarrow> bytes \<Rightarrow> string option" where
  "signature_verdict R NoCertificateVerification tls13 message leaf dss =
     (if tls13 then no_certificate_tls13_signature R message leaf dss else no_certificate_tls12_signature R message leaf dss)"
| "signature_verdict R (ChainOnlyVerification roots) tls13 message leaf dss =
     (if tls13 then chain_only_tls13_signature R message leaf dss else chain_only_tls12_signature R message leaf dss)"
| "signature_verdict R (FullVerification roots) tls13 message leaf dss = rl_webpki_signature R tls13 message leaf dss"

text \<open>
  A client handshake of \<open>rustls\<close> completes only after the configured verifier accepted the chain the server presented for
  the name asked for, and the signature the server made over the handshake with the key of the first certificate; that
  chain is what \<open>peer_certificates\<close> returns afterwards.
\<close>

definition rustls_contract :: "'alg rustls \<Rightarrow> net \<Rightarrow> bool" where
  "rustls_contract R N \<longleftrightarrow> (\<forall>v name l l' chain. net_tls_connect N v name l = Inr (l', chain) \<longrightarrow>
     (\<exists>leaf inters tls13 message dss. chain = Some (leaf # inters) \<and> chain_verdict R N v leaf inters name = None \<and>
        signature_verdict R v tls13 message leaf dss = None))"

subsection \<open>The roots are those of the configured file\<close>

lemma load_roots_all:
  "load_roots N path certs roots = Inr rs \<Longrightarrow> certs = map Inr (drop (length roots) rs) \<and> roots = take (length roots) rs \<and>
     (\<forall>cert \<in> set (drop (length roots) rs). net_add_root N cert = None)"
proof (induction N path certs roots rule: load_roots.induct)
  case (3 N path cert certs roots)
  then have ok: "net_add_root N cert = None" and "load_roots N path certs (roots @ [cert]) = Inr rs"
    by (auto split: option.splits)
  from 3(1)[OF this] have rest: "certs = map Inr (drop (Suc (length roots)) rs)" "roots @ [cert] = take (Suc (length roots)) rs"
      "\<forall>c \<in> set (drop (Suc (length roots)) rs). net_add_root N c = None" by auto
  then have "length roots < length rs" by (metis length_append_singleton length_take min.absorb_iff2 not_less_eq_eq min_def not_le)
  then have "drop (length roots) rs = cert # drop (Suc (length roots)) rs" "take (length roots) rs = roots"
    using rest(2) by (auto simp: Cons_nth_drop_Suc[symmetric] take_Suc_conv_app_nth)
  then show ?case using ok rest by simp
qed auto

lemma load_root_store_file:
  assumes "load_root_store N cfg = Inr roots" and "root_cert_file (cf_tls cfg) = Some path"
  shows "\<exists>pem certs. net_read_file N path = Inr pem \<and> net_pem_certs N pem = map Inr certs \<and> roots = FileRoots certs \<and> certs \<noteq> [] \<and>
    (\<forall>cert \<in> set certs. net_add_root N cert = None)"
  using assms by (auto simp: load_root_store_def and_then_Inr split: sum.splits if_splits dest: load_roots_all)

subsection \<open>What the handshake does to the certificate hash and to the mark of a verified backend\<close>

text \<open>
  \<open>kept J m\<close>: however \<open>m\<close> ends, it keeps \<open>J\<close> of the certificate hash and the mark. Only the end of a SASL exchange sets
  the mark, and only for a signature over the transcript of a client that was bound as the policy says.
\<close>

named_theorems kept_rules "operations that keep what is known of the certificate hash and the mark"

definition kept :: "(cert_hash option \<Rightarrow> bool \<Rightarrow> bool) \<Rightarrow> (pg_client, 'a, 'e) prog \<Rightarrow> bool" where
  "kept J m \<longleftrightarrow> (\<forall>c. J (pc_cert_hash c) (pc_verified c) \<longrightarrow> J (pc_cert_hash (snd (m c))) (pc_verified (snd (m c))))"

definition at_hash :: "cert_hash option \<Rightarrow> (cert_hash option \<Rightarrow> bool \<Rightarrow> bool) \<Rightarrow> cert_hash option \<Rightarrow> bool \<Rightarrow> bool" where
  "at_hash h J h' b \<longleftrightarrow> h' = h \<and> J h' b"

lemma keptI: "(\<And>c r c'. m c = (r, c') \<Longrightarrow> J (pc_cert_hash c) (pc_verified c) \<Longrightarrow> J (pc_cert_hash c') (pc_verified c')) \<Longrightarrow> kept J m"
  by (simp add: kept_def) (metis prod.collapse)

lemma keptD: "kept J m \<Longrightarrow> m c = (r, c') \<Longrightarrow> J (pc_cert_hash c) (pc_verified c) \<Longrightarrow> J (pc_cert_hash c') (pc_verified c')"
  unfolding kept_def by (metis snd_conv)

lemma kept_bnd [kept_rules]:
  assumes "kept J m" and "\<And>x. kept J (f x)"
  shows "kept J (bnd m f)"
proof (rule keptI)
  fix c r c' assume run: "bnd m f c = (r, c')" and J: "J (pc_cert_hash c) (pc_verified c)"
  obtain x d where m: "m c = (x, d)" by fastforce
  note d = keptD[OF assms(1) m J]
  show "J (pc_cert_hash c') (pc_verified c')"
    using run m d keptD[OF assms(2), of _ d r c'] by (cases x) (auto simp: bnd_def)
qed

lemma kept_basic [kept_rules]:
  "kept J (ret x)" "kept J (throw e)" "kept J panic" "kept J hang" "kept J (gets f)" "kept J (of_opt e y)" "kept J (of_sum z)"
  "kept J (on_reader r rd)"
  by (simp_all add: kept_def prog_simps on_reader_def split: option.splits sum.splits prod.splits outcome.splits)

lemma kept_modify [kept_rules]:
  "(\<And>c. pc_cert_hash (f c) = pc_cert_hash c \<and> pc_verified (f c) = pc_verified c) \<Longrightarrow> kept J (modify f)"
  by (simp add: kept_def prog_simps)

lemma kept_map_err [kept_rules]: "kept J m \<Longrightarrow> kept J (map_err g m)"
  by (rule keptI) (auto simp: map_err_def split: prod.splits dest: keptD)

lemma kept_cases [kept_rules]:
  "(b \<Longrightarrow> kept J m) \<Longrightarrow> (\<not> b \<Longrightarrow> kept J m') \<Longrightarrow> kept J (if b then m else m')"
  "(\<And>a b. kept J (g a b)) \<Longrightarrow> kept J (case p of (a, b) \<Rightarrow> g a b)"
  "kept J m \<Longrightarrow> (\<And>v. kept J (h v)) \<Longrightarrow> kept J (case x of None \<Rightarrow> m | Some v \<Rightarrow> h v)"
  "kept J m \<Longrightarrow> (\<And>v vs. kept J (k v vs)) \<Longrightarrow> kept J (case xs of [] \<Rightarrow> m | v # vs \<Rightarrow> k v vs)"
  by (simp_all split: prod.splits option.splits list.splits)

lemma kept_on_link [kept_rules]: "kept J (on_link m)"
  by (simp add: kept_def on_link_def split: prod.splits)

lemma put_pc_pool_facts [simp]: "pc_cert_hash (put_pc_pool p c) = pc_cert_hash c" "pc_verified (put_pc_pool p c) = pc_verified c"
  by (simp_all add: put_pc_pool_def)

lemma kept_rent [kept_rules]: "kept J (rent_buffer pc_pool put_pc_pool n)"
  by (simp add: kept_def rent_buffer_def split: prod.splits outcome.splits)

lemma kept_drop_after [kept_rules]: "kept J m \<Longrightarrow> kept J (drop_after pc_pool put_pc_pool pb m)"
  by (rule keptI) (auto simp: drop_after_def split: prod.splits outcome.splits dest: keptD)

lemma kept_read_into [kept_rules]:
  assumes "\<And>n. kept J (rd n)"
  shows "kept J (read_into pc_pool put_pc_pool rd pb)"
proof (rule keptI)
  fix c r c' assume run: "read_into pc_pool put_pc_pool rd pb c = (r, c')" and J: "J (pc_cert_hash c) (pc_verified c)"
  obtain x d where m: "rd (exposed pb) c = (x, d)" by fastforce
  note d = keptD[OF assms m J]
  show "J (pc_cert_hash c') (pc_verified c')"
    using run m d
    by (cases x) (auto simp: read_into_def dest: keptD[OF kept_drop_after[OF kept_basic(2)]] keptD[OF kept_drop_after[OF kept_basic(3)]]
      keptD[OF kept_drop_after[OF kept_basic(4)]])
qed

lemmas pg_read_defs = read_message_header_def pg_read_message_body_def read_authentication_data_def pg_write_message_def pg_write_raw_def

lemma kept_messages [kept_rules]: "kept J (pg_write_message tag body)" "kept J (read_authentication_data N expected)"
  unfolding pg_read_defs Let_def by (intro kept_rules)+

subsection \<open>The policy and the binding of a SASL exchange\<close>

text \<open>A SCRAM client made from this configuration and bound, to the certificate of the link, as the policy says.\<close>

definition bound_client :: "crypto \<Rightarrow> (nat \<Rightarrow> bytes) \<Rightarrow> pg_config \<Rightarrow> cert_hash option \<Rightarrow> scram_client \<Rightarrow> bool" where
  "bound_client C rnd cfg h cl \<longleftrightarrow> (\<exists>i binding. cl = client_for C rnd cfg i binding \<and>
     (case binding of
        None \<Rightarrow> channel_binding (cf_tls cfg) \<noteq> CbRequire
      | Some x \<Rightarrow> channel_binding (cf_tls cfg) \<noteq> CbDisable \<and> (\<exists>k. h = Some k \<and> x = cbind_input k)))"

definition bound_proof :: "crypto \<Rightarrow> (nat \<Rightarrow> bytes) \<Rightarrow> pg_config \<Rightarrow> cert_hash option \<Rightarrow> bool" where
  "bound_proof C rnd cfg h \<longleftrightarrow> (\<exists>cl first reply cl' final key sig. bound_client C rnd cfg h cl \<and>
     client_final_message C first (cf_salt cfg) (cf_iterations cfg) cl = (Ok reply, cl') \<and>
     cl_server_key cl' = Some key \<and> parse_scram_kv final (CHR ''v'') = Some sig \<and>
     b64_decode C sig = Some (hmac_sha256 C key (as_bytes (cl_auth_message cl'))))"

definition marks_proofs :: "crypto \<Rightarrow> (nat \<Rightarrow> bytes) \<Rightarrow> pg_config \<Rightarrow> (cert_hash option \<Rightarrow> bool \<Rightarrow> bool) \<Rightarrow> bool" where
  "marks_proofs C rnd cfg J \<longleftrightarrow> (\<forall>h b b'. J h b \<longrightarrow> (b' \<longrightarrow> bound_proof C rnd cfg h) \<longrightarrow> J h b')"

lemma select_scram_bound:
  assumes "select_mechanism (channel_binding (cf_tls cfg)) (pc_cert_hash c \<noteq> None) offered = Inr chosen"
  shows "\<exists>cl c'. select_scram C rnd cfg chosen c = (Ok cl, c') \<and> bound_client C rnd cfg (pc_cert_hash c) cl \<and>
    pc_cert_hash c' = pc_cert_hash c \<and> pc_verified c' = pc_verified c"
proof -
  have plus: "channel_binding (cf_tls cfg) \<noteq> CbDisable \<and> pc_cert_hash c \<noteq> None" if "chosen = ScramSha256Plus"
    using assms that by (cases "channel_binding (cf_tls cfg)") (auto simp: select_mechanism_def split: if_splits)
  have plain: "channel_binding (cf_tls cfg) \<noteq> CbRequire" if "chosen \<noteq> ScramSha256Plus"
    using assms that by (auto simp: select_mechanism_def split: if_splits)
  show ?thesis
  proof (cases "chosen = ScramSha256Plus")
    case True
    then obtain k where k: "pc_cert_hash c = Some k" using plus by blast
    have "bound_client C rnd cfg (pc_cert_hash c) (client_for C rnd cfg (pc_draws c) (Some (cbind_input k)))"
      unfolding bound_client_def using k plus[OF True] by (intro exI[of _ "pc_draws c"] exI[of _ "Some (cbind_input k)"]) simp
    then show ?thesis using True k by (simp add: select_scram_def bnd_def prog_simps Let_def client_for_def)
  next
    case False
    have "bound_client C rnd cfg (pc_cert_hash c) (client_for C rnd cfg (pc_draws c) None)"
      unfolding bound_client_def using plain[OF False] by (intro exI[of _ "pc_draws c"] exI[of _ None]) simp
    then show ?thesis using False by (simp add: select_scram_def bnd_def prog_simps Let_def client_for_def)
  qed
qed

lemma kept_sasl_end:
  assumes "marks_proofs C rnd cfg J" and "bound_client C rnd cfg h cl"
    and "client_final_message C first (cf_salt cfg) (cf_iterations cfg) cl = (Ok reply, cl')"
  shows "kept (at_hash h J) (bnd (of_sum (verify_server_final C cl' final)) (\<lambda>verified. modify (\<lambda>c. c\<lparr>pc_verified := verified\<rparr>)))"
proof (cases "verify_server_final C cl' final")
  case (Inl e)
  then show ?thesis by (simp add: kept_def bnd_def prog_simps)
next
  case (Inr verified)
  have "bound_proof C rnd cfg h" if verified
    using Inr that assms(2,3) server_signature_is_checked_iff[of C cl' final] unfolding bound_proof_def by simp blast
  then show ?thesis
    using assms(1) unfolding marks_proofs_def by (simp add: kept_def bnd_def prog_simps Inr at_hash_def) blast
qed

lemma kept_handle_sasl:
  assumes "marks_proofs C rnd cfg J"
  shows "kept J (handle_sasl C N rnd cfg body)"
proof (rule keptI)
  fix c r c' assume run: "handle_sasl C N rnd cfg body c = (r, c')" and J: "J (pc_cert_hash c) (pc_verified c)"
  let ?h = "pc_cert_hash c" and ?offered = "parse_sasl_mechanisms body"
  show "J (pc_cert_hash c') (pc_verified c')"
  proof (cases "?offered = [] \<or> (\<exists>e. select_mechanism (channel_binding (cf_tls cfg)) (?h \<noteq> None) ?offered = Inl e)")
    case True
    then show ?thesis using run J by (auto simp: handle_sasl_def bnd_def prog_simps Let_def split: if_splits)
  next
    case False
    then obtain chosen where chosen: "select_mechanism (channel_binding (cf_tls cfg)) (?h \<noteq> None) ?offered = Inr chosen"
      by (meson sum.exhaust)
    obtain cl d where cl: "select_scram C rnd cfg chosen c = (Ok cl, d)" "bound_client C rnd cfg ?h cl"
        "pc_cert_hash d = ?h" "pc_verified d = pc_verified c"
      using select_scram_bound[OF chosen] by blast
    define rest where "rest = (let first = client_first_message cl in
      andthen (pg_write_message 0x70 (put_cstr [] (mechanism_name chosen) @ to_be32 (of_nat (length first)) @ as_bytes first)) (
      bnd (read_authentication_data N 11) (\<lambda>server_first_bytes.
      bnd (of_opt (PgProtocol ''server-first is not UTF-8'') (from_utf8 server_first_bytes)) (\<lambda>server_first_msg.
      (case client_final_message C server_first_msg (cf_salt cfg) (cf_iterations cfg) cl of
         (Ok final, cl') \<Rightarrow>
           andthen (pg_write_message 0x70 (as_bytes final)) (
           bnd (read_authentication_data N 12) (\<lambda>server_final_bytes.
           bnd (of_opt (PgProtocol ''server-final is not UTF-8'') (from_utf8 server_final_bytes)) (\<lambda>server_final.
           bnd (of_sum (verify_server_final C cl' server_final)) (\<lambda>verified.
           modify (\<lambda>c. c\<lparr>pc_verified := verified\<rparr>)))))
       | (Err e, cl') \<Rightarrow> throw e
       | (Panic, cl') \<Rightarrow> panic
       | (Pending, cl') \<Rightarrow> hang)))))"
    have same: "handle_sasl C N rnd cfg body c = rest d"
      using False chosen cl(1) by (simp add: handle_sasl_def bnd_def[of "gets _"] bnd_def[of "of_sum _"] bnd_def[of "select_scram _ _ _ _"] prog_simps rest_def)
    have keeps: "kept (at_hash ?h J) rest"
      unfolding Let_def rest_def
      by (intro kept_bnd kept_messages kept_basic)
        (auto split: prod.splits outcome.splits intro!: kept_bnd kept_messages kept_basic kept_sasl_end[OF assms cl(2)])
    have "at_hash ?h J (pc_cert_hash d) (pc_verified d)" using J cl(3,4) by (simp add: at_hash_def)
    from keptD[OF keeps trans[OF same[symmetric] run] this]
    show ?thesis unfolding at_hash_def by blast
  qed
qed

lemma kept_handshake_step:
  assumes "marks_proofs C rnd cfg J"
  shows "kept J (handshake_step C N rnd cfg)"
  unfolding handshake_step_def handle_backend_message_def handle_auth_request_def handle_cleartext_def handle_md5_def
    handle_parameter_status_def read_message_header_def pg_read_message_body_def Let_def
  by (intro kept_rules kept_handle_sasl[OF assms]) simp_all

lemma kept_handshake_loop: "marks_proofs C rnd cfg J \<Longrightarrow> kept J (handshake_loop fuel C N rnd cfg)"
  by (induction fuel) (auto intro!: kept_rules kept_handshake_step)

lemma kept_handshake:
  assumes "marks_proofs C rnd cfg J"
  shows "kept J (andthen (write_startup_message cfg) (handle_startup_handshake C N rnd cfg))"
proof -
  have "kept J (handle_startup_handshake C N rnd cfg)"
    using kept_handshake_loop[OF assms] unfolding kept_def handle_startup_handshake_def by blast
  then show ?thesis unfolding write_startup_message_def pg_write_raw_def by (intro kept_rules)
qed

lemma connect_hash:
  assumes "pg_connect C N rnd cfg pool = (Ok c, pool')"
  shows "\<exists>tcp l. net_connect N (cf_host cfg @ '':'' @ show_u16 (cf_port cfg)) = Inr tcp \<and> try_tls C N cfg tcp = (Ok (pc_cert_hash c), l)"
    and "pc_verified c \<longrightarrow> bound_proof C rnd cfg (pc_cert_hash c)"
proof -
  obtain tcp where tcp: "net_connect N (cf_host cfg @ '':'' @ show_u16 (cf_port cfg)) = Inr tcp"
    using assms by (auto simp: pg_connect_def split: sum.splits)
  obtain h l where tls: "try_tls C N cfg tcp = (Ok h, l)"
    using assms tcp by (auto simp: pg_connect_def split: prod.splits outcome.splits)
  let ?c = "\<lparr>pc_pool = pool, pc_link = l, pc_notifications = [], pc_backend_key = None, pc_ready_status = None, pc_verified = False,
    pc_cert_hash = h, pc_host = cf_host cfg, pc_port = cf_port cfg, pc_connect_timeout = cf_connect_timeout cfg, pc_draws = 0\<rparr>"
  obtain r where run: "andthen (write_startup_message cfg) (handle_startup_handshake C N rnd cfg) ?c = (r, c)"
    using assms tcp tls by (auto simp: pg_connect_def split: prod.splits outcome.splits)
  let ?J = "\<lambda>h' b. h' = h \<and> (b \<longrightarrow> bound_proof C rnd cfg h')"
  have "marks_proofs C rnd cfg ?J" by (simp add: marks_proofs_def)
  from keptD[OF kept_handshake[OF this] run] have "pc_cert_hash c = h" "pc_verified c \<longrightarrow> bound_proof C rnd cfg (pc_cert_hash c)"
    by auto
  then show "\<exists>tcp l. net_connect N (cf_host cfg @ '':'' @ show_u16 (cf_port cfg)) = Inr tcp \<and> try_tls C N cfg tcp = (Ok (pc_cert_hash c), l)"
    and "pc_verified c \<longrightarrow> bound_proof C rnd cfg (pc_cert_hash c)"
    using tcp tls by blast+
qed

lemma secured_link:
  assumes "try_tls C N cfg tcp = (Ok h, l)" and "TlsRequire \<le> tls_mode (cf_tls cfg)"
  shows "\<exists>l0 v name chain. build_tls_config N cfg = Inr v \<and> cf_server_name cfg = Some name \<and> net_server_name_ok N name \<and>
    net_tls_connect N v name l0 = Inr (l, chain) \<and> h = leaf_cert_hash C chain"
  using assms
  by (auto simp: try_tls_def after_ssl_reply_def bnd_def prog_simps less_eq_backend_tls_mode_def
      split: option.splits sum.splits prod.splits if_splits outcome.splits backend_tls_mode.splits)

lemma client_for_facts:
  "cl_nonce (client_for C rnd cfg i b) = b64url_encode C (rnd i)"
  "client_cbind_input (client_for C rnd cfg i b) = (case b of None \<Rightarrow> as_bytes ''n,,'' | Some x \<Rightarrow> x)"
  "cl_password (client_for C rnd cfg i b) = cf_password cfg" "cl_server_key (client_for C rnd cfg i b) = cf_server_key cfg"
  by (simp_all add: client_for_def scram_client_new_def use_channel_binding_def client_cbind_input_def Let_def split: option.splits)

lemma captured_server_key: "client_keys C cl salt iters salt' iters' = Inr (a, b, key) \<Longrightarrow> cl_password cl = None \<Longrightarrow> key = cl_server_key cl"
  by (auto simp: client_keys_def sum_Inr split: if_splits)

lemma client_final_transcript:
  assumes "client_final_message C first salt iterations cl = (Ok reply, cl')"
  shows "\<exists>combined. starts_with combined (cl_nonce cl) \<and>
    cl_auth_message cl' = ''n=,r='' @ cl_nonce cl @ '','' @ first @ '','' @ ''c='' @ b64_encode C (client_cbind_input cl) @ '',r='' @ combined"
    and "cl_password cl = None \<longrightarrow> cl_server_key cl' = cl_server_key cl"
  using assms
  by (auto simp: client_final_message_def bnd_def prog_simps Let_def captured_server_key
      split: option.splits sum.splits prod.splits if_splits)

subsection \<open>Properties\<close>



end
