(* ===== verification/Pass_Through.thy ===== *)
theory Pass_Through
  imports Conn_Ready
begin

section \<open>One password, two logins\<close>

text \<open>
  The proxy holds a SCRAM secret and no password. A client proves the password to it, the proxy recovers the client key from the
  proof, and with that key logs in at a backend that asks for SCRAM itself. Here the exchanges of both sides, the
  framing and the session are one run. \<open>scram_backend\<close> is the backend this is stated against: an authenticator on
  the secret of the backend's user, answering the messages of the proxy's SCRAM client.
\<close>

subsection \<open>The reference backend\<close>

definition scram_backend :: "crypto \<Rightarrow> bytes \<Rightarrow> verifier \<Rightarrow> string \<Rightarrow> scram_client \<Rightarrow> bytes \<Rightarrow> u32 \<Rightarrow> (string \<times> string \<times> string) option" where
  "scram_backend C nb v user cl salt iterations =
     (case handle_client_first C nb SCRAM_SHA_256 (client_first_message cl) user (authenticator_new v None) of
        (Ok t1, b) \<Rightarrow>
          (case client_final_message C t1 salt iterations cl of
             (Ok d2, _) \<Rightarrow>
               (case handle_client_final C d2 user b of
                  (Ok t2, _) \<Rightarrow> Some (t1, d2, t2)
                | _ \<Rightarrow> None)
           | _ \<Rightarrow> None)
      | _ \<Rightarrow> None)"

text \<open>What this backend sends from the request for SCRAM to \<open>ReadyForQuery\<close>, with what it announces in between.\<close>

definition backend_script :: "string \<Rightarrow> string \<Rightarrow> startup_item list \<Rightarrow> u8 \<Rightarrow> bytes" where
  "backend_script t1 t2 is status =
     frame 0x52 (to_be32 10 @ mechanism_list [ScramSha256]) @ frame 0x52 (to_be32 11 @ as_bytes t1)
     @ frame 0x52 (to_be32 12 @ as_bytes t2) @ concat (map item_frame is) @ frame 0x5A [status]"

lemma script_bounds:
  assumes "length (backend_script t1 t2 is status) \<le> n"
  shows "\<forall>k \<in> {length (mechanism_list [ScramSha256]) + 4, length t1 + 4, length t2 + 4, 1} \<union> (\<lambda>i. length (snd (item_message i))) ` set is. k \<le> n"
proof -
  have "length (snd (item_message i)) \<le> length (concat (map item_frame is))" if "i \<in> set is" for i
    using that by (induction "is") (auto simp: item_frame_def frame_def)
  then show ?thesis
    using assms by (fastforce simp: backend_script_def frame_def to_be32_length length_as_bytes)
qed

lemma show_u32_ascii [simp]: "is_ascii (show_u32 w)"
  using show_nat_digits[of _ "unat w"] by (force simp: show_u32_def is_ascii_def is_digit_def Let_def)

text \<open>
  It answers a client that has the keys of the same secret, the client convinces it, and its signature convinces the client.
\<close>

lemma scram_backend_answers:
  assumes "crypto_laws C" and "random \<noteq> []" and "user \<noteq> []" and "\<not> v_dummy v" and "sha256 C key = v_stored_key v" and "length key = 32"
    and "cl = scram_client_new C random (Some key) (Some (v_server_key v)) (Some (v_stored_key v)) None"
  shows "\<exists>t1 d2 t2 cl'. scram_backend C nb v user cl (v_salt v) (v_iterations v) = Some (t1, d2, t2) \<and>
    client_final_message C t1 (v_salt v) (v_iterations v) cl = (Ok d2, cl') \<and> verify_server_final C cl' t2 = Inr True \<and>
    is_ascii t1 \<and> is_ascii t2 \<and> t1 = server_first_text C (cl_nonce cl @ ''-'' @ b64_encode C nb) v \<and>
    (\<exists>signature. length signature = 32 \<and> t2 = ''v='' @ b64_encode C signature)"
proof -
  have cl: "good_nonce cl" "binding_agrees C cl SCRAM_SHA_256 None" "is_ascii (cl_nonce cl)"
    using good_nonce_new[OF assms(1,2)] assms(1) by (simp_all add: assms(7) binding_agrees_def scram_client_new_def)
  have keys: "client_keys C cl (v_salt v) (v_iterations v) (v_salt v) (v_iterations v) = Inr (key, v_stored_key v, Some (v_server_key v))"
    using captured_keys[of cl key "v_stored_key v"] by (simp add: assms(7) scram_client_new_def)
  obtain t1 b d2 cl' t2 b' where run:
      "handle_client_first C nb SCRAM_SHA_256 (client_first_message cl) user (authenticator_new v None) = (Ok t1, b)"
      "client_final_message C t1 (v_salt v) (v_iterations v) cl = (Ok d2, cl')" "handle_client_final C d2 user b = (Ok t2, b')"
      "verify_server_final C cl' t2 = Inr True"
    using exchange_completes[OF assms(1) cl(1,2) assms(3) keys assms(6,5,4), of nb] by blast
  have "t1 = server_first_text C (cl_nonce cl @ ''-'' @ b64_encode C nb) v"
    using first_step[OF cl(1,2) assms(3), of nb v] run(1) by simp
  moreover from this have "is_ascii t1" using assms(1) cl(3) by (simp add: server_first_text_def)
  moreover have "is_ascii t2" using run(3) assms(1) by (auto simp: handle_client_final_Ok Let_def)
  moreover have "\<exists>signature. length signature = 32 \<and> t2 = ''v='' @ b64_encode C signature"
    using run(3) crypto_lawsD(4)[OF assms(1)] unfolding handle_client_final_Ok Let_def by blast
  ultimately show ?thesis using run by (intro exI[of _ t1] exI[of _ d2] exI[of _ t2] exI[of _ cl']) (simp add: scram_backend_def)
qed

subsection \<open>A backend session over it\<close>

lemma backend_logs_in:
  assumes "net_connect N (cf_host cfg @ '':'' @ show_u16 (cf_port cfg)) = Inr tcp" and "try_tls C N cfg tcp = (Ok hash, l)"
    and "lk_left l = None" and "lk_rx l = backend_script t1 t2 is status @ later"
    and "select_mechanism (channel_binding (cf_tls cfg)) (hash \<noteq> None) [ScramSha256] = Inr ScramSha256"
    and "cl = scram_client_new C (rnd 0) (cf_client_key cfg) (cf_server_key cfg) (cf_stored_key cfg) (cf_password cfg)"
    and "client_final_message C t1 (cf_salt cfg) (cf_iterations cfg) cl = (Ok d2, cl')" and "verify_server_final C cl' t2 = Inr verified"
    and "is_ascii t1" and "is_ascii t2" and "list_all good_item is"
    and "length (backend_script t1 t2 is status) \<le> max_capacity p" and "max_capacity p < 2 ^ 30" and "pool_inv p"
  shows "\<exists>b q. backend_new C N rnd cfg p = (Ok b, q) \<and> pool_like q p \<and> be_notifications b = announced is \<and>
    be_ready_status b = status \<and> be_verified b = verified \<and> lk_tx (pc_link (be_client b)) = lk_tx l @
      [to_be32 (of_nat (4 + length (startup_body cfg))) @ startup_body cfg, sasl_first_frame ScramSha256 cl, frame 0x70 (as_bytes d2)]"
proof -
  let ?c = "\<lparr>pc_pool = p, pc_link = l, pc_notifications = [], pc_backend_key = None,
       pc_ready_status = None, pc_verified = False, pc_cert_hash = hash, pc_host = cf_host cfg,
       pc_port = cf_port cfg, pc_connect_timeout = cf_connect_timeout cfg, pc_draws = 0\<rparr>"
  let ?start = "to_be32 (of_nat (4 + length (startup_body cfg))) @ startup_body cfg"
  let ?c1 = "?c\<lparr>pc_link := l\<lparr>lk_tx := lk_tx l @ [?start]\<rparr>\<rparr>"
  have w: "write_startup_message cfg ?c = (Ok (), ?c1)"
    using assms(3) by (simp add: write_startup_message_def pg_write_raw_def on_link_def ts_write_all_def link_write_def map_err_def)
  have cl: "cl = sasl_client C rnd cfg ScramSha256 ?c1" by (simp add: assms(6) sasl_client_def client_for_def)
  have "\<exists>c'. handle_startup_handshake C N rnd cfg ?c1 = (Ok (), c') \<and> pool_like (pc_pool c') (pc_pool ?c1) \<and> pc_verified c' = verified \<and>
    pc_notifications c' = pc_notifications ?c1 @ announced is \<and> pc_ready_status c' = Some status \<and> lk_rx (pc_link c') = later \<and>
    lk_tx (pc_link c') = lk_tx (pc_link ?c1) @ [sasl_first_frame ScramSha256 cl, frame 0x70 (as_bytes d2)]"
  proof (rule login_handshake[OF _ _ cl assms(7,8) _ _ _ assms(11)])
    show "\<forall>n \<in> {length (mechanism_list [ScramSha256]) + 4, length t1 + 4, length t2 + 4, 1} \<union> (\<lambda>i. length (snd (item_message i))) ` set is.
      n \<le> max_capacity (pc_pool ?c1)" using script_bounds[OF assms(12)] by simp
  qed (use assms(3-5,9,10,13,14) in \<open>simp_all add: backend_script_def utf8_valid_str\<close>)
  then obtain c' where c': "handle_startup_handshake C N rnd cfg ?c1 = (Ok (), c')" "pool_like (pc_pool c') p" "pc_verified c' = verified"
      "pc_notifications c' = announced is" "pc_ready_status c' = Some status"
      "lk_tx (pc_link c') = lk_tx l @ [?start, sasl_first_frame ScramSha256 cl, frame 0x70 (as_bytes d2)]"
    by auto
  have "pg_connect C N rnd cfg p = (Ok c', pc_pool c')"
    using assms(1,2) w c'(1) by (simp add: pg_connect_def bnd_def)
  then have "backend_new C N rnd cfg p = (Ok (backend_of_client c'), pc_pool c')" by (simp add: backend_new_def bnd_def prog_simps)
  then show ?thesis using c' by (intro exI[of _ "backend_of_client c'"] exI[of _ "pc_pool c'"]) (simp add: backend_of_client_def)
qed

subsection \<open>Properties\<close>

definition same_secret :: "verifier \<Rightarrow> verifier \<Rightarrow> bool" where
  "same_secret v w \<longleftrightarrow> v_salt v = v_salt w \<and> v_iterations v = v_iterations w \<and> v_stored_key v = v_stored_key w \<and>
     v_server_key v = v_server_key w"

text \<open>
  C3. The proxy logs a client in at a backend without ever knowing the password. A client whose SCRAM messages the proxy
  accepts for the secret it holds becomes ready over a backend that holds the same secret and asks for SCRAM itself: the
  client key recovered from the client's proof answers the backend, the backend's signature is verified, and the
  backend is sent exactly the startup message and the two SCRAM messages, the client its own exchange, what the backend
  announced, and a cancel key that resolves to this backend.
\<close>

theorem pass_through_login:
  assumes "crypto_laws (e_crypto E)" and "e_client_nonce E 0 \<noteq> []"
    and "incoming s = startup_frame ps @ frame 0x70 (sasl_initial_body mech c1) @ frame 0x70 (as_bytes c2) @ rest"
    and "list_all good_pair ps" and "merge_options (hm_extend [] ps) = Inr m" and "map_of m ''replication'' = None"
    and "map_of m ''user'' = Some user" and "user \<noteq> []" and "cn_params s = []" and "\<not> cn_required_tls s"
    and "pool_inv (cn_pool s)" and "cn_transport s \<noteq> EmptyLink" and "cn_writes_left s = None"
    and "length (startup_frame ps) \<le> max_startup_bytes (limits (e_config E))" and "max_startup_bytes (limits (e_config E)) < 2 ^ 32"
    and "\<forall>n \<in> {length (startup_frame ps), length (sasl_initial_body mech c1), length c2, length (backend_script t1 t2 is status)}.
      n \<le> max_capacity (cn_pool s)" and "max_capacity (cn_pool s) < 2 ^ 30"
    and "e_lookup E user (cn_provider s) = (Ok (Some v), p)" and "e_lookup E user p = (Ok (Some w), p')"
    and "utf8_valid (as_bytes c1)" and "utf8_valid (as_bytes c2)" and "4 \<le> length c2"
    and "scram = authenticator_new v (offered_cert_hash E s)"
    and "handle_client_first (e_crypto E) (e_nonce E (cn_nonce_pos s)) mech c1 user scram = (Ok s1, a)"
    and "handle_client_final (e_crypto E) c2 user a = (Ok s2, a')" and "extracted_client_key a' = Some client_key"
    and "same_secret v bv" and "same_secret w bv" and "v_password w = None" and "\<not> v_dummy bv" and "backend_user \<noteq> []"
    and "backend_host_port (e_config E) = Inr (host, port)"
    and "cfg = make_pg_config E (s\<lparr>cn_params := m\<rparr>) client_key w user (session_database m user) host port"
    and "net_connect (e_net E) (host @ '':'' @ show_u16 port) = Inr tcp" and "try_tls (e_crypto E) (e_net E) cfg tcp = (Ok hash, l)"
    and "select_mechanism (channel_binding (cf_tls cfg)) (hash \<noteq> None) [ScramSha256] = Inr ScramSha256"
    and "cl = scram_client_new (e_crypto E) (e_client_nonce E 0) (Some client_key) (Some (v_server_key bv)) (Some (v_stored_key bv)) None"
    and "scram_backend (e_crypto E) nb bv backend_user cl (v_salt bv) (v_iterations bv) = Some (t1, d2, t2)"
    and "lk_left l = None" and "lk_rx l = backend_script t1 t2 is status @ later" and "list_all good_item is"
    and "session_key_new (e_key_rng E) (cn_key_pos s) = (key, i)" and "lookup_by_key (cn_registry s) key = None"
  shows "\<exists>s' b. drive_startup_until_ready E s = (Ok Ready, s') \<and> cn_verified s' \<and> lookup_by_key (cn_registry s') key = Some b \<and>
    lk_tx (pc_link (be_client b)) = lk_tx l @
      [to_be32 (of_nat (4 + length (startup_body cfg))) @ startup_body cfg, sasl_first_frame ScramSha256 cl, frame 0x70 (as_bytes d2)] \<and>
    cn_sent s' = cn_sent s @ map (\<lambda>bs. (cn_transport s, bs)) (auth_frames (mechanisms scram) s1 s2 @
      map (item_frame \<circ> Announce) (announced is) @
      [frame 0x4B (to_be32 (skey key) @ to_be32 (ssecret key)), frame 0x5A [status]])"
proof -
  have "sa_verifier a = v" using handle_client_first_state[OF assms(24)] by (simp add: assms(23) authenticator_new_def)
  then have key: "sha256 (e_crypto E) client_key = v_stored_key bv" "length client_key = 32"
    using extracted_key[OF assms(1,25)] assms(26,27) by (auto simp: same_secret_def)
  obtain cl' where bk: "client_final_message (e_crypto E) t1 (v_salt bv) (v_iterations bv) cl = (Ok d2, cl')"
      "verify_server_final (e_crypto E) cl' t2 = Inr True" "is_ascii t1" "is_ascii t2"
    using scram_backend_answers[OF assms(1,2,31,30) key assms(37), of nb] assms(38) by force
  have cfg: "cf_host cfg = host" "cf_port cfg = port" "cf_client_key cfg = Some client_key" "cf_server_key cfg = Some (v_server_key bv)"
      "cf_stored_key cfg = Some (v_stored_key bv)" "cf_password cfg = None" "cf_salt cfg = v_salt bv" "cf_iterations cfg = v_iterations bv"
    using assms(28,29) by (simp_all add: assms(33) make_pg_config_def Let_def same_secret_def)
  let ?B = "\<lambda>b. be_notifications b = announced is \<and> be_ready_status b = status \<and> be_verified b = True \<and>
    lk_tx (pc_link (be_client b)) = lk_tx l @
      [to_be32 (of_nat (4 + length (startup_body cfg))) @ startup_body cfg, sasl_first_frame ScramSha256 cl, frame 0x70 (as_bytes d2)]"
  have "\<exists>s'. drive_startup_until_ready E s = (Ok Ready, s') \<and> (\<exists>b. ?B b \<and>
    lookup_by_key (cn_registry s') key = Some b \<and> cn_verified s' = be_verified b \<and>
    cn_sent s' = cn_sent s @ map (\<lambda>bs. (cn_transport s, bs)) (auth_frames (mechanisms scram) s1 s2 @ session_frames b key))"
  proof (rule startup_opens[OF assms(3-15) _ _ assms(18-26,32,33,42,43)])
    fix q assume q: "pool_like q (cn_pool s)"
    then have cap: "length (backend_script t1 t2 is status) \<le> max_capacity q" "max_capacity q < 2 ^ 30" "pool_inv q"
      using assms(16,17) pool_like_capacity[OF q] by (auto simp: pool_like_def)
    have cl: "cl = scram_client_new (e_crypto E) (e_client_nonce E 0) (cf_client_key cfg) (cf_server_key cfg) (cf_stored_key cfg) (cf_password cfg)"
      by (simp add: cfg assms(37))
    show "\<exists>b q'. backend_new (e_crypto E) (e_net E) (e_client_nonce E) cfg q = (Ok b, q') \<and> pool_like q' q \<and> ?B b"
      using backend_logs_in[where rnd = "e_client_nonce E", OF _ assms(35,39,40,36) cl _ bk(2-4) assms(41) cap] assms(34) bk(1) by (simp add: cfg)
  qed (use assms(16,17) in auto)
  then obtain s' b where s': "drive_startup_until_ready E s = (Ok Ready, s')" "?B b" "lookup_by_key (cn_registry s') key = Some b"
      "cn_verified s' = be_verified b"
      "cn_sent s' = cn_sent s @ map (\<lambda>bs. (cn_transport s, bs)) (auth_frames (mechanisms scram) s1 s2 @ session_frames b key)" by blast
  have "session_frames b key = map (item_frame \<circ> Announce) (announced is) @
      [frame 0x4B (to_be32 (skey key) @ to_be32 (ssecret key)), frame 0x5A [status]]"
    using s'(2) by (intro announced_frames) simp_all
  then show ?thesis using s' by (intro exI[of _ s'] exI[of _ b]) simp
qed

end
