(* ===== verification/Pass_Through_Demo.thy ===== *)
theory Pass_Through_Demo
  imports Pass_Through Conn_Demo
begin

section \<open>A login passed through on concrete libraries\<close>

text \<open>
  The example session again, with a provider that knows no password, only the secret, and a backend that holds the same
  secret and asks for it.
\<close>

definition secret_only :: verifier where
  "secret_only = demo_verifier\<lparr>v_password := None\<rparr>"

definition secret_auth :: scram_authenticator where
  "secret_auth = demo_auth\<lparr>sa_verifier := secret_only\<rparr>"

definition secret_env :: "link \<Rightarrow> (unit, unit) env" where
  "secret_env l = demo_env\<lparr>e_lookup := (\<lambda>user p. (Ok (if user = ''u'' then Some secret_only else None), p)),
     e_net := demo_net\<lparr>net_connect := (\<lambda>_. Inr l)\<rparr>\<rparr>"

definition secret_client :: scram_client where
  "secret_client = scram_client_new toy_crypto (replicate 18 3) (Some demo_key) (Some (v_server_key secret_only))
     (Some (v_stored_key secret_only)) None"

lemma secret_env_facts [simp]:
  "e_crypto (secret_env l) = toy_crypto" "e_lookup (secret_env l) user p = (Ok (if user = ''u'' then Some secret_only else None), p)"
  "e_nonce (secret_env l) n = replicate 32 9" "e_tls (secret_env l) = None" "e_key_rng (secret_env l) = (\<lambda>_. 7)"
  "e_client_nonce (secret_env l) n = replicate 18 3" "e_config (secret_env l) = e_config demo_env"
  "net_connect (e_net (secret_env l)) a = Inr l"
  by (simp_all add: secret_env_def demo_env_def)

lemma secret_facts [simp]:
  "v_password secret_only = None" "v_salt secret_only = v_salt demo_verifier" "v_iterations secret_only = v_iterations demo_verifier"
  "v_stored_key secret_only = v_stored_key demo_verifier" "v_server_key secret_only = v_server_key demo_verifier"
  "\<not> v_dummy secret_only"
  using demo_key_facts(3) by (simp_all add: secret_only_def)

lemma secret_first:
  "handle_client_first toy_crypto (replicate 32 9) SCRAM_SHA_256 demo_first_text ''u'' (authenticator_new secret_only None) =
    (Ok (server_first secret_auth), secret_auth)"
  using honest_first_accepted[of "authenticator_new secret_only None" "''u''" SCRAM_SHA_256 "''n''" "''abc''" toy_crypto "replicate 32 9"]
  by (simp add: demo_first_text_def authenticator_new_def mechanisms_def validate_gs2_flag_Inr secret_auth_def demo_auth_def first_accepted_def
      server_first_text_def)

lemma secret_final:
  "\<exists>reply a'. handle_client_final toy_crypto demo_final_text ''u'' secret_auth = (Ok reply, a') \<and> extracted_client_key a' = Some demo_key"
proof -
  have "expected_cbind toy_crypto secret_auth = expected_cbind toy_crypto demo_auth"
    by (simp add: expected_cbind_def secret_auth_def split: bool.splits option.splits)
  then have "demo_final_text = honest_final toy_crypto secret_auth demo_key"
    by (simp add: demo_final_text_def honest_final_def final_without_proof_def auth_message_def secret_auth_def demo_auth_facts(1) Let_def)
  moreover have "sa_state secret_auth = ClientFirstReceived" "CHR '','' \<notin> set (combined_nonce secret_auth)"
    "prefix (client_nonce secret_auth) (combined_nonce secret_auth)" "sa_verifier secret_auth = secret_only"
    by (simp_all add: secret_auth_def demo_auth_def first_accepted_def toy_crypto_laws)
  ultimately show ?thesis using honest_final_accepted[OF toy_crypto_laws, of secret_auth demo_key "''u''"] demo_key_facts by simp
qed

theorem pass_through_login_witness:
  "\<exists>l s'. drive_startup_until_ready (secret_env l) demo_conn = (Ok Ready, s') \<and> cn_verified s' \<and> length (cn_sent s') = 6"
proof -
  let ?ps = "[(''user'', ''u'')]" and ?key = "\<lparr>skey = 7, ssecret = 7\<rparr>"
  have r: "replicate 18 (3 :: u8) \<noteq> []" "''u'' \<noteq> []" by simp_all
  obtain t1 d2 t2 signature where bk: "scram_backend toy_crypto (replicate 32 4) secret_only ''u'' secret_client (v_salt secret_only)
        (v_iterations secret_only) = Some (t1, d2, t2)"
      "t1 = server_first_text toy_crypto (cl_nonce secret_client @ ''-'' @ b64_encode toy_crypto (replicate 32 4)) secret_only"
      "t2 = ''v='' @ b64_encode toy_crypto signature" "length signature = 32"
    using scram_backend_answers[OF toy_crypto_laws r, of secret_only demo_key secret_client "replicate 32 4"] demo_key_facts
    by (auto simp: secret_client_def)
  have "t1 = demo_backend_first"
    by (simp add: bk(2) demo_backend_first_def server_first_text_def secret_client_def demo_scram_client_def scram_client_new_def)
  then have len: "length (backend_script t1 t2 [] 0x49) \<le> 4096"
    using bk(3,4) demo_backend_first_facts(1)
    by (simp add: backend_script_def frame_def to_be32_length length_as_bytes mechanism_list_def)
  let ?l = "demo_link\<lparr>lk_rx := backend_script t1 t2 [] 0x49 @ []\<rparr>"
  let ?E = "secret_env ?l"
  let ?cfg = "make_pg_config ?E (demo_conn\<lparr>cn_params := ?ps\<rparr>) demo_key secret_only ''u'' (session_database ?ps ''u'') ''127.0.0.1'' 5432"
  obtain reply a' where final: "handle_client_final toy_crypto demo_final_text ''u'' secret_auth = (Ok reply, a')"
      "extracted_client_key a' = Some demo_key" using secret_final by blast
  have tls: "try_tls (e_crypto ?E) (e_net ?E) ?cfg ?l = (Ok None, ?l)"
    by (simp add: try_tls_def make_pg_config_def Let_def prog_simps)
  have sel: "select_mechanism (channel_binding (cf_tls ?cfg)) (None \<noteq> (None :: cert_hash option)) [ScramSha256] = Inr ScramSha256"
    by (simp add: make_pg_config_def Let_def demo_env_def default_config_def default_tls_config_def default_backend_config_def select_mechanism_def)
  have cl: "secret_client = scram_client_new (e_crypto ?E) (e_client_nonce ?E 0) (Some demo_key) (Some (v_server_key secret_only))
      (Some (v_stored_key secret_only)) None"
    by (simp add: secret_client_def)
  have "\<exists>s' b. drive_startup_until_ready ?E demo_conn = (Ok Ready, s') \<and> cn_verified s' \<and> lookup_by_key (cn_registry s') ?key = Some b \<and>
    lk_tx (pc_link (be_client b)) = lk_tx ?l @ [to_be32 (of_nat (4 + length (startup_body ?cfg))) @ startup_body ?cfg,
      sasl_first_frame ScramSha256 secret_client, frame 0x70 (as_bytes d2)] \<and>
    cn_sent s' = cn_sent demo_conn @ map (\<lambda>bs. (cn_transport demo_conn, bs))
      (auth_frames (mechanisms (authenticator_new secret_only None)) (server_first secret_auth) reply @
       map (item_frame \<circ> Announce) (announced []) @ [frame 0x4B (to_be32 (skey ?key) @ to_be32 (ssecret ?key)), frame 0x5A [0x49]])"
    by (rule pass_through_login[where ps = ?ps and m = ?ps and mech = SCRAM_SHA_256 and user = "''u''" and ?c1.0 = demo_first_text
          and ?c2.0 = demo_final_text and rest = "[]" and v = secret_only and w = secret_only and bv = secret_only and p = "()" and p' = "()"
          and a = secret_auth and a' = a' and client_key = demo_key and host = "''127.0.0.1''" and port = 5432 and tcp = ?l and hash = None
          and later = "[]" and nb = "replicate 32 4" and backend_user = "''u''" and i = "Suc (Suc (cn_key_pos demo_conn))",
          OF _ _ _ _ _ _ _ _ _ _ _ _ _ _ _ _ _ _ _ _ _ _ _ _ _ final(2) _ _ _ _ _ _ refl _ tls sel cl])
      (simp_all add: demo_stream_def good_pair_def demo_plain hm_insert_def merge_options_def hm_extend_def demo_pool_facts demo_lengths
          demo_final_facts demo_utf8 secret_first final offered_cert_hash_def demo_address demo_link_facts demo_minted demo_unregistered
          toy_crypto_laws same_secret_def bk(1)[simplified] len)
  then obtain s' where "drive_startup_until_ready ?E demo_conn = (Ok Ready, s')" "cn_verified s'"
      "cn_sent s' = cn_sent demo_conn @ map (\<lambda>bs. (cn_transport demo_conn, bs))
      (auth_frames (mechanisms (authenticator_new secret_only None)) (server_first secret_auth) reply @
       map (item_frame \<circ> Announce) (announced []) @ [frame 0x4B (to_be32 (skey ?key) @ to_be32 (ssecret ?key)), frame 0x5A [0x49]])"
    by blast
  then show ?thesis by (intro exI[of _ ?l] exI[of _ s']) (simp add: auth_frames_def)
qed

end
