(* ===== verification/Pg_Trust_Demo.thy ===== *)
theory Pg_Trust_Demo
  imports Pg_Trust Pass_Through_Demo
begin

section \<open>A verified backend on a concrete network\<close>

text \<open>
  A TLS library that keeps \<open>rustls_contract\<close>, a root file, and a backend that agrees to TLS and lets the session in.
\<close>

definition demo_rustls :: "nat rustls" where
  "demo_rustls = \<lparr>rl_algorithms = \<lparr>alg_all = [1], alg_mapping = [(0x0804, [1])]\<rparr>,
     rl_tls12_signature = (\<lambda>message cert dss algs. if alg_all algs = [] then Some ''unsupported'' else None),
     rl_tls13_signature = (\<lambda>message cert dss algs. if dss = message then None else Some ''bad signature''),
     rl_webpki_chain = (\<lambda>roots leaf inters name. if name = ''db'' then None else Some ''wrong name''),
     rl_webpki_signature = (\<lambda>tls13 message cert dss. if dss = message then None else Some ''bad signature'')\<rparr>"

text \<open>A network whose TLS library does what \<open>rustls\<close> does, and a backend that agrees to TLS.\<close>

definition trust_net :: net where
  "trust_net = demo_net\<lparr>net_connect := (\<lambda>_. Inr (demo_link\<lparr>lk_rx := 0x53 # lk_rx demo_link\<rparr>)),
     net_read_file := (\<lambda>path. if path = ''ca.pem'' then Inr [1] else Inl ''no file''), net_pem_certs := (\<lambda>pem. [Inr [48, 9]]),
     net_chain_error := (\<lambda>roots leaf inters. if roots = FileRoots [[48, 9]] \<and> leaf = [48, 1] then None else Some ''unknown issuer''),
     net_tls_connect := (\<lambda>v name l. case chain_verdict demo_rustls (demo_net\<lparr>net_chain_error := (\<lambda>roots leaf inters.
         if roots = FileRoots [[48, 9]] \<and> leaf = [48, 1] then None else Some ''unknown issuer'')\<rparr>) v [48, 1] [] name of
         None \<Rightarrow> Inr (l, Some [[48, 1]]) | Some e \<Rightarrow> Inl (IoFault InvalidDataKind))\<rparr>"

definition trust_config :: pg_config where
  "trust_config = demo_pg_config\<lparr>cf_tls := default_tls_config\<lparr>tls_mode := TlsRequire, root_cert_file := Some ''ca.pem''\<rparr>\<rparr>"

lemma trust_contract: "rustls_contract demo_rustls trust_net"
proof -
  have "chain_verdict demo_rustls trust_net v [48, 1] [] name =
      chain_verdict demo_rustls (demo_net\<lparr>net_chain_error := (\<lambda>roots leaf inters.
         if roots = FileRoots [[48, 9]] \<and> leaf = [48, 1] then None else Some ''unknown issuer'')\<rparr>) v [48, 1] [] name" for v name
    by (cases v) (simp_all add: chain_only_verification_def trust_net_def demo_net_def)
  moreover have "signature_verdict demo_rustls v True [7] [48, 1] [7] = None" for v
    by (cases v) (simp_all add: demo_rustls_def no_certificate_tls13_signature_def chain_only_tls13_signature_def)
  ultimately show ?thesis
    unfolding rustls_contract_def
    by (auto simp: trust_net_def split: option.splits) (metis (no_types, lifting))
qed

lemma trust_names: "show_u16 (cf_port trust_config) = show_u16 5432" "cf_host trust_config = ''db''"
  by (simp_all add: trust_config_def demo_pg_config_def)



end
