(* ===== verification/Spec2Isabelle.thy ===== *)
theory Spec2Isabelle
  imports Config_Report Conn_Slots Transport Log_Text Conn_Demo Auth_Concurrent Server_Demo Pg_Trust_Demo Pass_Through_Demo
begin

text \<open>
  A model of wirechaos, a proxy that authenticates PostgreSQL clients with SCRAM and opens a session at a backend in
  their name. The paths below are relative to \<open>crates/wirechaos-core/src/proxy/\<close>; each theory names the file it
  models at its head.

  The parts and how they interact. \<open>main.rs\<close> reads the configuration, builds a credential store from its
  \<open>credentials:\<close> block and runs the server. The server keeps a buffer pool, a session registry, connection slots
  and the store, accepts connections and runs a session for each. A session takes a slot, negotiates TLS or GSS,
  reads the startup message, or forwards a cancel request, authenticates the client against a verifier of the
  store, connects to the backend with the client key it captured or the password, and announces the
  backend's parameters with a cancel key it minted and registered.

  \<^item> Shared ground. \<open>Prelude\<close>: types, the program monad \<open>prog\<close> (state to outcome and state; an outcome is
    a value, an error, a panic or waiting for ever), words and lists. \<open>Rust_Std\<close>: string and integer operations of
    the standard library. \<open>Crypto\<close>: the crates for hashing, base64, SASLprep and X.509 as the record \<open>crypto\<close> with
    the laws \<open>crypto_laws\<close> (round trip of base64, lengths of digests); \<open>toy_crypto\<close> satisfies them.
    \<open>Errors\<close>: the error types and what the client sees of each, \<open>Log_Text\<close>: what the log shows. \<open>Config_Report\<close>: the report of a faulty configuration.
  \<^item> Shared state. \<open>Buffer_Pool\<close> (\<open>buffer_pool.rs\<close>), \<open>Buffer_Scope\<close> (buffers held and given back by a
    program), \<open>Conn_Slots\<close> (\<open>conn_registry.rs\<close>), \<open>Session_Registry\<close> (\<open>backend/registry.rs\<close>,
    \<open>backend/session_key_secret.rs\<close>). Each has an invariant, a locale with the contract its users rely on, its
    interpretation on the code's operations, and the behaviour of any sequence of operations.
  \<^item> Messages. \<open>Packet\<close> (\<open>packet.rs\<close>, \<open>wire_util.rs\<close>), \<open>Startup_Options\<close>
    (\<open>startup_config_parse_util.rs\<close>, \<open>replication_mode.rs\<close>): parsing within bounds, round trips. \<open>Transport\<close>
    (\<open>conn_read.rs\<close>, \<open>conn_write.rs\<close>): the halves of a connection keep the contracts of the streams they hold.
  \<^item> SCRAM. \<open>Cert_Hash\<close> (\<open>tls.rs\<close>), \<open>Verifier\<close> (\<open>auth/verifier.rs\<close>), \<open>Scram_Server\<close>
    (\<open>auth/scram/scram_authenticator.rs\<close>), \<open>Scram_Client\<close> (\<open>backend/scram_client.rs\<close>): what acceptance
    proves, channel binding, no replay, dummy users, and that client and server of the program agree.
  \<^item> The backend. \<open>Config\<close> (\<open>config.rs\<close>), \<open>Backend_Policy\<close> (\<open>backend/mod.rs\<close>), \<open>Pg_Link\<close>
    (\<open>backend/timeout_stream.rs\<close>), \<open>Pg_Client\<close> (\<open>backend/pg_client.rs\<close>), \<open>Pg_Complete\<close>: the TLS decision
    tables and that the connection attempt implements them, totality of a connection, completeness of a login.
    \<open>Pg_Trust\<close>: the certificate verifiers, and which certificate a session under \<open>require\<close> or \<open>verify-full\<close> rests on, given that
    \<open>rustls\<close> completes no handshake its verifier refused (\<open>rustls_contract\<close>), and that a backend is taken for verified only over an exchange bound
    to that certificate as the policy prescribes.
  \<^item> The session. \<open>Conn_Io\<close>, \<open>Conn_Auth\<close> (\<open>auth/handler.rs\<close>, \<open>auth/scram/handler.rs\<close>),
    \<open>Conn_Startup\<close>: the operations of \<open>conn.rs\<close>. \<open>Conn_Frame\<close>: what each leaves alone. \<open>Conn_Safety\<close>: what holds of
    every session. \<open>Conn_Phase\<close>: the rounds of the driver, TLS, what \<open>Ready\<close> means. \<open>Conn_Wire\<close>: the bytes of
    the messages. \<open>Conn_Complete\<close>, \<open>Conn_Ready\<close>: a client that follows the protocol is let in.
    \<open>Pass_Through\<close>: against a backend that holds the same secret (\<open>scram_backend\<close>, a reference server written from the
    operations of \<open>Scram_Server\<close>) the client key recovered from the client's proof carries the login through end to end.
  \<^item> Credentials (\<open>auth/credentials/\<close>). \<open>Lookup_Cache\<close> (\<open>cache.rs\<close>), \<open>Auth_Query\<close> and \<open>Auth_Concurrent\<close> (\<open>auth_query.rs\<close>),
    \<open>Metrics\<close> (\<open>metrics.rs\<close>), \<open>Credential_File\<close> (\<open>file.rs\<close>, \<open>secret.rs\<close>), \<open>Store\<close> (\<open>store.rs\<close>),
    \<open>Credential_Config\<close> (\<open>config.rs\<close>). \<open>Credential_Source\<close> is the contract between store and session, \<open>Conn_Source\<close>
    what it gives a session, and \<open>Store\<close> interprets it: an answer is the database's or the list's own and fresh, an outage
    is never an unknown user, a list is loaded whole or not at all, and a dummy is never accepted.
  \<^item> The program. \<open>Server\<close>, \<open>Server_Concurrent\<close> and \<open>Server_Refine\<close> (\<open>server.rs\<close>), \<open>Cli\<close> (\<open>crates/wirechaos/src/main.rs\<close>): the server outlives its
    clients and admits users of the store only; what \<open>main\<close> and its
    commands come to: a printed secret, a line in the log or a listening server.
  \<^item> \<open>Conn_Demo\<close>, \<open>Pass_Through_Demo\<close>, \<open>Server_Demo\<close> and \<open>Pg_Trust_Demo\<close> run the model on \<open>toy_crypto\<close>, an accepting backend and concrete clients.

  How effects are read. A record of state is passed through the code's calls in order; a \<open>?\<close> is the error branch of
  \<open>bnd\<close>; an index out of range and a \<open>set_len\<close> past the allocation are \<open>Panic\<close>. A read for which no
  more data comes, and a write that the peer does not take, is \<open>Pending\<close>; the deadline of startup turns that into an
  error message, and after it only a peer that stops reading keeps a session waiting. A socket is the list of segments that still arrive before the
  deadline and whether the peer then closes. A random value is the next of a stream, a \<open>HashMap\<close> iterates in the
  order of a parameter, the clock is a parameter.

  Fuel and bounds. The startup driver runs at most three rounds, since a client gets one TLS and one GSS
  request, and more fuel changes nothing. The handshake with the backend runs one round per message, at most one more than the
  bytes that arrive. The two loops of 64
  tries, for a registered key and for a secret that is not zero, are the code's own bounds.

  Interleaving. The operations of pool, slots and registry are atomic under their locks, so their theories treat any
  sequence of them. Three theories run tasks at the same time, as step relations whose invariants hold in every
  reachable state: \<open>Auth_Concurrent\<close> the lookups of the query source, \<open>Store\<close> the reloads with their readers,
  \<open>Server_Concurrent\<close> the sessions on slots and registry. \<open>serve\<close> in \<open>Server\<close> runs a session to its end before the next,
  which is where the whole of a session is composed with the shared state; \<open>Server_Refine\<close> shows that this is a schedule of
  \<open>Server_Concurrent\<close>, a session that ends being a path of its task and one that waits for ever a path that stops.

  Not modelled: the relay after startup, which the code leaves to do; YAML and command line parsing (\<open>serde_yaml\<close>,
  \<open>clap\<close>), which are parameters; the streams of tokio and the TLS handshake of rustls, which are parameters
  too; when and where something is logged, and the layers of the subscriber that
  \<open>init_logging\<close> installs; zeroisation, which has no counterpart in HOL; \<open>startup.rs\<close>, which no module includes.
\<close>

end
